(* ===== verification/Prelude.thy ===== *)
theory Prelude
  imports Main "HOL-Library.Word" "HOL-Library.AList" "HOL-Library.Monad_Syntax"
begin

text \<open>
  Shared vocabulary of the development: the C++ integer types, \<open>size_t\<close> arithmetic with its
  wrap-around, checked memory copies, the host's byte order and \<open>htons\<close>/\<open>ntohs\<close> and their kin,
  and the two operations the sources use on \<open>std::unordered_map\<close>.

  An operation that can run into undefined behaviour or end the process (an access outside a
  buffer, a division by zero, a null pointer, \<open>std::abort\<close>) has a result of type
  \<open>'a option\<close>, and \<open>None\<close> is that outcome. That a component never reaches it is then a
  theorem of the component.
\<close>

unbundle bit_operations_syntax

subsection \<open>Integer types\<close>

type_synonym u8 = "8 word"
type_synonym u16 = "16 word"
type_synonym u32 = "32 word"
type_synonym u64 = "64 word"
type_synonym bytes = "u8 list"

text \<open>A file descriptor is a C \<open>int\<close>; only its identity and its sign are used.\<close>

type_synonym fd = int

named_theorems mem_simps \<open>byte order and memory copies\<close>
named_theorems inv_intros \<open>well-formedness is kept by an operation\<close>

subsection \<open>Arithmetic on size_t\<close>

text \<open>Sizes are natural numbers below \<open>2 ^ 64\<close>; addition and subtraction wrap.\<close>

definition SIZE_MOD :: nat where
  "SIZE_MOD = 18446744073709551616"

definition size_add :: "nat \<Rightarrow> nat \<Rightarrow> nat" where
  "size_add a b = (a + b) mod SIZE_MOD"

definition size_sub :: "nat \<Rightarrow> nat \<Rightarrow> nat" where
  "size_sub a b = (if b \<le> a then a - b else SIZE_MOD + a - b)"

lemma size_add_exact [simp]: "a + b < SIZE_MOD \<Longrightarrow> size_add a b = a + b"
  by (simp add: size_add_def)

lemma size_sub_exact [simp]: "b \<le> a \<Longrightarrow> size_sub a b = a - b"
  by (simp add: size_sub_def)

subsection \<open>Memory copies\<close>

text \<open>
  \<open>memcpy\<close> from and to a buffer at an offset. A copy that leaves the buffer is undefined
  behaviour.
\<close>

definition mem_read :: "'a list \<Rightarrow> nat \<Rightarrow> nat \<Rightarrow> 'a list option" where
  "mem_read buf off n = (if off + n \<le> length buf then Some (take n (drop off buf)) else None)"

definition blit :: "'a list \<Rightarrow> nat \<Rightarrow> 'a list \<Rightarrow> 'a list" where
  "blit buf off xs = take off buf @ xs @ drop (off + length xs) buf"

definition mem_write :: "'a list \<Rightarrow> nat \<Rightarrow> 'a list \<Rightarrow> 'a list option" where
  "mem_write buf off xs = (if off + length xs \<le> length buf then Some (blit buf off xs) else None)"

lemma length_blit [simp]: "off + length xs \<le> length buf \<Longrightarrow> length (blit buf off xs) = length buf"
  by (simp add: blit_def)

lemma nth_blit:
  assumes "off + length xs \<le> length buf" "i < length buf"
  shows "blit buf off xs ! i =
    (if off \<le> i \<and> i < off + length xs then xs ! (i - off) else buf ! i)"
  using assms by (auto simp: blit_def nth_append)

lemma mem_read_Some_iff [simp]:
  "mem_read buf off n = Some ys \<longleftrightarrow> off + n \<le> length buf \<and> ys = take n (drop off buf)"
  by (auto simp: mem_read_def)

lemma mem_write_Some_iff [simp]:
  "mem_write buf off xs = Some ys \<longleftrightarrow> off + length xs \<le> length buf \<and> ys = blit buf off xs"
  by (auto simp: mem_write_def)

subsection \<open>Byte order\<close>

text \<open>
  The host is little-endian (x86-64). \<open>mem_of n w\<close> is the object representation of an integer
  of \<open>n\<close> bytes, what \<open>memcpy\<close> takes from \<open>&w\<close>; \<open>of_mem\<close> is the integer that a \<open>memcpy\<close>
  into it leaves.
\<close>

definition mem_of :: "nat \<Rightarrow> 'a::len word \<Rightarrow> bytes" where
  "mem_of n w = map (\<lambda>i. ucast (drop_bit (8 * i) w)) [0..<n]"

fun of_mem :: "bytes \<Rightarrow> 'a::len word" where
  "of_mem [] = 0"
| "of_mem (b # bs) = (ucast b OR push_bit 8 (of_mem bs))"

lemma length_mem_of [simp]: "length (mem_of n w) = n"
  by (simp add: mem_of_def)

lemma bit_of_mem:
  "bit (of_mem bs :: 'a::len word) k \<longleftrightarrow>
     k < LENGTH('a) \<and> k < 8 * length bs \<and> bit (bs ! (k div 8)) (k mod 8)"
proof (induction bs arbitrary: k)
  case Nil
  then show ?case by simp
next
  case (Cons b bs)
  show ?case
  proof (cases "k < 8")
    case True
    then show ?thesis by (auto simp: bit_simps)
  next
    case False
    then obtain j where k: "k = 8 + j" by (metis le_Suc_ex not_less)
    have "k div 8 = Suc (j div 8)" "k mod 8 = j mod 8" using k by auto
    with Cons.IH[of j] k show ?thesis
      by (auto simp: bit_simps dest: bit_imp_le_length)
  qed
qed

lemma mem_of_of_mem [mem_simps]:
  assumes "length bs = n" "8 * n \<le> LENGTH('a)"
  shows "mem_of n (of_mem bs :: 'a::len word) = bs"
proof (rule nth_equalityI)
  show "length (mem_of n (of_mem bs :: 'a word)) = length bs"
    using assms by simp
next
  fix i assume "i < length (mem_of n (of_mem bs :: 'a word))"
  then have i: "i < n" by simp
  show "mem_of n (of_mem bs :: 'a word) ! i = bs ! i"
  proof (rule bit_word_eqI)
    fix k assume k: "k < LENGTH(8)"
    with i assms have "8 * i + k < LENGTH('a)" by simp
    with i k assms show "bit (mem_of n (of_mem bs :: 'a word) ! i) k = bit (bs ! i) k"
      by (simp add: mem_of_def bit_simps bit_of_mem)
  qed
qed

lemma of_mem_mem_of [mem_simps]:
  assumes "8 * n = LENGTH('a)"
  shows "of_mem (mem_of n (w :: 'a::len word)) = w"
proof (rule bit_word_eqI)
  fix k assume k: "k < LENGTH('a)"
  then have "k div 8 < n" using assms by simp
  then show "bit (of_mem (mem_of n w) :: 'a word) k = bit w k"
    using k assms by (simp add: bit_of_mem mem_of_def bit_simps)
qed

text \<open>
  \<open>htons\<close>/\<open>ntohs\<close>, \<open>htonl\<close>/\<open>ntohl\<close> and \<open>htobe64\<close>/\<open>be64toh\<close> all swap the bytes on this host.
\<close>

definition bswap :: "nat \<Rightarrow> 'a::len word \<Rightarrow> 'a word" where
  "bswap n w = of_mem (rev (mem_of n w))"

definition htons :: "u16 \<Rightarrow> u16" where "htons = bswap 2"
definition ntohs :: "u16 \<Rightarrow> u16" where "ntohs = bswap 2"
definition htonl :: "u32 \<Rightarrow> u32" where "htonl = bswap 4"
definition ntohl :: "u32 \<Rightarrow> u32" where "ntohl = bswap 4"
definition htobe64 :: "u64 \<Rightarrow> u64" where "htobe64 = bswap 8"
definition be64toh :: "u64 \<Rightarrow> u64" where "be64toh = bswap 8"

text \<open>The network order itself, for statements: most significant byte first.\<close>

definition be_bytes :: "nat \<Rightarrow> 'a::len word \<Rightarrow> bytes" where
  "be_bytes n w = rev (mem_of n w)"

definition be_val :: "bytes \<Rightarrow> 'a::len word" where
  "be_val bs = of_mem (rev bs)"

lemma length_be_bytes [simp]: "length (be_bytes n w) = n"
  by (simp add: be_bytes_def)

lemma be_val_be_bytes:
  "8 * n = LENGTH('a) \<Longrightarrow> be_val (be_bytes n (w :: 'a::len word)) = w"
  by (simp add: be_val_def be_bytes_def of_mem_mem_of)

lemma be_val_be_bytes_16 [simp]: "be_val (be_bytes 2 (w :: u16)) = w"
  and be_val_be_bytes_32 [simp]: "be_val (be_bytes 4 (x :: u32)) = x"
  and be_val_be_bytes_64 [simp]: "be_val (be_bytes 8 (y :: u64)) = y"
  by (simp_all add: be_val_be_bytes)

lemma be_bytes_be_val:
  "length bs = n \<Longrightarrow> 8 * n = LENGTH('a) \<Longrightarrow> be_bytes n (be_val bs :: 'a::len word) = bs"
  by (simp add: be_val_def be_bytes_def mem_of_of_mem)

lemma be_bytes_be_val_16: "length bs = 2 \<Longrightarrow> be_bytes 2 (be_val bs :: u16) = bs"
  and be_bytes_be_val_32: "length bs = 4 \<Longrightarrow> be_bytes 4 (be_val bs :: u32) = bs"
  and be_bytes_be_val_64: "length bs = 8 \<Longrightarrow> be_bytes 8 (be_val bs :: u64) = bs"
  by (simp_all add: be_bytes_be_val)

lemma mem_of_bswap: "8 * n = LENGTH('a) \<Longrightarrow> mem_of n (bswap n (w :: 'a::len word)) = be_bytes n w"
  by (simp add: bswap_def be_bytes_def mem_of_of_mem)

lemma bswap_of_mem:
  "8 * n = LENGTH('a) \<Longrightarrow> length bs = n \<Longrightarrow> bswap n (of_mem bs :: 'a::len word) = be_val bs"
  by (simp add: bswap_def be_val_def mem_of_of_mem)

lemma bswap_bswap: "8 * n = LENGTH('a) \<Longrightarrow> bswap n (bswap n (w :: 'a::len word)) = w"
  by (simp add: bswap_def mem_of_of_mem of_mem_mem_of)

lemma mem_of_hton [mem_simps]:
  "mem_of 2 (htons a) = be_bytes 2 a" "mem_of 4 (htonl b) = be_bytes 4 b"
  "mem_of 8 (htobe64 c) = be_bytes 8 c"
  by (simp_all add: htons_def htonl_def htobe64_def mem_of_bswap)

lemma ntoh_of_mem [mem_simps]:
  "length bs = 2 \<Longrightarrow> ntohs (of_mem bs) = be_val bs"
  "length bs = 4 \<Longrightarrow> ntohl (of_mem bs) = be_val bs"
  "length bs = 8 \<Longrightarrow> be64toh (of_mem bs) = be_val bs"
  by (simp_all add: ntohs_def ntohl_def be64toh_def bswap_of_mem)

lemma ntoh_hton [simp]:
  "ntohs (htons a) = a" "ntohl (htonl b) = b" "be64toh (htobe64 c) = c"
  by (simp_all add: htons_def ntohs_def htonl_def ntohl_def htobe64_def be64toh_def bswap_bswap)

lemma be_bytes_16: "be_bytes 2 (w :: u16) = [ucast (drop_bit 8 w), ucast w]"
  by (simp add: be_bytes_def mem_of_def upt_rec)

text \<open>A string literal of the source as the bytes it denotes.\<close>

definition ascii :: "string \<Rightarrow> bytes" where
  "ascii s = map of_char s"

subsection \<open>Unordered maps\<close>

text \<open>
  A \<open>std::unordered_map\<close> is an association list with distinct keys; its order stands for the
  unspecified iteration order. \<open>find\<close> is \<open>map_of\<close>, \<open>erase\<close> is \<open>AList.delete\<close>,
  assignment through an iterator is \<open>AList.update\<close>, and \<open>emplace\<close> inserts only where the key
  is absent.
\<close>

definition emplace :: "'k \<Rightarrow> 'v \<Rightarrow> ('k \<times> 'v) list \<Rightarrow> ('k \<times> 'v) list" where
  "emplace k v m = (if map_of m k = None then m @ [(k, v)] else m)"

abbreviation um_wf :: "('k \<times> 'v) list \<Rightarrow> bool" where
  "um_wf m \<equiv> distinct (map fst m)"

declare map_of_eq_Some_iff [simp del] Some_eq_map_of_iff [simp del]

lemma map_of_emplace [simp]:
  "map_of (emplace k v m) = (if map_of m k = None then (map_of m)(k \<mapsto> v) else map_of m)"
  by (auto simp: emplace_def map_add_def fun_eq_iff split: option.splits)

lemma um_wf_emplace [inv_intros, simp]: "um_wf m \<Longrightarrow> um_wf (emplace k v m)"
  by (auto simp: emplace_def map_of_eq_None_iff)

lemma um_wf_delete [inv_intros, simp]: "um_wf m \<Longrightarrow> um_wf (AList.delete k m)"
  by (rule distinct_delete)

lemma um_wf_update [inv_intros, simp]: "um_wf m \<Longrightarrow> um_wf (AList.update k v m)"
  by (rule distinct_update)

lemma map_of_update [simp]: "map_of (AList.update k v m) = (map_of m)(k \<mapsto> v)"
  by (rule update_conv')

lemma map_of_delete [simp]: "map_of (AList.delete k m) = (map_of m)(k := None)"
  by (rule delete_conv')

lemma update_same: "map_of m k = Some v \<Longrightarrow> AList.update k v m = m"
  by (induction m) (auto split: if_splits)

lemma update_update [simp]: "AList.update k v (AList.update k u m) = AList.update k v m"
  by (induction m) auto

lemma length_update_present:
  "map_of m k \<noteq> None \<Longrightarrow> length (AList.update k v m) = length m"
  by (induction m) (auto split: if_splits)

lemma length_delete_present:
  "um_wf m \<Longrightarrow> map_of m k \<noteq> None \<Longrightarrow> Suc (length (AList.delete k m)) = length m"
proof (induction m)
  case Nil
  then show ?case by simp
next
  case (Cons p m)
  obtain a b where p: "p = (a, b)" by (cases p)
  show ?case
  proof (cases "k = a")
    case True
    with Cons.prems p have "k \<notin> fst ` set m" by simp
    with True p show ?thesis by (simp add: delete_idem)
  next
    case False
    with Cons p show ?thesis by simp
  qed
qed

subsection \<open>Loops over a sequence with a body that may fail\<close>

primrec ofold :: "('x \<Rightarrow> 's \<Rightarrow> 's option) \<Rightarrow> 'x list \<Rightarrow> 's \<Rightarrow> 's option" where
  "ofold f [] s = Some s"
| "ofold f (x # xs) s = do { s' \<leftarrow> f x s; ofold f xs s' }"

lemma ofold_append: "ofold f (xs @ ys) s = do { s' \<leftarrow> ofold f xs s; ofold f ys s' }"
  by (induction xs arbitrary: s) (simp_all split: bind_splits)

lemma ofold_total: "(\<And>x s. f x s = Some (g x s)) \<Longrightarrow> ofold f xs s = Some (fold g xs s)"
  by (induction xs arbitrary: s) simp_all

text \<open>An invariant of the body that also rules out its failure is one of the loop.\<close>

lemma ofold_inv:
  assumes "I s" "\<And>x s. x \<in> set xs \<Longrightarrow> I s \<Longrightarrow> \<exists>s'. f x s = Some s' \<and> I s'"
  shows "\<exists>s'. ofold f xs s = Some s' \<and> I s'"
  using assms
proof (induction xs arbitrary: s)
  case Nil
  then show ?case by simp
next
  case (Cons x xs)
  from Cons.prems(2)[of x s] Cons.prems(1) obtain s' where "f x s = Some s'" "I s'" by auto
  with Cons.IH[of s'] Cons.prems(2) show ?case by simp
qed

text \<open>A reflexive and transitive relation that the body stays in, under an invariant.\<close>

lemma ofold_rel:
  assumes "I s" "\<And>x s. x \<in> set xs \<Longrightarrow> I s \<Longrightarrow> \<exists>s'. f x s = Some s' \<and> I s' \<and> R s s'"
    "\<And>s. R s s" "\<And>s t u. R s t \<Longrightarrow> R t u \<Longrightarrow> R s u"
  shows "\<exists>s'. ofold f xs s = Some s' \<and> I s' \<and> R s s'"
proof -
  have "\<exists>s'. ofold f xs s = Some s' \<and> (I s' \<and> R s s')"
    by (rule ofold_inv) (use assms in \<open>blast+\<close>)
  then show ?thesis by blast
qed

subsection \<open>Invariants of step relations\<close>

locale step_invariant =
  fixes start :: "'s \<Rightarrow> bool" and step :: "'s \<Rightarrow> 's \<Rightarrow> bool" and Inv :: "'s \<Rightarrow> bool"
  assumes start_inv: "start s \<Longrightarrow> Inv s"
    and step_inv: "Inv s \<Longrightarrow> step s t \<Longrightarrow> Inv t"
begin

lemma steps_inv: "step\<^sup>*\<^sup>* s t \<Longrightarrow> Inv s \<Longrightarrow> Inv t"
  by (induction rule: rtranclp_induct) (auto intro: step_inv)

lemma reachable_inv: "start s \<Longrightarrow> step\<^sup>*\<^sup>* s t \<Longrightarrow> Inv t"
  using steps_inv start_inv by blast

end

end
