(* ===== verification/Queues.thy ===== *)
theory Queues
  imports Prelude
begin

text \<open>
  The three queues of \<open>shared/algorithm\<close>: \<open>LockQueue\<close>, \<open>SpscQueue\<close> and \<open>MpscQueue\<close>, each call taken
  as one step (the lock makes it so for the first; the interleaving of the two threads of
  \<open>SpscQueue\<close> is the subject of \<open>SpscSteps\<close>). Counters are 64-bit words that wrap;
  a counter's slot is the counter masked. The locale \<open>bounded_queue\<close> is the contract that the
  workers and reactors rely on, extended by \<open>deq_queue\<close> for one item at a time and \<open>drain_queue\<close>
  for all of them.
\<close>

subsection \<open>LockQueue\<close>

record 'a LockQueue =
  lq_capacity :: nat
  lq_q :: "'a list"

definition lq_new :: "nat \<Rightarrow> 'a LockQueue" where
  "lq_new capacity = \<lparr>lq_capacity = capacity, lq_q = []\<rparr>"

definition lq_enqueue :: "'a LockQueue \<Rightarrow> 'a \<Rightarrow> 'a LockQueue \<times> bool" where
  "lq_enqueue q item =
     (if lq_capacity q \<noteq> 0 \<and> length (lq_q q) \<ge> lq_capacity q then (q, False)
      else (q\<lparr>lq_q := lq_q q @ [item]\<rparr>, True))"

fun lq_dequeue_loop :: "'a list \<Rightarrow> 'a list \<Rightarrow> 'a list \<times> 'a list" where
  "lq_dequeue_loop [] out = ([], out)"
| "lq_dequeue_loop (x # xs) out = lq_dequeue_loop xs (out @ [x])"

definition lq_dequeueAll :: "'a LockQueue \<Rightarrow> 'a LockQueue \<times> 'a list" where
  "lq_dequeueAll q =
     (if lq_q q = [] then (q, [])
      else let (rest, out) = lq_dequeue_loop (lq_q q) [] in (q\<lparr>lq_q := rest\<rparr>, out))"

definition lq_empty :: "'a LockQueue \<Rightarrow> bool" where
  "lq_empty q \<longleftrightarrow> lq_q q = []"

definition lq_size :: "'a LockQueue \<Rightarrow> nat" where
  "lq_size q = length (lq_q q)"

subsection \<open>SpscQueue\<close>

text \<open>The constructor's check; \<open>std::abort\<close> otherwise.\<close>

definition pow2 :: "u64 \<Rightarrow> bool" where
  "pow2 capacity \<longleftrightarrow> \<not> (capacity = 0 \<or> capacity AND (capacity - 1) \<noteq> 0)"

definition slot_of :: "u64 \<Rightarrow> u64 \<Rightarrow> nat" where
  "slot_of m counter = unat (counter AND m)"

record 'a SpscQueue =
  sq_capacity :: u64
  sq_mask :: u64
  sq_buffer :: "'a option list"
  sq_head :: u64
  sq_tail :: u64

definition spsc_new :: "u64 \<Rightarrow> 'a SpscQueue option" where
  "spsc_new capacity =
     (if pow2 capacity
      then Some \<lparr>sq_capacity = capacity, sq_mask = capacity - 1,
        sq_buffer = replicate (unat capacity) None, sq_head = 0, sq_tail = 0\<rparr>
      else None)"

definition spsc_enqueue :: "'a SpscQueue \<Rightarrow> 'a \<Rightarrow> ('a SpscQueue \<times> bool) option" where
  "spsc_enqueue q pkt =
     (let tail = sq_tail q; nxt = tail + 1; head = sq_head q
      in if nxt - head > sq_capacity q then Some (q, False)
         else let i = slot_of (sq_mask q) tail in
           if i < length (sq_buffer q)
           then Some (q\<lparr>sq_buffer := (sq_buffer q)[i := Some pkt], sq_tail := nxt\<rparr>, True)
           else None)"

definition spsc_dequeue :: "'a SpscQueue \<Rightarrow> ('a SpscQueue \<times> 'a option) option" where
  "spsc_dequeue q =
     (let head = sq_head q; tail = sq_tail q
      in if head = tail then Some (q, None)
         else let i = slot_of (sq_mask q) head in
           if i < length (sq_buffer q)
           then Some (q\<lparr>sq_buffer := (sq_buffer q)[i := None], sq_head := head + 1\<rparr>, sq_buffer q ! i)
           else None)"

definition spsc_empty :: "'a SpscQueue \<Rightarrow> bool" where
  "spsc_empty q \<longleftrightarrow> sq_head q = sq_tail q"

subsection \<open>MpscQueue\<close>

record 'a mpsc_slot =
  ms_ready :: bool
  ms_ptr :: "'a option"

record 'a MpscQueue =
  mq_capacity :: u64
  mq_mask :: u64
  mq_buffer :: "'a mpsc_slot list"
  mq_head :: u64
  mq_tail :: u64

definition mpsc_new :: "u64 \<Rightarrow> 'a MpscQueue option" where
  "mpsc_new capacity =
     (if pow2 capacity
      then Some \<lparr>mq_capacity = capacity, mq_mask = capacity - 1,
        mq_buffer = replicate (unat capacity) \<lparr>ms_ready = False, ms_ptr = None\<rparr>,
        mq_head = 0, mq_tail = 0\<rparr>
      else None)"

text \<open>Run without interference, the compare-and-exchange of \<open>enqueue\<close> succeeds at once.\<close>

definition mpsc_enqueue :: "'a MpscQueue \<Rightarrow> 'a \<Rightarrow> ('a MpscQueue \<times> bool) option" where
  "mpsc_enqueue q item =
     (let tail = mq_tail q; nxt = tail + 1; head = mq_head q
      in if tail - head \<ge> mq_capacity q then Some (q, False)
         else let i = slot_of (mq_mask q) tail in
           if i < length (mq_buffer q)
           then Some (q\<lparr>mq_buffer := (mq_buffer q)[i := \<lparr>ms_ready = True, ms_ptr = Some item\<rparr>],
             mq_tail := nxt\<rparr>, True)
           else None)"

function mpsc_drain_loop ::
  "u64 \<Rightarrow> 'a mpsc_slot list \<Rightarrow> u64 \<Rightarrow> 'a option list \<Rightarrow>
   ('a mpsc_slot list \<times> u64 \<times> 'a option list) option" where
  "mpsc_drain_loop m buf head out =
     (let i = slot_of m head in
      if i < length buf
      then if ms_ready (buf ! i)
        then mpsc_drain_loop m (buf[i := \<lparr>ms_ready = False, ms_ptr = None\<rparr>]) (head + 1)
               (out @ [ms_ptr (buf ! i)])
        else Some (buf, head, out)
      else None)"
  by pat_completeness auto
termination
proof (relation "measure (\<lambda>(m, buf, head, out). length (filter ms_ready buf))", goal_cases)
  case (2 m buf head out i)
  have "length (filter ms_ready buf) =
      length (filter ms_ready (take i buf @ buf ! i # drop (Suc i) buf))"
    using id_take_nth_drop[OF 2(2)] by (rule arg_cong)
  then show ?case using 2(2,3) by (simp add: upd_conv_take_nth_drop)
qed simp

declare mpsc_drain_loop.simps [simp del]

definition mpsc_dequeueAll :: "'a MpscQueue \<Rightarrow> ('a MpscQueue \<times> 'a option list) option" where
  "mpsc_dequeueAll q =
     do {
       (buf, head, out) \<leftarrow> mpsc_drain_loop (mq_mask q) (mq_buffer q) (mq_head q) [];
       Some (q\<lparr>mq_buffer := buf, mq_head := head\<rparr>, out)
     }"

definition mpsc_empty :: "'a MpscQueue \<Rightarrow> bool" where
  "mpsc_empty q \<longleftrightarrow> mq_head q = mq_tail q"

subsection \<open>Windows of slots\<close>

text \<open>
  \<open>win\<close> is the number of counters between head and tail, \<open>slots\<close> the slots of \<open>n\<close> successive
  counters.
\<close>

definition win :: "u64 \<Rightarrow> u64 \<Rightarrow> nat" where
  "win head tail = unat (tail - head)"

definition slots :: "'s list \<Rightarrow> u64 \<Rightarrow> u64 \<Rightarrow> nat \<Rightarrow> 's list" where
  "slots buf m c n = map (\<lambda>i. buf ! slot_of m (c + of_nat i)) [0..<n]"

definition slots_ok :: "u64 \<Rightarrow> u64 \<Rightarrow> 's list \<Rightarrow> bool" where
  "slots_ok cap m buf \<longleftrightarrow> pow2 cap \<and> m = cap - 1 \<and> length buf = unat cap"

definition spsc_wf :: "'a SpscQueue \<Rightarrow> bool" where
  "spsc_wf q \<longleftrightarrow> slots_ok (sq_capacity q) (sq_mask q) (sq_buffer q) \<and>
     win (sq_head q) (sq_tail q) \<le> unat (sq_capacity q) \<and>
     None \<notin> set (slots (sq_buffer q) (sq_mask q) (sq_head q) (win (sq_head q) (sq_tail q)))"

definition spsc_list :: "'a SpscQueue \<Rightarrow> 'a list" where
  "spsc_list q = map the (slots (sq_buffer q) (sq_mask q) (sq_head q) (win (sq_head q) (sq_tail q)))"

abbreviation free_slot :: "'a mpsc_slot \<Rightarrow> bool" where
  "free_slot s \<equiv> \<not> ms_ready s \<and> ms_ptr s = None"

text \<open>In a quiet \<open>MpscQueue\<close> the slots from head to tail are ready and the others are not.\<close>

definition mpsc_wf :: "'a MpscQueue \<Rightarrow> bool" where
  "mpsc_wf q \<longleftrightarrow> slots_ok (mq_capacity q) (mq_mask q) (mq_buffer q) \<and>
     win (mq_head q) (mq_tail q) \<le> unat (mq_capacity q) \<and>
     list_all (\<lambda>s. ms_ready s \<and> ms_ptr s \<noteq> None)
       (slots (mq_buffer q) (mq_mask q) (mq_head q) (win (mq_head q) (mq_tail q))) \<and>
     list_all (\<lambda>s. \<not> ms_ready s \<and> ms_ptr s = None)
       (slots (mq_buffer q) (mq_mask q) (mq_tail q)
          (unat (mq_capacity q) - win (mq_head q) (mq_tail q)))"

definition mpsc_list :: "'a MpscQueue \<Rightarrow> 'a list" where
  "mpsc_list q = map (\<lambda>s. the (ms_ptr s))
     (slots (mq_buffer q) (mq_mask q) (mq_head q) (win (mq_head q) (mq_tail q)))"

subsection \<open>Clients\<close>

text \<open>
  The inner loop of every protocol worker: \<open>dequeue\<close> until the queue is empty, each item through
  a handler that may fail. A loop that does not end is \<open>None\<close>.
\<close>

partial_function (option) drain_loop ::
  "('q \<Rightarrow> ('q \<times> 'a option) option) \<Rightarrow> ('a \<Rightarrow> 's \<Rightarrow> 's option) \<Rightarrow> 'q \<Rightarrow> 's \<Rightarrow> ('q \<times> 's) option"
where
  "drain_loop deq h q s =
     (case deq q of
        None \<Rightarrow> None
      | Some (q', None) \<Rightarrow> Some (q', s)
      | Some (q', Some x) \<Rightarrow>
          (case h x s of None \<Rightarrow> None | Some s' \<Rightarrow> drain_loop deq h q' s'))"

text \<open>
  Calls on a queue with their results, and the same calls on a list of bounded length (\<open>None\<close>:
  no bound).
\<close>

datatype 'a queue_op = Enq 'a | Deq
datatype 'a queue_out = OAccepted bool | OItem "'a option"

fun queue_run ::
  "('q \<Rightarrow> 'a \<Rightarrow> ('q \<times> bool) option) \<Rightarrow> ('q \<Rightarrow> ('q \<times> 'a option) option) \<Rightarrow>
   'a queue_op list \<Rightarrow> 'q \<Rightarrow> ('q \<times> 'a queue_out list) option"
where
  "queue_run enq deq [] q = Some (q, [])"
| "queue_run enq deq (Enq x # ops) q =
     do { (q1, b) \<leftarrow> enq q x; (q2, os) \<leftarrow> queue_run enq deq ops q1; Some (q2, OAccepted b # os) }"
| "queue_run enq deq (Deq # ops) q =
     do { (q1, v) \<leftarrow> deq q; (q2, os) \<leftarrow> queue_run enq deq ops q1; Some (q2, OItem v # os) }"

definition has_room :: "nat option \<Rightarrow> 'a list \<Rightarrow> bool" where
  "has_room lim xs \<longleftrightarrow> (case lim of None \<Rightarrow> True | Some c \<Rightarrow> length xs < c)"

fun list_run :: "nat option \<Rightarrow> 'a queue_op list \<Rightarrow> 'a list \<Rightarrow> 'a list \<times> 'a queue_out list" where
  "list_run lim [] xs = (xs, [])"
| "list_run lim (Enq x # ops) xs =
     (let (ys, os) = list_run lim ops (if has_room lim xs then xs @ [x] else xs)
      in (ys, OAccepted (has_room lim xs) # os))"
| "list_run lim (Deq # ops) xs =
     (let (ys, os) = list_run lim ops (tl xs)
      in (ys, OItem (case xs of [] \<Rightarrow> None | x # _ \<Rightarrow> Some x) # os))"

locale bounded_queue =
  fixes qinv :: "'q \<Rightarrow> bool"
    and qlist :: "'q \<Rightarrow> 'a list"
    and limit :: "'q \<Rightarrow> nat option"
    and enq :: "'q \<Rightarrow> 'a \<Rightarrow> ('q \<times> bool) option"
  assumes enq_law: "qinv q \<Longrightarrow> \<exists>q'. enq q x = Some (q', has_room (limit q) (qlist q)) \<and> qinv q' \<and>
    limit q' = limit q \<and> qlist q' = (if has_room (limit q) (qlist q) then qlist q @ [x] else qlist q)"
begin

lemma enq_cases:
  assumes "qinv q"
  obtains (room) q' where "has_room (limit q) (qlist q)" "enq q x = Some (q', True)" "qinv q'"
      "limit q' = limit q" "qlist q' = qlist q @ [x]"
    | (full) q' where "\<not> has_room (limit q) (qlist q)" "enq q x = Some (q', False)" "qinv q'"
      "limit q' = limit q" "qlist q' = qlist q"
  using enq_law[OF assms, of x] by (cases "has_room (limit q) (qlist q)") auto

text \<open>A batch of enqueues is accepted as far as there is room, and drained in order.\<close>

lemma enq_batch:
  assumes "qinv q" "limit q = Some c" "length (qlist q) \<le> c"
  shows "\<exists>q'. ofold (\<lambda>x q. map_option fst (enq q x)) xs q = Some q' \<and> qinv q' \<and>
    limit q' = limit q \<and> qlist q' = qlist q @ take (c - length (qlist q)) xs"
  using assms
proof (induction xs arbitrary: q)
  case Nil
  then show ?case by simp
next
  case (Cons x xs)
  from Cons.prems(1) show ?case
  proof (cases rule: enq_cases[where x = x])
    case (room q1)
    with Cons.prems(2) have "length (qlist q) < c" by (simp add: has_room_def)
    then obtain k where "c - length (qlist q) = Suc k" "c - length (qlist q1) = k" "length (qlist q1) \<le> c"
      using room(5) by (cases "c - length (qlist q)") auto
    with Cons.IH[of q1] room Cons.prems(2) show ?thesis by simp
  next
    case (full q1)
    with Cons.prems(2,3) have "c - length (qlist q) = 0" by (simp add: has_room_def)
    with Cons.IH[of q1] full Cons.prems show ?thesis by simp
  qed
qed

end

locale deq_queue = bounded_queue qinv qlist limit enq
  for qinv :: "'q \<Rightarrow> bool" and qlist :: "'q \<Rightarrow> 'a list" and limit and enq +
  fixes deq :: "'q \<Rightarrow> ('q \<times> 'a option) option"
  assumes deq_law: "qinv q \<Longrightarrow> \<exists>q'. deq q =
      Some (q', case qlist q of [] \<Rightarrow> None | x # xs \<Rightarrow> Some x) \<and> qinv q' \<and>
    limit q' = limit q \<and> qlist q' = tl (qlist q)"
begin

text \<open>The worker's loop ends and is the handler over the queued items in order.\<close>

lemma drain_loop_eq:
  assumes "qinv q"
  shows "\<exists>q'. drain_loop deq h q s = map_option (Pair q') (ofold h (qlist q) s) \<and> qinv q' \<and>
    limit q' = limit q \<and> qlist q' = []"
  using assms
proof (induction "qlist q" arbitrary: q s)
  case Nil
  note e = Nil.hyps[symmetric]
  from deq_law[OF Nil.prems] e obtain q' where "deq q = Some (q', None)" "qinv q'"
    "limit q' = limit q" "qlist q' = []" by auto
  then show ?case by (simp add: drain_loop.simps[of _ _ q] e)
next
  case (Cons x xs)
  note e = Cons.hyps(2)[symmetric]
  from deq_law[OF Cons.prems] e obtain q1 where q1: "deq q = Some (q1, Some x)" "qinv q1"
    "limit q1 = limit q" "qlist q1 = xs" by auto
  show ?case
  proof (cases "h x s")
    case None
    from Cons.hyps(1)[OF q1(4)[symmetric] q1(2)] q1(3) obtain q' where
      "qinv q'" "limit q' = limit q" "qlist q' = []" by auto
    with None q1(1) show ?thesis by (auto simp: drain_loop.simps[of _ _ q] e)
  next
    case (Some s1)
    from Cons.hyps(1)[OF q1(4)[symmetric] q1(2), of s1] q1(3,4) obtain q' where
      "drain_loop deq h q1 s1 = map_option (Pair q') (ofold h xs s1)"
      "qinv q'" "limit q' = limit q" "qlist q' = []" by auto
    with Some q1(1) show ?thesis by (auto simp: drain_loop.simps[of _ _ q] e)
  qed
qed

lemma queue_run_eq:
  assumes "qinv q"
  shows "\<exists>q'. queue_run enq deq ops q = Some (q', snd (list_run (limit q) ops (qlist q))) \<and>
    qinv q' \<and> limit q' = limit q \<and> qlist q' = fst (list_run (limit q) ops (qlist q))"
  using assms
proof (induction ops arbitrary: q)
  case Nil
  then show ?case by simp
next
  case (Cons op ops)
  show ?case
  proof (cases op)
    case (Enq x)
    from enq_law[OF Cons.prems, of x] obtain q1 where q1:
      "enq q x = Some (q1, has_room (limit q) (qlist q))" "qinv q1" "limit q1 = limit q"
      "qlist q1 = (if has_room (limit q) (qlist q) then qlist q @ [x] else qlist q)" by blast
    from Cons.IH[OF q1(2)] q1 Enq show ?thesis by (auto simp: Let_def split_beta)
  next
    case Deq
    from deq_law[OF Cons.prems] obtain q1 where q1:
      "deq q = Some (q1, case qlist q of [] \<Rightarrow> None | x # xs \<Rightarrow> Some x)" "qinv q1"
      "limit q1 = limit q" "qlist q1 = tl (qlist q)" by blast
    from Cons.IH[OF q1(2)] q1 Deq show ?thesis by (auto simp: Let_def split_beta)
  qed
qed

end

locale drain_queue = bounded_queue qinv qlist limit enq
  for qinv :: "'q \<Rightarrow> bool" and qlist :: "'q \<Rightarrow> 'a list" and limit and enq +
  fixes deqAll :: "'q \<Rightarrow> ('q \<times> 'a list) option"
  assumes deqAll_law: "qinv q \<Longrightarrow> \<exists>q'. deqAll q = Some (q', qlist q) \<and> qinv q' \<and>
    limit q' = limit q \<and> qlist q' = []"

lemma nat_and_pred_pow2:
  fixes n :: nat
  shows "0 < n \<Longrightarrow> n AND (n - 1) = 0 \<Longrightarrow> \<exists>k. n = 2 ^ k"
proof (induction n rule: less_induct)
  case (less n)
  show ?case
  proof (cases "even n")
    case True
    then obtain m where m: "n = 2 * m" by (rule evenE)
    with less.prems have "0 < m" by simp
    then have "n - 1 = Suc (2 * (m - 1))" using m by simp
    then have "n AND (n - 1) = 2 * (m AND (m - 1))"
      using m by (simp add: and_nat_rec[of "2 * m"])
    with less.prems \<open>0 < m\<close> m obtain k where "m = 2 ^ k" using less.IH[of m] by auto
    with m have "n = 2 ^ Suc k" by simp
    then show ?thesis by blast
  next
    case False
    then obtain m where m: "n = Suc (2 * m)" by (auto elim: oddE)
    then have "n AND (n - 1) = 2 * m" by (simp add: and_nat_rec[of "Suc (2 * m)"])
    with less.prems m have "n = 2 ^ 0" by simp
    then show ?thesis by blast
  qed
qed

lemma pow2E:
  assumes "pow2 c"
  obtains k where "k < 64" "unat c = 2 ^ k" "c - 1 = mask k"
proof -
  from assms have c: "c \<noteq> 0" "c AND (c - 1) = 0" by (auto simp: pow2_def)
  have "unat (c AND (c - 1)) = unat c AND (unat c - 1)"
    using c(1) by (simp add: unsigned_and_eq unat_minus_one)
  with c have "0 < unat c" "unat c AND (unat c - 1) = 0" by (simp_all add: unat_gt_0)
  then obtain k where k: "unat c = 2 ^ k" using nat_and_pred_pow2 by blast
  have "unat c < 2 ^ 64" using unsigned_less[of c, where 'a = nat] by simp
  with k have "k < 64" by (simp only: power_strict_increasing_iff[of "2 :: nat"] one_less_numeral_iff semiring_norm)
  moreover have "c = of_nat (unat c)" by simp
  then have "c = 2 ^ k" unfolding k by simp
  ultimately show ?thesis using that k by (simp add: mask_eq_exp_minus_1)
qed

lemma slot_of_mask: "k < 64 \<Longrightarrow> slot_of (mask k) (h + of_nat i) = (unat h + i) mod 2 ^ k"
proof -
  assume k: "k < 64"
  have "slot_of (mask k) (h + of_nat i) = unat (h + of_nat i) mod 2 ^ k"
    by (simp add: slot_of_def unsigned_take_bit_eq flip: take_bit_eq_mask) (simp add: take_bit_eq_mod)
  also have "unat (h + of_nat i) = (unat h + i) mod 2 ^ 64"
    by (simp add: unat_word_ariths unat_of_nat mod_simps)
  also have "\<dots> mod 2 ^ k = (unat h + i) mod 2 ^ k"
    using k by (intro mod_mod_cancel le_imp_power_dvd) simp
  finally show ?thesis .
qed

lemma mod_add_inj:
  fixes i j c h :: nat
  assumes "(h + i) mod c = (h + j) mod c" "i < c" "j < c"
  shows "i = j"
proof -
  have "i = j" if "i \<le> j" "(h + i) mod c = (h + j) mod c" "j < c" for i j
  proof -
    from that have "c dvd (h + j) - (h + i)" using mod_eq_dvd_iff_nat[of "h + i" "h + j" c] by simp
    moreover have "j - i < c" using that by linarith
    ultimately have "\<not> 0 < j - i" using nat_dvd_not_less[of "j - i" c] by auto
    with that show ?thesis by linarith
  qed
  with assms show ?thesis by (metis nat_le_linear)
qed


lemma length_slots [simp]: "length (slots buf m c n) = n"
  by (simp add: slots_def)

lemma slots_0 [simp]: "slots buf m c 0 = []"
  by (simp add: slots_def)

lemma tail_eq: "tail = head + of_nat (win head tail)" for head tail :: u64
  by (simp add: win_def)

lemma win_Suc_tail: "win head tail < 2 ^ 63 + 1 \<Longrightarrow> win head (tail + 1) = Suc (win head tail)"
proof -
  assume a: "win head tail < 2 ^ 63 + 1"
  have e: "tail + 1 - head = 1 + (tail - head)" by simp
  have "1 + (tail - head) \<noteq> 0"
  proof
    assume "1 + (tail - head) = 0"
    then have "tail - head = - 1" by (metis add.commute eq_neg_iff_add_eq_0)
    with a show False by (simp add: win_def unsigned_minus_1_eq_mask mask_eq_exp_minus_1)
  qed
  then show ?thesis unfolding win_def e by (rule unatSuc)
qed

lemma win_Suc_head: "head \<noteq> tail \<Longrightarrow> Suc (win (head + 1) tail) = win head tail"
proof -
  assume "head \<noteq> tail"
  then have "tail - head \<noteq> 0" by simp
  then have "unat (tail - head - 1) = unat (tail - head) - 1" "0 < unat (tail - head)"
    by (simp_all add: unat_minus_one unat_gt_0)
  then show ?thesis by (simp add: win_def diff_diff_eq algebra_simps)
qed

lemma win_0 [simp]: "win head tail = 0 \<longleftrightarrow> head = tail"
  by (auto simp: win_def unat_eq_0)

lemma slots_Suc_front: "slots buf m c (Suc n) = buf ! slot_of m c # slots buf m (c + 1) n"
proof -
  have "slots buf m c (Suc n) = map (\<lambda>i. buf ! slot_of m (c + of_nat i)) (0 # map Suc [0..<n])"
    by (simp add: slots_def upt_conv_Cons map_Suc_upt del: upt_Suc)
  then show ?thesis by (simp add: slots_def algebra_simps comp_def)
qed

lemma slots_Suc_back: "slots buf m c (Suc n) = slots buf m c n @ [buf ! slot_of m (c + of_nat n)]"
  by (simp add: slots_def)

lemma slots_okD:
  assumes "slots_ok cap m buf"
  obtains k where "k < 64" "unat cap = 2 ^ k" "length buf = 2 ^ k" "m = mask k"
  using assms pow2E[of cap] by (auto simp: slots_ok_def)

lemma slot_lt:
  assumes "slots_ok cap m buf"
  shows "slot_of m c < length buf"
proof -
  obtain k where k: "k < 64" "length buf = 2 ^ k" "m = mask k" using slots_okD[OF assms] .
  then show ?thesis using slot_of_mask[of k c 0] by simp
qed

lemma slot_inj:
  assumes "slots_ok cap m buf"
    and "slot_of m (c + of_nat i) = slot_of m (c + of_nat j)" "i < unat cap" "j < unat cap"
  shows "i = j"
proof -
  obtain k where k: "k < 64" "unat cap = 2 ^ k" "m = mask k" using slots_okD[OF assms(1)] .
  then show ?thesis using assms mod_add_inj[of "unat c" i "2 ^ k" j] by (simp add: slot_of_mask)
qed

lemma slots_ok_cap_le:
  assumes "slots_ok cap m buf"
  shows "unat cap \<le> 2 ^ 63"
proof -
  obtain k where k: "k < 64" "unat cap = 2 ^ k" using slots_okD[OF assms] .
  then have "k \<le> 63" by simp
  then show ?thesis unfolding k(2) by (rule power_increasing) simp
qed

lemma slots_ok_cap_pos: "slots_ok cap m buf \<Longrightarrow> 0 < unat cap"
  by (erule slots_okD) simp

lemma slots_update_outside:
  assumes "slots_ok cap m buf" "a + n \<le> unat cap" "j < unat cap" "j < a \<or> a + n \<le> j"
  shows "slots (buf[slot_of m (c + of_nat j) := x]) m (c + of_nat a) n = slots buf m (c + of_nat a) n"
proof -
  have "slot_of m (c + of_nat j) \<noteq> slot_of m (c + of_nat a + of_nat i)" if "i < n" for i
    using slot_inj[OF assms(1), of c "a + i" j] assms that by (auto simp: algebra_simps)
  then show ?thesis by (simp add: slots_def)
qed

lemma slots_push:
  assumes "slots_ok cap m buf" "n < unat cap"
  shows "slots (buf[slot_of m (c + of_nat n) := x]) m c (Suc n) = slots buf m c n @ [x]"
  using assms slot_lt[OF assms(1), of "c + of_nat n"] slots_update_outside[OF assms(1), of 0 n n c x]
  by (simp add: slots_Suc_back)

lemma slots_pop:
  assumes "slots_ok cap m buf" "n < unat cap"
  shows "slots (buf[slot_of m c := x]) m (c + 1) n = slots buf m (c + 1) n"
  using slots_update_outside[OF assms(1), of 1 n 0 c x] assms(2) by simp

lemma slot_wrap:
  assumes "slots_ok cap m buf"
  shows "slot_of m (c + of_nat (unat cap)) = slot_of m c"
proof -
  obtain k where k: "k < 64" "unat cap = 2 ^ k" "m = mask k" using slots_okD[OF assms] .
  then show ?thesis using slot_of_mask[of k c "2 ^ k"] slot_of_mask[of k c 0] by simp
qed

lemma slots_ok_update [simp]: "slots_ok cap m (buf[i := x]) = slots_ok cap m buf"
  by (simp add: slots_ok_def)

subsection \<open>The queues keep their invariants\<close>

lemma spsc_new_wf:
  assumes "pow2 c"
  obtains q where "spsc_new c = Some q" "spsc_wf q" "spsc_list q = []" "sq_capacity q = c"
  using assms by (simp add: spsc_new_def spsc_wf_def spsc_list_def slots_ok_def win_def)

lemma spsc_enqueue_wf:
  assumes "spsc_wf q"
  shows "\<exists>q'. spsc_enqueue q x = Some (q', length (spsc_list q) < unat (sq_capacity q)) \<and>
    spsc_wf q' \<and> sq_capacity q' = sq_capacity q \<and>
    spsc_list q' = (if length (spsc_list q) < unat (sq_capacity q) then spsc_list q @ [x]
      else spsc_list q)"
proof -
  let ?n = "win (sq_head q) (sq_tail q)" and ?i = "slot_of (sq_mask q) (sq_tail q)"
  have ok: "slots_ok (sq_capacity q) (sq_mask q) (sq_buffer q)" and n: "?n \<le> unat (sq_capacity q)"
    using assms by (auto simp: spsc_wf_def)
  have w: "win (sq_head q) (sq_tail q + 1) = Suc ?n"
    using win_Suc_tail[of "sq_head q" "sq_tail q"] n slots_ok_cap_le[OF ok] by simp
  have full: "sq_tail q + 1 - sq_head q > sq_capacity q \<longleftrightarrow> \<not> ?n < unat (sq_capacity q)"
    using w by (auto simp: word_less_nat_alt win_def)
  have l: "length (spsc_list q) = ?n" by (simp add: spsc_list_def)
  show ?thesis
  proof (cases "?n < unat (sq_capacity q)")
    case False
    with assms full l show ?thesis by (simp add: spsc_enqueue_def Let_def)
  next
    case True
    have "slots ((sq_buffer q)[?i := Some x]) (sq_mask q) (sq_head q) (Suc ?n) =
        slots (sq_buffer q) (sq_mask q) (sq_head q) ?n @ [Some x]"
      using slots_push[OF ok True, of "sq_head q" "Some x"] by (simp flip: tail_eq)
    with True full l slot_lt[OF ok, of "sq_tail q"] assms ok w show ?thesis
      by (simp add: spsc_enqueue_def Let_def spsc_wf_def spsc_list_def)
  qed
qed

lemma spsc_dequeue_wf:
  assumes "spsc_wf q"
  shows "\<exists>q'. spsc_dequeue q =
      Some (q', case spsc_list q of [] \<Rightarrow> None | x # xs \<Rightarrow> Some x) \<and>
    spsc_wf q' \<and> sq_capacity q' = sq_capacity q \<and> spsc_list q' = tl (spsc_list q)"
proof (cases "sq_head q = sq_tail q")
  case True
  with assms show ?thesis by (simp add: spsc_dequeue_def spsc_list_def win_def)
next
  case False
  let ?n = "win (sq_head q + 1) (sq_tail q)" and ?i = "slot_of (sq_mask q) (sq_head q)"
  have ok: "slots_ok (sq_capacity q) (sq_mask q) (sq_buffer q)" using assms by (simp add: spsc_wf_def)
  have w: "win (sq_head q) (sq_tail q) = Suc ?n" using win_Suc_head[OF False] by simp
  have n: "?n < unat (sq_capacity q)" using assms w by (simp add: spsc_wf_def)
  have s: "slots (sq_buffer q) (sq_mask q) (sq_head q) (win (sq_head q) (sq_tail q)) =
      sq_buffer q ! ?i # slots ((sq_buffer q)[?i := None]) (sq_mask q) (sq_head q + 1) ?n"
    by (simp add: w slots_Suc_front slots_pop[OF ok n])
  with assms obtain y where "sq_buffer q ! ?i = Some y"
    by (cases "sq_buffer q ! ?i") (auto simp: spsc_wf_def)
  with s False assms ok n slot_lt[OF ok, of "sq_head q"] show ?thesis
    by (auto simp: spsc_dequeue_def Let_def spsc_wf_def spsc_list_def)
qed

lemma mpsc_new_wf:
  assumes "pow2 c"
  obtains q :: "'a MpscQueue"
    where "mpsc_new c = Some q" "mpsc_wf q" "mpsc_list q = []" "mq_capacity q = c"
proof -
  define b :: "'a mpsc_slot list" where "b = replicate (unat c) \<lparr>ms_ready = False, ms_ptr = None\<rparr>"
  define q where "q = \<lparr>mq_capacity = c, mq_mask = c - 1, mq_buffer = b, mq_head = 0, mq_tail = 0\<rparr>"
  have ok: "slots_ok c (c - 1) b" using assms by (simp add: slots_ok_def b_def)
  have "free_slot (b ! slot_of (c - 1) x)" for x using slot_lt[OF ok, of x] by (simp add: b_def)
  then have "list_all free_slot (slots b (c - 1) 0 (unat c))" by (simp add: slots_def list_all_iff)
  with ok have "mpsc_wf q" by (simp add: mpsc_wf_def win_def q_def)
  moreover have "mpsc_new c = Some q" using assms by (simp add: mpsc_new_def q_def b_def)
  ultimately show ?thesis using that by (simp add: q_def mpsc_list_def win_def)
qed

lemma mpsc_enqueue_wf:
  assumes "mpsc_wf q"
  shows "\<exists>q'. mpsc_enqueue q x = Some (q', length (mpsc_list q) < unat (mq_capacity q)) \<and>
    mpsc_wf q' \<and> mq_capacity q' = mq_capacity q \<and>
    mpsc_list q' = (if length (mpsc_list q) < unat (mq_capacity q) then mpsc_list q @ [x]
      else mpsc_list q)"
proof -
  let ?n = "win (mq_head q) (mq_tail q)" and ?i = "slot_of (mq_mask q) (mq_tail q)"
    and ?c = "unat (mq_capacity q)" and ?s = "\<lparr>ms_ready = True, ms_ptr = Some x\<rparr>"
  have ok: "slots_ok (mq_capacity q) (mq_mask q) (mq_buffer q)" and n: "?n \<le> ?c"
    using assms by (auto simp: mpsc_wf_def)
  have full: "mq_tail q - mq_head q \<ge> mq_capacity q \<longleftrightarrow> \<not> ?n < ?c"
    by (auto simp: word_le_nat_alt win_def)
  have l: "length (mpsc_list q) = ?n" by (simp add: mpsc_list_def)
  show ?thesis
  proof (cases "?n < ?c")
    case False
    with assms full l show ?thesis by (simp add: mpsc_enqueue_def Let_def)
  next
    case True
    have w: "win (mq_head q) (mq_tail q + 1) = Suc ?n"
      using win_Suc_tail[of "mq_head q" "mq_tail q"] n slots_ok_cap_le[OF ok] by simp
    have "slots ((mq_buffer q)[?i := ?s]) (mq_mask q) (mq_head q) (Suc ?n) =
        slots (mq_buffer q) (mq_mask q) (mq_head q) ?n @ [?s]"
      using slots_push[OF ok True, of "mq_head q" ?s] by (simp flip: tail_eq)
    moreover have "slots (mq_buffer q) (mq_mask q) (mq_tail q) (?c - ?n) = mq_buffer q ! ?i #
        slots ((mq_buffer q)[?i := ?s]) (mq_mask q) (mq_tail q + 1) (?c - Suc ?n)"
      using True slots_Suc_front[of _ _ _ "?c - Suc ?n"] slots_pop[OF ok, of "?c - Suc ?n" "mq_tail q"]
      by (simp add: Suc_diff_Suc)
    ultimately show ?thesis
      using True full l slot_lt[OF ok, of "mq_tail q"] assms ok w
      by (simp add: mpsc_enqueue_def Let_def mpsc_wf_def mpsc_list_def)
  qed
qed

lemma slots_clear_front:
  assumes ok: "slots_ok cap m buf" and n: "Suc n \<le> unat cap"
  shows "slots (buf[slot_of m h := x]) m (h + 1 + of_nat n) (unat cap - n) =
    slots buf m (h + 1 + of_nat n) (unat cap - Suc n) @ [x]"
proof -
  let ?b = "buf[slot_of m h := x]"
  have "unat cap - n = Suc (unat cap - Suc n)" using n by simp
  moreover have "h + 1 + of_nat n + of_nat (unat cap - Suc n) = h + of_nat (unat cap)"
    using n by (simp add: of_nat_diff)
  moreover have "slots ?b m (h + 1 + of_nat n) (unat cap - Suc n) =
      slots buf m (h + 1 + of_nat n) (unat cap - Suc n)"
    using slots_update_outside[OF ok, of "Suc n" "unat cap - Suc n" 0 h x] n
    by (simp add: algebra_simps)
  ultimately show ?thesis
    using slot_lt[OF ok, of h] slot_wrap[OF ok, of h] by (simp add: slots_Suc_back)
qed

lemma mpsc_drain_loop_wf:
  assumes "slots_ok cap m buf" "n \<le> unat cap" "list_all ms_ready (slots buf m head n)"
    "list_all free_slot (slots buf m (head + of_nat n) (unat cap - n))"
  shows "\<exists>buf'. mpsc_drain_loop m buf head out =
      Some (buf', head + of_nat n, out @ map ms_ptr (slots buf m head n)) \<and>
    slots_ok cap m buf' \<and> list_all free_slot (slots buf' m (head + of_nat n) (unat cap))"
  using assms
proof (induction n arbitrary: buf head out)
  case 0
  obtain c where c: "unat cap = Suc c" using slots_ok_cap_pos[OF 0(1)] by (cases "unat cap") auto
  with 0(4) have "\<not> ms_ready (buf ! slot_of m head)" by (simp add: slots_Suc_front)
  with 0 slot_lt[OF 0(1), of head] show ?case by (simp add: mpsc_drain_loop.simps[of m buf head])
next
  case (Suc n)
  let ?b = "buf[slot_of m head := \<lparr>ms_ready = False, ms_ptr = None\<rparr>]"
  have r: "ms_ready (buf ! slot_of m head)" "list_all ms_ready (slots ?b m (head + 1) n)"
    using Suc.prems(2,3) slots_pop[OF Suc.prems(1), of n head] by (simp_all add: slots_Suc_front)
  have f: "list_all free_slot (slots ?b m (head + 1 + of_nat n) (unat cap - n))"
    using Suc.prems(4) slots_clear_front[OF Suc.prems(1,2), of head] by (simp add: algebra_simps)
  have "mpsc_drain_loop m buf head out =
      mpsc_drain_loop m ?b (head + 1) (out @ [ms_ptr (buf ! slot_of m head)])"
    using r(1) slot_lt[OF Suc.prems(1), of head]
    by (simp add: mpsc_drain_loop.simps[of m buf head] Let_def)
  moreover have "slots ?b m (head + 1) n = slots buf m (head + 1) n"
    using slots_pop[OF Suc.prems(1), of n head] Suc.prems(2) by simp
  moreover have "\<exists>buf'. mpsc_drain_loop m ?b (head + 1) (out @ [ms_ptr (buf ! slot_of m head)]) =
      Some (buf', head + 1 + of_nat n,
        (out @ [ms_ptr (buf ! slot_of m head)]) @ map ms_ptr (slots ?b m (head + 1) n)) \<and>
    slots_ok cap m buf' \<and> list_all free_slot (slots buf' m (head + 1 + of_nat n) (unat cap))"
    by (rule Suc.IH) (use Suc.prems(1,2) r(2) f in simp_all)
  ultimately show ?case by (simp add: slots_Suc_front add.assoc)
qed

lemma mpsc_dequeueAll_wf:
  assumes "mpsc_wf q"
  shows "\<exists>q'. mpsc_dequeueAll q = Some (q', map Some (mpsc_list q)) \<and> mpsc_wf q' \<and>
    mq_capacity q' = mq_capacity q \<and> mpsc_list q' = []"
proof -
  let ?n = "win (mq_head q) (mq_tail q)"
  let ?s = "slots (mq_buffer q) (mq_mask q) (mq_head q) ?n"
  have a: "slots_ok (mq_capacity q) (mq_mask q) (mq_buffer q)" "?n \<le> unat (mq_capacity q)"
    "list_all ms_ready ?s" "list_all (\<lambda>s. ms_ptr s \<noteq> None) ?s"
    "list_all free_slot (slots (mq_buffer q) (mq_mask q) (mq_head q + of_nat ?n)
      (unat (mq_capacity q) - ?n))"
    using assms by (auto simp: mpsc_wf_def list_all_iff simp flip: tail_eq)
  from a(4) have m: "map ms_ptr ?s = map Some (mpsc_list q)"
    by (auto simp: mpsc_list_def list_all_iff)
  from mpsc_drain_loop_wf[OF a(1,2,3,5), of "[]"] obtain buf where
    "mpsc_drain_loop (mq_mask q) (mq_buffer q) (mq_head q) [] =
      Some (buf, mq_tail q, map Some (mpsc_list q))"
    "slots_ok (mq_capacity q) (mq_mask q) buf"
    "list_all free_slot (slots buf (mq_mask q) (mq_tail q) (unat (mq_capacity q)))"
    by (auto simp: m simp flip: tail_eq)
  then show ?thesis by (simp add: mpsc_dequeueAll_def mpsc_wf_def mpsc_list_def win_def)
qed

subsection \<open>The queues meet their contracts\<close>

definition lq_limit :: "'a LockQueue \<Rightarrow> nat option" where
  "lq_limit q = (if lq_capacity q = 0 then None else Some (lq_capacity q))"

lemma lq_dequeue_loop_eq [simp]: "lq_dequeue_loop xs out = ([], out @ xs)"
  by (induction xs out rule: lq_dequeue_loop.induct) simp_all

interpretation lockq: drain_queue "\<lambda>_. True" lq_q lq_limit
  "\<lambda>q x. Some (lq_enqueue q x)" "\<lambda>q. Some (lq_dequeueAll q)"
  by unfold_locales (auto simp: lq_enqueue_def lq_limit_def has_room_def lq_dequeueAll_def)

interpretation spsc: deq_queue spsc_wf spsc_list "\<lambda>q. Some (unat (sq_capacity q))"
  spsc_enqueue spsc_dequeue
proof (unfold_locales, goal_cases)
  case (1 q x) then show ?case using spsc_enqueue_wf[of q x] by (auto simp: has_room_def)
next
  case (2 q) then show ?case using spsc_dequeue_wf[of q] by auto
qed

lemma mpsc_list_bound: "mpsc_wf q \<Longrightarrow> length (mpsc_list q) \<le> unat (mq_capacity q)"
  by (simp add: mpsc_wf_def mpsc_list_def)

text \<open>The consumers of an \<open>MpscQueue\<close> get a vector of pointers, none of them null.\<close>

definition mpsc_items :: "'a MpscQueue \<Rightarrow> ('a MpscQueue \<times> 'a list) option" where
  "mpsc_items q =
     do { (q', out) \<leftarrow> mpsc_dequeueAll q; if None \<in> set out then None else Some (q', map the out) }"

interpretation mpsc: drain_queue mpsc_wf mpsc_list "\<lambda>q. Some (unat (mq_capacity q))"
  mpsc_enqueue mpsc_items
proof (unfold_locales, goal_cases)
  case (1 q x) then show ?case using mpsc_enqueue_wf[of q x] by (auto simp: has_room_def)
next
  case (2 q)
  then show ?case using mpsc_dequeueAll_wf[of q] by (auto simp: mpsc_items_def comp_def)
qed

subsection \<open>Properties\<close>

text \<open>
  C7. From every state that satisfies the invariant, also just before the 64-bit counters wrap,
  any sequence of \<open>enqueue\<close> and \<open>dequeue\<close> calls on an \<open>SpscQueue\<close> stays inside the slot array and
  returns what the same calls on a list of at most \<open>m_capacity\<close> items return.
\<close>

theorem spsc_refines_list:
  assumes "spsc_wf q"
  shows "\<exists>q'. queue_run spsc_enqueue spsc_dequeue ops q =
      Some (q', snd (list_run (Some (unat (sq_capacity q))) ops (spsc_list q))) \<and> spsc_wf q' \<and>
    spsc_list q' = fst (list_run (Some (unat (sq_capacity q))) ops (spsc_list q))"
  using spsc.queue_run_eq[OF assms, of ops] by blast

theorem spsc_refines_list_witness:
  "\<exists>q'. queue_run spsc_enqueue spsc_dequeue
        [Enq 10, Enq 20, Enq 30, Deq, Enq 30, Deq, Deq, Deq :: nat queue_op]
        \<lparr>sq_capacity = 2, sq_mask = 1, sq_buffer = [None, None], sq_head = - 1, sq_tail = - 1\<rparr> =
      Some (q', [OAccepted True, OAccepted True, OAccepted False, OItem (Some 10), OAccepted True,
        OItem (Some 20), OItem (Some 30), OItem None]) \<and> spsc_list q' = []"
proof -
  define q :: "nat SpscQueue" where "q = \<lparr>sq_capacity = 2, sq_mask = 1, sq_buffer = [None, None],
    sq_head = - 1, sq_tail = - 1\<rparr>"
  have q: "spsc_wf q" "spsc_list q = []" "sq_capacity q = 2"
    by (simp_all add: q_def spsc_wf_def spsc_list_def slots_ok_def pow2_def win_def)
  then show ?thesis
    using spsc_refines_list[OF q(1), of "[Enq 10, Enq 20, Enq 30, Deq, Enq 30, Deq, Deq, Deq]"]
    by (auto simp: has_room_def simp flip: q_def simp del: queue_run.simps)
qed

text \<open>
  C8. What is put into an \<open>MpscQueue\<close> comes out of \<open>dequeueAll\<close> in order and without a null
  pointer, after what was there; exactly the items beyond the capacity are refused.
\<close>

theorem mpsc_batch_roundtrip:
  assumes "mpsc_wf q"
  shows "\<exists>q1 q2. ofold (\<lambda>x q. map_option fst (mpsc_enqueue q x)) xs q = Some q1 \<and>
    mpsc_dequeueAll q1 = Some (q2, map Some
      (mpsc_list q @ take (unat (mq_capacity q) - length (mpsc_list q)) xs)) \<and>
    mpsc_wf q2 \<and> mpsc_list q2 = []"
proof -
  have "length (mpsc_list q) \<le> unat (mq_capacity q)" using assms by (simp add: mpsc_wf_def mpsc_list_def)
  with mpsc.enq_batch[OF assms refl, of xs] obtain q1 where
    "ofold (\<lambda>x q. map_option fst (mpsc_enqueue q x)) xs q = Some q1" "mpsc_wf q1"
    "mpsc_list q1 = mpsc_list q @ take (unat (mq_capacity q) - length (mpsc_list q)) xs" by blast
  with mpsc_dequeueAll_wf[of q1] show ?thesis by auto
qed

theorem mpsc_batch_roundtrip_witness:
  "\<exists>q q1 q2. mpsc_new 2 = Some q \<and>
     ofold (\<lambda>x q. map_option fst (mpsc_enqueue q x)) [10, 20, 30 :: nat] q = Some q1 \<and>
     mpsc_dequeueAll q1 = Some (q2, [Some 10, Some 20])"
proof -
  have "pow2 2" by (simp add: pow2_def)
  then obtain q :: "nat MpscQueue" where q: "mpsc_new 2 = Some q" "mpsc_wf q" "mpsc_list q = []"
    "mq_capacity q = 2" by (rule mpsc_new_wf)
  with mpsc_batch_roundtrip[OF q(2), of "[10, 20, 30]"] show ?thesis by auto
qed

end
