(* ===== verification/SpscSteps.thy ===== *)
theory SpscSteps
  imports Queues
begin

text \<open>
  \<open>SpscQueue\<close> under concurrency: one producer thread in \<open>enqueue\<close> and one consumer thread in
  \<open>dequeue\<close>, interleaved at every load and store of the two functions. The release/acquire pairs
  on \<open>m_tail\<close> and \<open>m_head\<close> order the accesses of the slots, so the interleaving of the accesses is
  taken to be sequentially consistent.
\<close>

text \<open>Where a thread stands, with the values it has loaded.\<close>

datatype 'a producer =
    PIdle
  | PTail 'a u64          \<comment> \<open>\<open>m_tail\<close> loaded\<close>
  | PHead 'a u64 u64      \<comment> \<open>\<open>m_head\<close> loaded too\<close>
  | PWritten 'a u64       \<comment> \<open>slot written, \<open>m_tail\<close> not yet stored\<close>

datatype 'a consumer =
    CIdle
  | CHead u64             \<comment> \<open>\<open>m_head\<close> loaded\<close>
  | CTail u64 u64         \<comment> \<open>\<open>m_tail\<close> loaded too\<close>
  | CRead u64 "'a option" \<comment> \<open>slot read\<close>
  | CCleared u64 "'a option" \<comment> \<open>slot set to null, \<open>m_head\<close> not yet stored\<close>

text \<open>\<open>sy_sent\<close> and \<open>sy_got\<close> record the items whose \<open>enqueue\<close> returned true and the pointers that
  \<open>dequeue\<close> returned, in order.\<close>

record 'a spsc_sys =
  sy_q :: "'a SpscQueue"
  sy_prod :: "'a producer"
  sy_cons :: "'a consumer"
  sy_sent :: "'a list"
  sy_got :: "'a option list"

inductive spsc_step :: "'a spsc_sys \<Rightarrow> 'a spsc_sys \<Rightarrow> bool" where
  p_load_tail: "sy_prod s = PIdle \<Longrightarrow> spsc_step s (s\<lparr>sy_prod := PTail x (sq_tail (sy_q s))\<rparr>)"
| p_load_head: "sy_prod s = PTail x tail \<Longrightarrow>
    spsc_step s (s\<lparr>sy_prod := PHead x tail (sq_head (sy_q s))\<rparr>)"
| p_full: "sy_prod s = PHead x tail head \<Longrightarrow> tail + 1 - head > sq_capacity (sy_q s) \<Longrightarrow>
    spsc_step s (s\<lparr>sy_prod := PIdle\<rparr>)"
| p_write: "sy_prod s = PHead x tail head \<Longrightarrow> \<not> tail + 1 - head > sq_capacity (sy_q s) \<Longrightarrow>
    spsc_step s (s\<lparr>sy_prod := PWritten x tail,
      sy_q := (sy_q s)\<lparr>sq_buffer := (sq_buffer (sy_q s))[slot_of (sq_mask (sy_q s)) tail := Some x]\<rparr>\<rparr>)"
| p_store_tail: "sy_prod s = PWritten x tail \<Longrightarrow>
    spsc_step s (s\<lparr>sy_prod := PIdle, sy_q := (sy_q s)\<lparr>sq_tail := tail + 1\<rparr>,
      sy_sent := sy_sent s @ [x]\<rparr>)"
| c_load_head: "sy_cons s = CIdle \<Longrightarrow> spsc_step s (s\<lparr>sy_cons := CHead (sq_head (sy_q s))\<rparr>)"
| c_load_tail: "sy_cons s = CHead head \<Longrightarrow>
    spsc_step s (s\<lparr>sy_cons := CTail head (sq_tail (sy_q s))\<rparr>)"
| c_empty: "sy_cons s = CTail head head \<Longrightarrow> spsc_step s (s\<lparr>sy_cons := CIdle\<rparr>)"
| c_read: "sy_cons s = CTail head tail \<Longrightarrow> head \<noteq> tail \<Longrightarrow>
    spsc_step s (s\<lparr>sy_cons :=
      CRead head (sq_buffer (sy_q s) ! slot_of (sq_mask (sy_q s)) head)\<rparr>)"
| c_clear: "sy_cons s = CRead head ptr \<Longrightarrow>
    spsc_step s (s\<lparr>sy_cons := CCleared head ptr,
      sy_q := (sy_q s)\<lparr>sq_buffer := (sq_buffer (sy_q s))[slot_of (sq_mask (sy_q s)) head := None]\<rparr>\<rparr>)"
| c_store_head: "sy_cons s = CCleared head ptr \<Longrightarrow>
    spsc_step s (s\<lparr>sy_cons := CIdle, sy_q := (sy_q s)\<lparr>sq_head := head + 1\<rparr>,
      sy_got := sy_got s @ [ptr]\<rparr>)"

inductive_cases spsc_stepE: "spsc_step s t"

definition spsc_start :: "'a spsc_sys \<Rightarrow> bool" where
  "spsc_start s \<longleftrightarrow> spsc_wf (sy_q s) \<and> sq_head (sy_q s) = sq_tail (sy_q s) \<and> sy_prod s = PIdle \<and>
     sy_cons s = CIdle \<and> sy_sent s = [] \<and> sy_got s = []"

text \<open>The slots that hold what was sent and not yet returned.\<close>

definition in_flight :: "'a spsc_sys \<Rightarrow> 'a option list" where
  "in_flight s =
     (let q = sy_q s; n = win (sq_head q) (sq_tail q) in
      case sy_cons s of
        CCleared h ptr \<Rightarrow> ptr # slots (sq_buffer q) (sq_mask q) (sq_head q + 1) (n - 1)
      | _ \<Rightarrow> slots (sq_buffer q) (sq_mask q) (sq_head q) n)"

fun producer_inv :: "'a SpscQueue \<Rightarrow> 'a producer \<Rightarrow> bool" where
  "producer_inv q PIdle \<longleftrightarrow> True"
| "producer_inv q (PTail x t) \<longleftrightarrow> t = sq_tail q"
| "producer_inv q (PHead x t h) \<longleftrightarrow> t = sq_tail q \<and>
     win (sq_head q) (sq_tail q) \<le> win h (sq_tail q) \<and> win h (sq_tail q) \<le> unat (sq_capacity q)"
| "producer_inv q (PWritten x t) \<longleftrightarrow> t = sq_tail q \<and>
     win (sq_head q) (sq_tail q) < unat (sq_capacity q) \<and>
     sq_buffer q ! slot_of (sq_mask q) (sq_tail q) = Some x"

fun consumer_inv :: "'a SpscQueue \<Rightarrow> 'a consumer \<Rightarrow> bool" where
  "consumer_inv q CIdle \<longleftrightarrow> True"
| "consumer_inv q (CHead h) \<longleftrightarrow> h = sq_head q"
| "consumer_inv q (CTail h t) \<longleftrightarrow> h = sq_head q \<and> (h \<noteq> t \<longrightarrow> sq_head q \<noteq> sq_tail q)"
| "consumer_inv q (CRead h p) \<longleftrightarrow> h = sq_head q \<and> sq_head q \<noteq> sq_tail q \<and>
     p = sq_buffer q ! slot_of (sq_mask q) (sq_head q)"
| "consumer_inv q (CCleared h p) \<longleftrightarrow> h = sq_head q \<and> sq_head q \<noteq> sq_tail q"

definition spsc_inv :: "'a spsc_sys \<Rightarrow> bool" where
  "spsc_inv s \<longleftrightarrow>
     slots_ok (sq_capacity (sy_q s)) (sq_mask (sy_q s)) (sq_buffer (sy_q s)) \<and>
     win (sq_head (sy_q s)) (sq_tail (sy_q s)) \<le> unat (sq_capacity (sy_q s)) \<and>
     producer_inv (sy_q s) (sy_prod s) \<and> consumer_inv (sy_q s) (sy_cons s) \<and>
     map Some (sy_sent s) = sy_got s @ in_flight s"

subsection \<open>The steps keep the invariant\<close>

lemma slot_neq:
  assumes "slots_ok cap m buf" "head \<noteq> tail" "win head tail < unat cap"
  shows "slot_of m tail \<noteq> slot_of m head"
proof
  assume "slot_of m tail = slot_of m head"
  then have "slot_of m (head + of_nat (win head tail)) = slot_of m (head + of_nat 0)"
    by (simp flip: tail_eq)
  from slot_inj[OF assms(1) this assms(3)] assms(2,3) show False by simp
qed

lemma slots_other_tail:
  assumes "slots_ok cap m buf" "n + k \<le> win head tail" "win head tail < unat cap"
  shows "slots (buf[slot_of m tail := x]) m (head + of_nat k) n = slots buf m (head + of_nat k) n"
  using slots_update_outside[OF assms(1), of k n "win head tail" head x] assms(2,3)
  by (simp flip: tail_eq)

text \<open>The producer's store into its slot changes nothing that is in flight.\<close>

lemma p_write_inv:
  assumes I: "spsc_inv s" and p: "sy_prod s = PHead x tail head"
    and room: "\<not> tail + 1 - head > sq_capacity (sy_q s)"
  shows "spsc_inv (s\<lparr>sy_prod := PWritten x tail,
      sy_q := (sy_q s)\<lparr>sq_buffer := (sq_buffer (sy_q s))[slot_of (sq_mask (sy_q s)) tail := Some x]\<rparr>\<rparr>)"
proof -
  let ?q = "sy_q s"
  let ?b = "(sq_buffer ?q)[slot_of (sq_mask ?q) tail := Some x]"
  let ?n = "win (sq_head ?q) (sq_tail ?q)"
  have ok: "slots_ok (sq_capacity ?q) (sq_mask ?q) (sq_buffer ?q)" using I by (simp add: spsc_inv_def)
  have t: "tail = sq_tail ?q" and n: "?n \<le> win head tail" and w: "win head tail \<le> unat (sq_capacity ?q)"
    using I p by (auto simp: spsc_inv_def)
  have "win head (tail + 1) = Suc (win head tail)"
    using w slots_ok_cap_le[OF ok] by (intro win_Suc_tail) simp
  with room n have lt: "?n < unat (sq_capacity ?q)" by (auto simp: word_less_nat_alt win_def)
  have "slots ?b (sq_mask ?q) (sq_head ?q) ?n = slots (sq_buffer ?q) (sq_mask ?q) (sq_head ?q) ?n"
    using slots_other_tail[OF ok, of ?n 0] lt t by simp
  moreover have "slots ?b (sq_mask ?q) (sq_head ?q + 1) (?n - 1) =
      slots (sq_buffer ?q) (sq_mask ?q) (sq_head ?q + 1) (?n - 1)" if "sq_head ?q \<noteq> sq_tail ?q"
  proof -
    have "?n - 1 + 1 \<le> ?n" using that win_0[of "sq_head ?q" "sq_tail ?q"] by linarith
    from slots_other_tail[OF ok this lt] t show ?thesis by simp
  qed
  moreover have "?b ! slot_of (sq_mask ?q) (sq_head ?q) =
      sq_buffer ?q ! slot_of (sq_mask ?q) (sq_head ?q)" if "sq_head ?q \<noteq> sq_tail ?q"
    using slot_neq[OF ok that lt] t by simp
  ultimately show ?thesis
    using I p lt t slot_lt[OF ok, of tail]
    by (auto simp: spsc_inv_def in_flight_def Let_def split: consumer.splits)
qed

lemma p_store_tail_inv:
  assumes I: "spsc_inv s" and p: "sy_prod s = PWritten x tail"
  shows "spsc_inv (s\<lparr>sy_prod := PIdle, sy_q := (sy_q s)\<lparr>sq_tail := tail + 1\<rparr>,
      sy_sent := sy_sent s @ [x]\<rparr>)"
proof -
  let ?q = "sy_q s"
  let ?n = "win (sq_head ?q) (sq_tail ?q)"
  have ok: "slots_ok (sq_capacity ?q) (sq_mask ?q) (sq_buffer ?q)" using I by (simp add: spsc_inv_def)
  have t: "tail = sq_tail ?q" and n: "?n < unat (sq_capacity ?q)"
    and x: "sq_buffer ?q ! slot_of (sq_mask ?q) (sq_head ?q + of_nat ?n) = Some x"
    using I p by (auto simp: spsc_inv_def simp flip: tail_eq)
  have w: "win (sq_head ?q) (tail + 1) = Suc ?n"
    using n slots_ok_cap_le[OF ok] t by (simp add: win_Suc_tail)
  have "slots (sq_buffer ?q) (sq_mask ?q) (sq_head ?q) (Suc ?n) =
      slots (sq_buffer ?q) (sq_mask ?q) (sq_head ?q) ?n @ [Some x]"
    by (simp add: slots_Suc_back x)
  moreover have "slots (sq_buffer ?q) (sq_mask ?q) (sq_head ?q + 1) ?n =
      slots (sq_buffer ?q) (sq_mask ?q) (sq_head ?q + 1) (?n - 1) @ [Some x]"
    if "sq_head ?q \<noteq> sq_tail ?q"
  proof -
    from that have "?n \<noteq> 0" by simp
    then obtain k where k: "?n = Suc k" using not0_implies_Suc by blast
    then show ?thesis using x by (simp add: slots_Suc_back algebra_simps)
  qed
  moreover have "sq_head ?q \<noteq> tail + 1" using w by (metis nat.distinct(1) win_0)
  ultimately show ?thesis
    using I p n t w
    by (auto simp: spsc_inv_def in_flight_def Let_def split: consumer.splits)
qed

lemma c_clear_inv:
  assumes I: "spsc_inv s" and c: "sy_cons s = CRead head ptr"
  shows "spsc_inv (s\<lparr>sy_cons := CCleared head ptr,
      sy_q := (sy_q s)\<lparr>sq_buffer := (sq_buffer (sy_q s))[slot_of (sq_mask (sy_q s)) head := None]\<rparr>\<rparr>)"
proof -
  let ?q = "sy_q s"
  let ?n = "win (sq_head ?q) (sq_tail ?q)"
  have ok: "slots_ok (sq_capacity ?q) (sq_mask ?q) (sq_buffer ?q)" and h: "head = sq_head ?q"
    and ne: "sq_head ?q \<noteq> sq_tail ?q" and n: "?n \<le> unat (sq_capacity ?q)"
    and ptr: "ptr = sq_buffer ?q ! slot_of (sq_mask ?q) (sq_head ?q)"
    using I c by (auto simp: spsc_inv_def)
  from ne have "?n \<noteq> 0" by simp
  then obtain k where k: "?n = Suc k" using not0_implies_Suc by blast
  have "slots (sq_buffer ?q) (sq_mask ?q) (sq_head ?q) ?n = ptr #
      slots ((sq_buffer ?q)[slot_of (sq_mask ?q) head := None]) (sq_mask ?q) (sq_head ?q + 1) k"
    using slots_pop[OF ok, of k "sq_head ?q" None] n k h ptr by (simp add: slots_Suc_front)
  moreover have "slot_of (sq_mask ?q) (sq_tail ?q) \<noteq> slot_of (sq_mask ?q) head"
    if "?n < unat (sq_capacity ?q)" using slot_neq[OF ok ne that] h by simp
  ultimately show ?thesis
    using I c k h ne by (cases "sy_prod s") (auto simp: spsc_inv_def in_flight_def Let_def)
qed

lemma c_store_head_inv:
  assumes I: "spsc_inv s" and c: "sy_cons s = CCleared head ptr"
  shows "spsc_inv (s\<lparr>sy_cons := CIdle, sy_q := (sy_q s)\<lparr>sq_head := head + 1\<rparr>,
      sy_got := sy_got s @ [ptr]\<rparr>)"
proof -
  let ?q = "sy_q s"
  have h: "head = sq_head ?q" and ne: "sq_head ?q \<noteq> sq_tail ?q" using I c by (auto simp: spsc_inv_def)
  have "win (sq_head ?q) (sq_tail ?q) = Suc (win (head + 1) (sq_tail ?q))"
    using win_Suc_head[OF ne] h by simp
  then show ?thesis
    using I c h by (cases "sy_prod s") (auto simp: spsc_inv_def in_flight_def Let_def)
qed

lemma spsc_step_inv:
  assumes "spsc_inv s" "spsc_step s t"
  shows "spsc_inv t"
  using assms(2,1)
proof (cases rule: spsc_step.cases)
  case (p_write x tail head)
  then show ?thesis using p_write_inv[OF assms(1)] by simp
next
  case (p_store_tail x tail)
  then show ?thesis using p_store_tail_inv[OF assms(1)] by simp
next
  case (c_clear head ptr)
  then show ?thesis using c_clear_inv[OF assms(1)] by simp
next
  case (c_store_head head ptr)
  then show ?thesis using c_store_head_inv[OF assms(1)] by simp
qed (auto simp: spsc_inv_def in_flight_def Let_def split: consumer.splits)

lemma spsc_start_inv: "spsc_start s \<Longrightarrow> spsc_inv s"
  by (simp add: spsc_start_def spsc_inv_def in_flight_def spsc_wf_def win_def)

interpretation spsc_sys: step_invariant spsc_start spsc_step spsc_inv
  by unfold_locales (fact spsc_start_inv, fact spsc_step_inv)

text \<open>A run: one item is sent, then the producer is about to send another while the consumer is
  about to take the first.\<close>

definition demo_queue :: "nat SpscQueue" where
  "demo_queue = \<lparr>sq_capacity = 2, sq_mask = 1, sq_buffer = [None, None], sq_head = 0, sq_tail = 0\<rparr>"

definition demo_start :: "nat spsc_sys" where
  "demo_start = \<lparr>sy_q = demo_queue, sy_prod = PIdle, sy_cons = CIdle, sy_sent = [], sy_got = []\<rparr>"

definition demo_sent :: "nat spsc_sys" where
  "demo_sent = demo_start\<lparr>sy_q := demo_queue\<lparr>sq_buffer := [Some 7, None], sq_tail := 1\<rparr>,
     sy_sent := [7]\<rparr>"

lemma spsc_demo_sent: "spsc_step\<^sup>*\<^sup>* demo_start demo_sent"
proof -
  let ?s1 = "demo_start\<lparr>sy_prod := PTail 7 0\<rparr>" and ?s2 = "demo_start\<lparr>sy_prod := PHead 7 0 0\<rparr>"
  let ?s3 = "demo_start\<lparr>sy_prod := PWritten 7 0, sy_q := demo_queue\<lparr>sq_buffer := [Some 7, None]\<rparr>\<rparr>"
  note d = demo_start_def demo_queue_def demo_sent_def
  have "spsc_step demo_start ?s1" using p_load_tail[of demo_start 7] by (simp add: d)
  moreover have "spsc_step ?s1 ?s2" using p_load_head[of ?s1 7 0] by (simp add: d)
  moreover have "spsc_step ?s2 ?s3" using p_write[of ?s2 7 0 0] by (simp add: d slot_of_def)
  moreover have "spsc_step ?s3 demo_sent" using p_store_tail[of ?s3 7 0] by (simp add: d)
  ultimately show ?thesis by (meson converse_rtranclp_into_rtranclp rtranclp.rtrancl_refl)
qed

lemma spsc_demo_both:
  "spsc_step\<^sup>*\<^sup>* demo_start (demo_sent\<lparr>sy_prod := PHead 8 1 0, sy_cons := CTail 0 1\<rparr>)"
proof -
  let ?s1 = "demo_sent\<lparr>sy_prod := PTail 8 1\<rparr>" and ?s2 = "demo_sent\<lparr>sy_prod := PHead 8 1 0\<rparr>"
  let ?s3 = "demo_sent\<lparr>sy_prod := PHead 8 1 0, sy_cons := CHead 0\<rparr>"
  note d = demo_start_def demo_queue_def demo_sent_def
  have "spsc_step demo_sent ?s1" using p_load_tail[of demo_sent 8] by (simp add: d)
  moreover have "spsc_step ?s1 ?s2" using p_load_head[of ?s1 8 1] by (simp add: d)
  moreover have "spsc_step ?s2 ?s3" using c_load_head[of ?s2] by (simp add: d)
  moreover have "spsc_step ?s3 (demo_sent\<lparr>sy_prod := PHead 8 1 0, sy_cons := CTail 0 1\<rparr>)"
    using c_load_tail[of ?s3 0] by (simp add: d)
  ultimately show ?thesis using spsc_demo_sent by (meson rtranclp.rtrancl_into_rtrancl)
qed

lemma spsc_demo_start: "spsc_start demo_start"
  by (simp add: demo_start_def demo_queue_def spsc_start_def spsc_wf_def slots_ok_def pow2_def win_def)

subsection \<open>Properties\<close>

text \<open>
  C4. In every interleaving of one producer and one consumer the pointers that \<open>dequeue\<close> has
  returned are, in order and with none lost, doubled or null, a prefix of the items that
  \<open>enqueue\<close> accepted, and at most \<open>m_capacity\<close> accepted items are outstanding.
\<close>

theorem spsc_concurrent_fifo:
  assumes "spsc_start s" "spsc_step\<^sup>*\<^sup>* s t"
  shows "sy_got t = map Some (take (length (sy_got t)) (sy_sent t)) \<and>
    length (sy_sent t) \<le> length (sy_got t) + unat (sq_capacity (sy_q t))"
proof -
  from spsc_sys.reachable_inv[OF assms] have I: "spsc_inv t" .
  then have e: "map Some (sy_sent t) = sy_got t @ in_flight t" by (simp add: spsc_inv_def)
  then have "sy_got t = take (length (sy_got t)) (map Some (sy_sent t))" by simp
  moreover have "length (in_flight t) \<le> unat (sq_capacity (sy_q t))"
  proof (cases "sy_cons t")
    case (CCleared h p)
    with I have "win (sq_head (sy_q t)) (sq_tail (sy_q t)) \<noteq> 0" by (simp add: spsc_inv_def)
    with I CCleared show ?thesis by (simp add: spsc_inv_def in_flight_def Let_def del: win_0)
  qed (use I in \<open>simp_all add: spsc_inv_def in_flight_def Let_def\<close>)
  moreover have "length (sy_sent t) = length (sy_got t) + length (in_flight t)"
    using arg_cong[OF e, of length] by simp
  ultimately show ?thesis by (simp add: take_map)
qed

theorem spsc_concurrent_fifo_witness:
  "spsc_start demo_start \<and> spsc_step\<^sup>*\<^sup>* demo_start demo_sent \<and> sy_sent demo_sent = [7] \<and>
     sy_got demo_sent = map Some (take (length (sy_got demo_sent)) (sy_sent demo_sent)) \<and>
     length (sy_sent demo_sent) \<le> length (sy_got demo_sent) + unat (sq_capacity (sy_q demo_sent))"
  using spsc_demo_start spsc_demo_sent spsc_concurrent_fifo[OF spsc_demo_start spsc_demo_sent]
  by (simp add: demo_sent_def)

text \<open>
  C9. The two threads never touch the same slot at the same time, and never a slot outside the
  array: a producer about to write its slot and a consumer about to read or clear one stand at
  different indices below the capacity.
\<close>

theorem spsc_no_slot_race:
  assumes "spsc_start s" "spsc_step\<^sup>*\<^sup>* s t"
    and "sy_prod t = PHead x tail head" "\<not> tail + 1 - head > sq_capacity (sy_q t)"
    and "(\<exists>tl. sy_cons t = CTail h tl \<and> h \<noteq> tl) \<or> (\<exists>p. sy_cons t = CRead h p)"
  shows "slot_of (sq_mask (sy_q t)) tail \<noteq> slot_of (sq_mask (sy_q t)) h \<and>
    slot_of (sq_mask (sy_q t)) tail < length (sq_buffer (sy_q t)) \<and>
    slot_of (sq_mask (sy_q t)) h < length (sq_buffer (sy_q t))"
proof -
  let ?q = "sy_q t"
  from spsc_sys.reachable_inv[OF assms(1,2)] have I: "spsc_inv t" .
  then have ok: "slots_ok (sq_capacity ?q) (sq_mask ?q) (sq_buffer ?q)" by (simp add: spsc_inv_def)
  from I assms(3) have p: "tail = sq_tail ?q" "win (sq_head ?q) (sq_tail ?q) \<le> win head tail"
    "win head tail \<le> unat (sq_capacity ?q)" by (auto simp: spsc_inv_def)
  from I assms(5) have c: "h = sq_head ?q" "sq_head ?q \<noteq> sq_tail ?q" by (auto simp: spsc_inv_def)
  have "win head (tail + 1) = Suc (win head tail)"
    using p(3) slots_ok_cap_le[OF ok] by (intro win_Suc_tail) simp
  with assms(4) p(2) have "win (sq_head ?q) (sq_tail ?q) < unat (sq_capacity ?q)"
    by (auto simp: word_less_nat_alt win_def)
  from slot_neq[OF ok c(2) this] slot_lt[OF ok] c(1) p(1) show ?thesis by simp
qed

theorem spsc_no_slot_race_witness:
  "slot_of 1 1 \<noteq> slot_of 1 0 \<and> slot_of 1 1 < length (sq_buffer (sy_q demo_sent)) \<and>
    slot_of 1 0 < length (sq_buffer (sy_q demo_sent))"
  using spsc_no_slot_race[OF spsc_demo_start spsc_demo_both, of 8 1 0 0]
  by (simp add: demo_sent_def demo_start_def demo_queue_def)

end
