(* ===== verification/PacketModel.thy ===== *)
theory PacketModel
  imports Prelude
begin

text \<open>
  \<open>serverd/packet\<close>: the packet object that the reactors hand to the workers, the wire header, and
  the parser that turns a payload into a \<open>ParsedPacket\<close>. The abstract wire format is
  \<open>wire_packet\<close>, the layout that the comment of \<open>ParsedPacketTypes.h\<close> draws; the parser is shown
  to accept exactly the payloads that start with a packet of this format.
\<close>

subsection \<open>Packet.h\<close>

datatype Protocol = TCP | UDP | TLS | UNKNOWN

record ConnInfo =
  protocol :: Protocol
  srcIp :: u32
  srcPort :: u16
  dstIp :: u32
  dstPort :: u16

text \<open>\<open>sockaddr_in\<close>: address and port are in network order.\<close>

record sockaddr_in =
  sin_family :: u16
  sin_addr :: u32
  sin_port :: u16

record Packet =
  pk_fd :: fd
  pk_connInfo :: ConnInfo
  pk_payload :: bytes
  pk_txOffset :: nat

definition mk_Packet :: "fd \<Rightarrow> Protocol \<Rightarrow> bytes \<Rightarrow> sockaddr_in \<Rightarrow> sockaddr_in \<Rightarrow> Packet" where
  "mk_Packet fd proto payload srcAddr dstAddr =
     \<lparr>pk_fd = fd,
      pk_connInfo =
        \<lparr>protocol = proto,
         srcIp = ntohl (sin_addr srcAddr), srcPort = ntohs (sin_port srcAddr),
         dstIp = ntohl (sin_addr dstAddr), dstPort = ntohs (sin_port dstAddr)\<rparr>,
      pk_payload = payload,
      pk_txOffset = 0\<rparr>"

text \<open>A moved-from vector is empty.\<close>

definition takePayload :: "Packet \<Rightarrow> bytes \<times> Packet" where
  "takePayload p = (pk_payload p, p\<lparr>pk_payload := []\<rparr>)"

definition updateTxOffset :: "Packet \<Rightarrow> nat \<Rightarrow> Packet" where
  "updateTxOffset p n =
     (let off = size_add (pk_txOffset p) n in
      if off > length (pk_payload p) then p\<lparr>pk_txOffset := length (pk_payload p)\<rparr>
      else p\<lparr>pk_txOffset := off\<rparr>)"

subsection \<open>ParsedPacketTypes.h\<close>

text \<open>
  Both enumerations have an underlying \<open>uint8_t\<close>, and the parser casts an arbitrary byte to them:
  a value without a name is an \<open>Other\<close>.
\<close>

datatype PacketVersion = V1 | VersionOther u8

datatype Opcode =
    LOGIN_REQ | LOGIN_SUCCESS_RES | LOGIN_FAIL_RES
  | LOBBY_ENTRY_REQ | LOBBY_ENTRY_RES
  | PING_REQ | PING_RES
  | INVALID
  | OpcodeOther u8

definition version_of_u8 :: "u8 \<Rightarrow> PacketVersion" where
  "version_of_u8 b = (if b = 1 then V1 else VersionOther b)"

definition opcode_of_u8 :: "u8 \<Rightarrow> Opcode" where
  "opcode_of_u8 b =
     (if b = 0x10 then LOGIN_REQ
      else if b = 0x11 then LOGIN_SUCCESS_RES
      else if b = 0x12 then LOGIN_FAIL_RES
      else if b = 0x20 then LOBBY_ENTRY_REQ
      else if b = 0x21 then LOBBY_ENTRY_RES
      else if b = 0x90 then PING_REQ
      else if b = 0x91 then PING_RES
      else if b = 0xFF then INVALID
      else OpcodeOther b)"

fun u8_of_opcode :: "Opcode \<Rightarrow> u8" where
  "u8_of_opcode LOGIN_REQ = 0x10"
| "u8_of_opcode LOGIN_SUCCESS_RES = 0x11"
| "u8_of_opcode LOGIN_FAIL_RES = 0x12"
| "u8_of_opcode LOBBY_ENTRY_REQ = 0x20"
| "u8_of_opcode LOBBY_ENTRY_RES = 0x21"
| "u8_of_opcode PING_REQ = 0x90"
| "u8_of_opcode PING_RES = 0x91"
| "u8_of_opcode INVALID = 0xFF"
| "u8_of_opcode (OpcodeOther b) = b"

text \<open>The packed header as \<open>memcpy\<close> fills it: its integers keep the network order.\<close>

record CommonPacketHeader =
  hdr_version :: u8
  hdr_opcode :: u8
  hdr_bodyLen :: u16
  hdr_sessionId :: u64
  hdr_flags :: u32

definition COMMON_HEADER_SIZE :: nat where "COMMON_HEADER_SIZE = 16"

definition header_of_mem :: "bytes \<Rightarrow> CommonPacketHeader" where
  "header_of_mem bs =
     \<lparr>hdr_version = bs ! 0, hdr_opcode = bs ! 1,
      hdr_bodyLen = of_mem (take 2 (drop 2 bs)),
      hdr_sessionId = of_mem (take 8 (drop 4 bs)),
      hdr_flags = of_mem (take 4 (drop 12 bs))\<rparr>"

subsection \<open>ParsedPacket\<close>

record ParsedPacket =
  pp_fd :: fd
  pp_connInfo :: ConnInfo
  pp_version :: PacketVersion
  pp_opcode :: Opcode
  pp_flags :: u32
  pp_sessionId :: u64
  pp_payload :: bytes
  pp_bodyOffset :: nat
  pp_bodyLen :: nat

definition pp_takePayload :: "ParsedPacket \<Rightarrow> bytes \<times> ParsedPacket" where
  "pp_takePayload p = (pp_payload p, p\<lparr>pp_payload := []\<rparr>)"

definition setSessionId :: "ParsedPacket \<Rightarrow> u64 \<Rightarrow> ParsedPacket" where
  "setSessionId p sid = p\<lparr>pp_sessionId := sid\<rparr>"

subsection \<open>PacketParser\<close>

definition PacketParser_parse :: "Packet option \<Rightarrow> ParsedPacket option" where
  "PacketParser_parse packet =
     (case packet of
        None \<Rightarrow> None
      | Some pkt \<Rightarrow>
          (let (payload, pkt) = takePayload pkt;
               HEADER_SIZE = 16
           in if length payload < HEADER_SIZE then None
              else
                let version = version_of_u8 (payload ! 0);
                    opcode = opcode_of_u8 (payload ! 1);
                    bodyLen = ntohs (of_mem (take 2 (drop 2 payload)));
                    sessionId = be64toh (of_mem (take 8 (drop 4 payload)));
                    flags = ntohl (of_mem (take 4 (drop 12 payload)))
                in if length payload < HEADER_SIZE + unat bodyLen then None
                   else Some
                     \<lparr>pp_fd = pk_fd pkt, pp_connInfo = pk_connInfo pkt, pp_version = version,
                      pp_opcode = opcode, pp_flags = flags, pp_sessionId = sessionId,
                      pp_payload = payload, pp_bodyOffset = HEADER_SIZE,
                      pp_bodyLen = unat bodyLen\<rparr>))"

subsection \<open>The wire format\<close>

definition wire_header :: "u8 \<Rightarrow> u8 \<Rightarrow> nat \<Rightarrow> u64 \<Rightarrow> u32 \<Rightarrow> bytes" where
  "wire_header ver op len sid flags =
     [ver, op] @ be_bytes 2 (of_nat len :: u16) @ be_bytes 8 sid @ be_bytes 4 flags"

definition wire_packet :: "u8 \<Rightarrow> u8 \<Rightarrow> u64 \<Rightarrow> u32 \<Rightarrow> bytes \<Rightarrow> bytes" where
  "wire_packet ver op sid flags body = wire_header ver op (length body) sid flags @ body"

lemma length_wire_header [simp]: "length (wire_header ver op len sid flags) = 16"
  by (simp add: wire_header_def)

lemma length_wire_packet [simp]: "length (wire_packet ver op sid flags body) = 16 + length body"
  by (simp add: wire_packet_def)

text \<open>A header takes 16 bytes apart into its five fields.\<close>

lemma wire_header_fields:
  "wire_header ver op len sid flags ! 0 = ver"
  "wire_header ver op len sid flags ! 1 = op"
  "take 2 (drop 2 (wire_header ver op len sid flags)) = be_bytes 2 (of_nat len :: u16)"
  "take 8 (drop 4 (wire_header ver op len sid flags)) = be_bytes 8 sid"
  "take 4 (drop 12 (wire_header ver op len sid flags)) = be_bytes 4 flags"
  by (simp_all add: wire_header_def)

lemma wire_packet_fields:
  "(wire_packet ver op sid flags body @ rest) ! 0 = ver"
  "(wire_packet ver op sid flags body @ rest) ! 1 = op"
  "take 2 (drop 2 (wire_packet ver op sid flags body)) = be_bytes 2 (of_nat (length body) :: u16)"
  "take 8 (drop 4 (wire_packet ver op sid flags body)) = be_bytes 8 sid"
  "take 4 (drop 12 (wire_packet ver op sid flags body)) = be_bytes 4 flags"
  by (simp_all add: wire_packet_def wire_header_def)

lemma u8_of_opcode_of_u8 [simp]: "u8_of_opcode (opcode_of_u8 b) = b"
  by (simp add: opcode_of_u8_def)

lemma opcode_of_u8_inj: "opcode_of_u8 a = opcode_of_u8 b \<longleftrightarrow> a = b"
  by (metis u8_of_opcode_of_u8)

lemma opcode_of_u8_simps [simp]:
  "opcode_of_u8 0x10 = LOGIN_REQ" "opcode_of_u8 0x11 = LOGIN_SUCCESS_RES"
  "opcode_of_u8 0x12 = LOGIN_FAIL_RES" "opcode_of_u8 0x20 = LOBBY_ENTRY_REQ"
  "opcode_of_u8 0x21 = LOBBY_ENTRY_RES" "opcode_of_u8 0x90 = PING_REQ"
  "opcode_of_u8 0x91 = PING_RES"
  by (simp_all add: opcode_of_u8_def)

text \<open>Conversely, any 16 bytes are a header.\<close>

lemma header_split:
  assumes "length xs = 16"
  shows "xs = [xs ! 0, xs ! 1] @ take 2 (drop 2 xs) @ take 8 (drop 4 xs) @ take 4 (drop 12 xs)"
proof -
  have "xs = take 2 xs @ take 2 (drop 2 xs) @ take 8 (drop 4 xs) @ drop 12 xs"
    using append_take_drop_id[of 2 xs] append_take_drop_id[of 2 "drop 2 xs"]
      append_take_drop_id[of 8 "drop 4 xs"]
    by simp
  moreover have "take 2 xs = [xs ! 0, xs ! 1]"
    using assms by (simp add: numeral_2_eq_2 take_Suc_conv_app_nth)
  moreover have "drop 12 xs = take 4 (drop 12 xs)" using assms by simp
  ultimately show ?thesis by metis
qed

lemma wire_header_of_bytes:
  assumes "length xs = 16" and len: "len = unat (be_val (take 2 (drop 2 xs)) :: u16)"
  shows "wire_header (xs ! 0) (xs ! 1) len (be_val (take 8 (drop 4 xs))) (be_val (take 4 (drop 12 xs)))
    = xs"
proof -
  have "(of_nat len :: u16) = be_val (take 2 (drop 2 xs))" by (simp add: len)
  then show ?thesis
    using assms(1) header_split[OF assms(1)]
    by (simp add: wire_header_def be_bytes_be_val_16 be_bytes_be_val_32 be_bytes_be_val_64)
qed

subsection \<open>The parser and the wire format\<close>

definition parsed_of :: "Packet \<Rightarrow> u8 \<Rightarrow> u8 \<Rightarrow> u64 \<Rightarrow> u32 \<Rightarrow> nat \<Rightarrow> ParsedPacket" where
  "parsed_of p ver op sid flags len =
     \<lparr>pp_fd = pk_fd p, pp_connInfo = pk_connInfo p, pp_version = version_of_u8 ver,
      pp_opcode = opcode_of_u8 op, pp_flags = flags, pp_sessionId = sid,
      pp_payload = pk_payload p, pp_bodyOffset = 16, pp_bodyLen = len\<rparr>"

lemma parse_eq:
  "PacketParser_parse (Some p) =
     (let pl = pk_payload p; len = unat (be_val (take 2 (drop 2 pl)) :: u16)
      in if length pl < 16 \<or> length pl < 16 + len then None
         else Some (parsed_of p (pl ! 0) (pl ! 1) (be_val (take 8 (drop 4 pl)))
           (be_val (take 4 (drop 12 pl))) len))"
  by (simp add: PacketParser_parse_def takePayload_def parsed_of_def Let_def mem_simps)

lemma parse_wire_packet:
  assumes "pk_payload p = wire_packet ver op sid flags body @ rest" "length body < 65536"
  shows "PacketParser_parse (Some p) = Some (parsed_of p ver op sid flags (length body))"
proof -
  have "unat (of_nat (length body) :: u16) = length body"
    using assms(2) by (simp add: unat_of_nat)
  then show ?thesis
    using assms(1) by (simp add: parse_eq Let_def wire_packet_fields del: One_nat_def)
qed

lemma parse_SomeD:
  assumes "PacketParser_parse (Some p) = Some q"
  obtains ver op sid flags body rest where
    "pk_payload p = wire_packet ver op sid flags body @ rest" "length body < 65536"
    "q = parsed_of p ver op sid flags (length body)"
proof -
  let ?pl = "pk_payload p" and ?h = "take 16 (pk_payload p)"
  define len where "len = unat (be_val (take 2 (drop 2 ?pl)) :: u16)"
  from assms have l: "16 + len \<le> length ?pl"
    and q: "q = parsed_of p (?pl ! 0) (?pl ! 1) (be_val (take 8 (drop 4 ?pl)))
      (be_val (take 4 (drop 12 ?pl))) len"
    by (auto simp: parse_eq Let_def len_def split: if_splits)
  define body where "body = take len (drop 16 ?pl)"
  have lb: "length body = len" using l by (simp add: body_def)
  have "len < 65536" using unsigned_less[of "be_val (take 2 (drop 2 ?pl)) :: u16"] by (simp add: len_def)
  have "?h = wire_header (?pl ! 0) (?pl ! 1) len (be_val (take 8 (drop 4 ?pl)))
      (be_val (take 4 (drop 12 ?pl)))"
    using wire_header_of_bytes[of ?h len] l by (simp add: len_def drop_take)
  moreover have "?pl = ?h @ body @ drop (16 + len) ?pl"
    using append_take_drop_id[of 16 ?pl] append_take_drop_id[of len "drop 16 ?pl"]
    by (simp add: body_def add.commute)
  ultimately have "?pl = wire_packet (?pl ! 0) (?pl ! 1) (be_val (take 8 (drop 4 ?pl)))
      (be_val (take 4 (drop 12 ?pl))) body @ drop (16 + len) ?pl"
    by (simp add: wire_packet_def lb)
  from that[OF this] lb \<open>len < 65536\<close> q show ?thesis by simp
qed

text \<open>
  C5. The parser accepts a datagram or frame exactly when it starts with a packet of the wire
  format (version, opcode, big-endian body length, session id and flags, then the body); what it
  returns are that packet's fields, and bytes after the body are ignored.
\<close>

theorem parse_iff_wire_format:
  "PacketParser_parse (Some p) = Some q \<longleftrightarrow>
     (\<exists>ver op sid flags body rest. pk_payload p = wire_packet ver op sid flags body @ rest \<and>
        length body < 65536 \<and> q = parsed_of p ver op sid flags (length body))"
proof
  assume "PacketParser_parse (Some p) = Some q"
  then show "\<exists>ver op sid flags body rest. pk_payload p = wire_packet ver op sid flags body @ rest \<and>
      length body < 65536 \<and> q = parsed_of p ver op sid flags (length body)"
    by (rule parse_SomeD) blast
qed (auto simp: parse_wire_packet)

end
