(* ===== verification/Session.thy ===== *)
theory Session
  imports PacketModel
begin

text \<open>
  \<open>serverd/session\<close>: a \<open>Session\<close>, the \<open>SessionManager\<close> with its two tables, and the snapshot from
  which a reply is addressed. Every public operation runs under \<open>m_lock\<close>, so each is one step.
  \<open>RAND_bytes\<close> is an input: the list of the results of the calls to come, \<open>None\<close> for a failure
  (which aborts the process). A run that asks for more results than the list has is not described.
\<close>

subsection \<open>Session\<close>

datatype SessionState = PRE_AUTH | AUTH | IN_WORLD | CLOSED | STATE_UNKNOWN

record Session =
  s_sessionId :: u64
  s_state :: SessionState
  s_tlsFd :: fd
  s_tcpFd :: fd
  s_udpFd :: fd
  s_connInfo :: ConnInfo

definition no_connInfo :: ConnInfo where
  "no_connInfo = \<lparr>protocol = UNKNOWN, srcIp = 0, srcPort = 0, dstIp = 0, dstPort = 0\<rparr>"

definition mk_Session :: "u64 \<Rightarrow> Session" where
  "mk_Session sid = \<lparr>s_sessionId = sid, s_state = STATE_UNKNOWN, s_tlsFd = - 1, s_tcpFd = - 1,
     s_udpFd = - 1, s_connInfo = no_connInfo\<rparr>"

definition Session_bind :: "Session \<Rightarrow> ParsedPacket \<Rightarrow> Session" where
  "Session_bind s parsed =
     (let s = s\<lparr>s_connInfo := pp_connInfo parsed\<rparr> in
      case protocol (s_connInfo s) of
        TCP \<Rightarrow> s\<lparr>s_tcpFd := pp_fd parsed\<rparr>
      | TLS \<Rightarrow> s\<lparr>s_tlsFd := pp_fd parsed\<rparr>
      | UDP \<Rightarrow> s\<lparr>s_udpFd := pp_fd parsed\<rparr>
      | UNKNOWN \<Rightarrow> s)"

subsection \<open>SessionManager\<close>

record SessionTxSnapshot =
  tx_protocol :: Protocol
  tx_tlsFd :: fd
  tx_tcpFd :: fd
  tx_udpFd :: fd
  tx_connInfo :: ConnInfo

record SessionManager =
  m_tlsFdToSessionId :: "(fd \<times> u64) list"
  m_sessions :: "(u64 \<times> Session) list"

definition mk_SessionManager :: SessionManager where
  "mk_SessionManager = \<lparr>m_tlsFdToSessionId = [], m_sessions = []\<rparr>"

definition checkAndBind :: "SessionManager \<Rightarrow> ParsedPacket \<Rightarrow> SessionManager \<times> bool" where
  "checkAndBind sm parsed =
     (let sessionId = pp_sessionId parsed in
      if sessionId = 0 then (sm, False)
      else case map_of (m_sessions sm) sessionId of
             None \<Rightarrow> (sm, False)
           | Some s \<Rightarrow>
               (sm\<lparr>m_sessions := AList.update sessionId (Session_bind s parsed) (m_sessions sm)\<rparr>, True))"

type_synonym rand = "u64 option list"

fun generateSecureSessionId :: "rand \<Rightarrow> (u64 \<times> rand) option" where
  "generateSecureSessionId [] = None"
| "generateSecureSessionId (None # rs) = None"
| "generateSecureSessionId (Some sid # rs) =
     (if sid = 0 then generateSecureSessionId rs else Some (sid, rs))"

text \<open>\<open>create\<close> writes the new id into the packet, its second result.\<close>

definition create ::
  "SessionManager \<Rightarrow> ParsedPacket \<Rightarrow> rand \<Rightarrow> (SessionManager \<times> ParsedPacket \<times> rand \<times> bool) option" where
  "create sm parsed rs =
     (let fd = pp_fd parsed in
      if map_of (m_tlsFdToSessionId sm) fd \<noteq> None then Some (sm, parsed, rs, False)
      else do {
        (sessionId, rs) \<leftarrow> generateSecureSessionId rs;
        let session = (Session_bind (mk_Session sessionId) parsed)\<lparr>s_state := PRE_AUTH\<rparr>;
        Some (sm\<lparr>m_sessions := emplace sessionId session (m_sessions sm),
                 m_tlsFdToSessionId := emplace fd sessionId (m_tlsFdToSessionId sm)\<rparr>,
              setSessionId parsed sessionId, rs, True)
      })"

definition erase :: "SessionManager \<Rightarrow> u64 \<Rightarrow> SessionManager" where
  "erase sm sessionId =
     (case map_of (m_sessions sm) sessionId of
        None \<Rightarrow> sm
      | Some s \<Rightarrow>
          sm\<lparr>m_tlsFdToSessionId := AList.delete (s_tlsFd s) (m_tlsFdToSessionId sm),
             m_sessions := AList.delete sessionId (m_sessions sm)\<rparr>)"

definition setState :: "SessionManager \<Rightarrow> u64 \<Rightarrow> SessionState \<Rightarrow> SessionManager" where
  "setState sm sessionId state =
     (case map_of (m_sessions sm) sessionId of
        None \<Rightarrow> sm
      | Some s \<Rightarrow> sm\<lparr>m_sessions := AList.update sessionId (s\<lparr>s_state := state\<rparr>) (m_sessions sm)\<rparr>)"

fun tx_protocol_of :: "Opcode \<Rightarrow> Protocol option" where
  "tx_protocol_of LOGIN_SUCCESS_RES = Some TLS"
| "tx_protocol_of LOGIN_FAIL_RES = Some TLS"
| "tx_protocol_of LOBBY_ENTRY_RES = Some TCP"
| "tx_protocol_of PING_RES = Some UDP"
| "tx_protocol_of _ = None"

text \<open>\<open>None\<close> is \<open>false\<close>; every caller then ignores the out parameter.\<close>

definition getTxSnapshot :: "SessionManager \<Rightarrow> u64 \<Rightarrow> Opcode \<Rightarrow> SessionTxSnapshot option" where
  "getTxSnapshot sm sessionId opcode =
     (case map_of (m_sessions sm) sessionId of
        None \<Rightarrow> None
      | Some s \<Rightarrow>
          (case tx_protocol_of opcode of
             None \<Rightarrow> None
           | Some p \<Rightarrow> Some \<lparr>tx_protocol = p, tx_tlsFd = s_tlsFd s, tx_tcpFd = s_tcpFd s,
               tx_udpFd = s_udpFd s, tx_connInfo = s_connInfo s\<rparr>))"

definition totalCount :: "SessionManager \<Rightarrow> nat" where
  "totalCount sm = length (m_sessions sm)"

record SessionInfo =
  si_sessionId :: u64
  si_state :: string
  si_tlsFd :: fd
  si_tcpFd :: fd
  si_udpFd :: fd

fun stateToStr :: "SessionState \<Rightarrow> string" where
  "stateToStr PRE_AUTH = ''PRE_AUTH''"
| "stateToStr AUTH = ''AUTH''"
| "stateToStr IN_WORLD = ''WORLD''"
| "stateToStr CLOSED = ''CLOSE''"
| "stateToStr STATE_UNKNOWN = ''UNKNOWN''"

definition sm_snapshot :: "SessionManager \<Rightarrow> SessionInfo list" where
  "sm_snapshot sm = map (\<lambda>(sid, s). \<lparr>si_sessionId = sid, si_state = stateToStr (s_state s),
     si_tlsFd = s_tlsFd s, si_tcpFd = s_tcpFd s, si_udpFd = s_udpFd s\<rparr>) (m_sessions sm)"

subsection \<open>The tables stay well-formed\<close>

text \<open>
  Keys are distinct, no session has the id 0 that stands for \<open>no session\<close> on the wire, a session
  is filed under its own id, and the ids of the descriptor table are not 0 either.
\<close>

definition sm_wf :: "SessionManager \<Rightarrow> bool" where
  "sm_wf sm \<longleftrightarrow> um_wf (m_tlsFdToSessionId sm) \<and> um_wf (m_sessions sm) \<and>
     list_all (\<lambda>(sid, s). sid \<noteq> 0 \<and> s_sessionId s = sid) (m_sessions sm) \<and>
     list_all (\<lambda>(fd, sid). sid \<noteq> 0) (m_tlsFdToSessionId sm)"

text \<open>The calls that other components make, as one type, to speak of any sequence of them.\<close>

datatype sm_op =
    SCheckAndBind ParsedPacket
  | SCreate ParsedPacket
  | SErase u64
  | SSetState u64 SessionState

fun sm_step :: "sm_op \<Rightarrow> SessionManager \<times> rand \<Rightarrow> (SessionManager \<times> rand) option" where
  "sm_step (SCheckAndBind p) (sm, rs) = Some (fst (checkAndBind sm p), rs)"
| "sm_step (SCreate p) (sm, rs) = map_option (\<lambda>(sm', _, rs', _). (sm', rs')) (create sm p rs)"
| "sm_step (SErase sid) (sm, rs) = Some (erase sm sid, rs)"
| "sm_step (SSetState sid st) (sm, rs) = Some (setState sm sid st, rs)"

abbreviation session_of :: "SessionManager \<Rightarrow> u64 \<Rightarrow> Session option" where
  "session_of sm sid \<equiv> map_of (m_sessions sm) sid"

lemma sm_wf_iff:
  "sm_wf sm \<longleftrightarrow> um_wf (m_tlsFdToSessionId sm) \<and> um_wf (m_sessions sm) \<and>
     (\<forall>sid s. session_of sm sid = Some s \<longrightarrow> sid \<noteq> 0 \<and> s_sessionId s = sid) \<and>
     (\<forall>fd sid. map_of (m_tlsFdToSessionId sm) fd = Some sid \<longrightarrow> sid \<noteq> 0)"
  unfolding sm_wf_def list_all_iff
  by (intro conj_cong refl) (auto simp: map_of_eq_Some_iff)

lemma sm_wf_new [inv_intros]: "sm_wf mk_SessionManager"
  by (simp add: sm_wf_def mk_SessionManager_def)

lemma Session_bind_id [simp]: "s_sessionId (Session_bind s p) = s_sessionId s"
  by (simp add: Session_bind_def Let_def split: Protocol.splits)

lemma Session_bind_state [simp]: "s_state (Session_bind s p) = s_state s"
  by (simp add: Session_bind_def Let_def split: Protocol.splits)

lemma Session_bind_fields:
  "s_tlsFd (Session_bind s p) = (if protocol (pp_connInfo p) = TLS then pp_fd p else s_tlsFd s)"
  "s_tcpFd (Session_bind s p) = (if protocol (pp_connInfo p) = TCP then pp_fd p else s_tcpFd s)"
  "s_udpFd (Session_bind s p) = (if protocol (pp_connInfo p) = UDP then pp_fd p else s_udpFd s)"
  "s_connInfo (Session_bind s p) = pp_connInfo p"
  by (simp_all add: Session_bind_def Let_def split: Protocol.splits)

lemma generate_nonzero: "generateSecureSessionId rs = Some (sid, rs') \<Longrightarrow> sid \<noteq> 0"
  by (induction rs rule: generateSecureSessionId.induct) (auto split: if_splits)

text \<open>Zero draws are skipped, so any nonzero draw before a failure gives an id.\<close>

lemma generate_draws:
  "sid \<noteq> 0 \<Longrightarrow> generateSecureSessionId (replicate n (Some 0) @ Some sid # rs) = Some (sid, rs)"
  by (induction n) simp_all

lemma sm_wf_checkAndBind [inv_intros]: "sm_wf sm \<Longrightarrow> sm_wf (fst (checkAndBind sm p))"
  by (auto simp: sm_wf_iff checkAndBind_def Let_def split: option.splits)

lemma create_cases:
  assumes "create sm p rs = Some (sm', p', rs', b)"
  obtains (duplicate) sid where "map_of (m_tlsFdToSessionId sm) (pp_fd p) = Some sid"
      "sm' = sm" "p' = p" "rs' = rs" "\<not> b"
    | (created) sid where "map_of (m_tlsFdToSessionId sm) (pp_fd p) = None"
      "generateSecureSessionId rs = Some (sid, rs')" "b" "p' = setSessionId p sid" "sid \<noteq> 0"
      "sm' = sm\<lparr>m_sessions := emplace sid
          ((Session_bind (mk_Session sid) p)\<lparr>s_state := PRE_AUTH\<rparr>) (m_sessions sm),
        m_tlsFdToSessionId := emplace (pp_fd p) sid (m_tlsFdToSessionId sm)\<rparr>"
proof (cases "map_of (m_tlsFdToSessionId sm) (pp_fd p)")
  case None
  with assms obtain sid where g: "generateSecureSessionId rs = Some (sid, rs')" "b"
    "p' = setSessionId p sid"
    "sm' = sm\<lparr>m_sessions := emplace sid
          ((Session_bind (mk_Session sid) p)\<lparr>s_state := PRE_AUTH\<rparr>) (m_sessions sm),
        m_tlsFdToSessionId := emplace (pp_fd p) sid (m_tlsFdToSessionId sm)\<rparr>"
    by (auto simp: create_def Let_def split: bind_splits)
  from created[OF None g(1-3) generate_nonzero[OF g(1)] g(4)] show ?thesis .
next
  case (Some sid)
  with assms show ?thesis by (intro duplicate) (simp_all add: create_def)
qed

lemma sm_wf_create [inv_intros]:
  assumes "sm_wf sm" "create sm p rs = Some (sm', p', rs', b)"
  shows "sm_wf sm'"
  using assms(2)
proof (cases rule: create_cases)
  case (created sid)
  then show ?thesis using assms(1) by (auto simp: sm_wf_iff mk_Session_def split: if_splits)
qed (use assms(1) in simp)

lemma sm_wf_erase [inv_intros]: "sm_wf sm \<Longrightarrow> sm_wf (erase sm sid)"
  by (auto simp: sm_wf_iff erase_def split: option.splits if_splits)

lemma sm_wf_setState [inv_intros]: "sm_wf sm \<Longrightarrow> sm_wf (setState sm sid st)"
  by (auto simp: sm_wf_iff setState_def split: option.splits)

lemma sm_step_wf:
  assumes "sm_wf sm" "sm_step op (sm, rs) = Some (sm', rs')"
  shows "sm_wf sm'"
proof (cases op)
  case (SCreate p)
  with assms show ?thesis by (auto dest: sm_wf_create)
next
  case (SCheckAndBind p)
  with assms show ?thesis by (auto intro: sm_wf_checkAndBind)
next
  case (SErase sid)
  with assms show ?thesis by (auto intro: sm_wf_erase)
next
  case (SSetState sid st)
  with assms show ?thesis by (auto intro: sm_wf_setState)
qed

subsection \<open>What the operations do\<close>

lemma checkAndBind_eq:
  "checkAndBind sm p =
     (case (if pp_sessionId p = 0 then None else session_of sm (pp_sessionId p)) of
        None \<Rightarrow> (sm, False)
      | Some s \<Rightarrow> (sm\<lparr>m_sessions := AList.update (pp_sessionId p) (Session_bind s p) (m_sessions sm)\<rparr>, True))"
  by (auto simp: checkAndBind_def Let_def)

lemma session_of_setState:
  "session_of (setState sm sid st) i =
     (if i = sid then map_option (\<lambda>s. s\<lparr>s_state := st\<rparr>) (session_of sm sid) else session_of sm i)"
  by (auto simp: setState_def split: option.splits)

lemma session_of_erase:
  "session_of (erase sm sid) i = (if i = sid then None else session_of sm i)"
  by (auto simp: erase_def split: option.splits)

lemma create_new:
  assumes "map_of (m_tlsFdToSessionId sm) (pp_fd p) = None"
    and "generateSecureSessionId rs = Some (sid, rs')" "session_of sm sid = None"
  shows "create sm p rs =
    Some (sm\<lparr>m_sessions := m_sessions sm @ [(sid, (Session_bind (mk_Session sid) p)\<lparr>s_state := PRE_AUTH\<rparr>)],
             m_tlsFdToSessionId := m_tlsFdToSessionId sm @ [(pp_fd p, sid)]\<rparr>,
          setSessionId p sid, rs', True)"
  using assms by (simp add: create_def Let_def emplace_def)

lemma delete_snoc_fresh: "map_of m k = None \<Longrightarrow> AList.delete k (m @ [(k, v)]) = m"
  by (induction m) (auto split: if_splits)

subsection \<open>Properties\<close>

text \<open>
  C14. Whatever sequence of session operations runs on a new manager, both tables keep distinct
  keys, no session has id 0, and every session is filed under its own id.
\<close>

theorem sessions_stay_wf:
  assumes "ofold sm_step ops (mk_SessionManager, rs) = Some (sm, rs')"
  shows "sm_wf sm"
proof -
  have "sm_wf sm'" if "ofold sm_step ops (sm0, rs0) = Some (sm', rs'')" "sm_wf sm0" for sm0 rs0 sm' rs''
    using that
  proof (induction ops arbitrary: sm0 rs0)
    case (Cons op ops)
    then obtain sm1 rs1 where "sm_step op (sm0, rs0) = Some (sm1, rs1)"
      "ofold sm_step ops (sm1, rs1) = Some (sm', rs'')" by (auto split: bind_splits)
    with Cons sm_step_wf show ?case by blast
  qed simp
  with assms sm_wf_new show ?thesis by blast
qed

text \<open>A login request as the TLS worker hands it in, and the same over TCP.\<close>

definition demo_parsed :: "Protocol \<Rightarrow> fd \<Rightarrow> u64 \<Rightarrow> ParsedPacket" where
  "demo_parsed proto fd sid = \<lparr>pp_fd = fd,
     pp_connInfo = \<lparr>protocol = proto, srcIp = 1, srcPort = 2, dstIp = 3, dstPort = 4\<rparr>,
     pp_version = V1, pp_opcode = LOGIN_REQ, pp_flags = 0, pp_sessionId = sid, pp_payload = [],
     pp_bodyOffset = 16, pp_bodyLen = 0\<rparr>"

theorem sessions_stay_wf_witness:
  "\<exists>sm. ofold sm_step [SCreate (demo_parsed TLS 5 0), SSetState 9 AUTH, SErase 9]
      (mk_SessionManager, [Some 0, Some 9]) = Some (sm, []) \<and> sm_wf sm"
proof -
  have "ofold sm_step [SCreate (demo_parsed TLS 5 0), SSetState 9 AUTH, SErase 9]
      (mk_SessionManager, [Some 0, Some 9]) = Some (mk_SessionManager, [])"
    by (simp add: create_def mk_SessionManager_def demo_parsed_def emplace_def setState_def erase_def
        Session_bind_fields)
  with sessions_stay_wf show ?thesis by blast
qed

text \<open>
  C15. A login over TLS whose descriptor has no session yet, with an id that is not in use,
  gets exactly one new session in state PRE_AUTH; its reply is addressed to that TLS descriptor and
  the packet's peer, no other session is touched, and erasing the session restores both tables.
\<close>

theorem create_tls_session:
  assumes "map_of (m_tlsFdToSessionId sm) (pp_fd p) = None" "protocol (pp_connInfo p) = TLS"
    and "generateSecureSessionId rs = Some (sid, rs')" "session_of sm sid = None"
  shows "\<exists>sm'. create sm p rs = Some (sm', setSessionId p sid, rs', True) \<and>
    totalCount sm' = totalCount sm + 1 \<and>
    map_option s_state (session_of sm' sid) = Some PRE_AUTH \<and>
    map_option (\<lambda>t. (tx_protocol t, tx_tlsFd t, tx_connInfo t)) (getTxSnapshot sm' sid LOGIN_SUCCESS_RES)
      = Some (TLS, pp_fd p, pp_connInfo p) \<and>
    (\<forall>i. i \<noteq> sid \<longrightarrow> session_of sm' i = session_of sm i) \<and>
    erase sm' sid = sm"
proof -
  let ?s = "(Session_bind (mk_Session sid) p)\<lparr>s_state := PRE_AUTH\<rparr>"
  have "s_tlsFd ?s = pp_fd p" "s_connInfo ?s = pp_connInfo p"
    using assms(2) by (simp_all add: Session_bind_fields)
  then show ?thesis
    using create_new[OF assms(1,3,4)] assms(1,4)
    by (simp add: totalCount_def getTxSnapshot_def erase_def delete_snoc_fresh map_add_def
        split: option.split)
qed

theorem create_tls_session_witness:
  "\<exists>sm'. create mk_SessionManager (demo_parsed TLS 5 0) [Some 9] =
      Some (sm', demo_parsed TLS 5 9, [], True) \<and> erase sm' 9 = mk_SessionManager"
  using create_tls_session[of mk_SessionManager "demo_parsed TLS 5 0" "[Some 9]" 9 "[]"]
  by (auto simp: mk_SessionManager_def demo_parsed_def setSessionId_def)

text \<open>
  C20. The descriptor table is keyed by whatever descriptor the login came from but cleared by the
  session's TLS descriptor: after a refused login over TCP the session is gone, yet every further
  login request from that descriptor is refused as a duplicate.
\<close>

theorem tcp_login_blocks_fd:
  assumes "map_of (m_tlsFdToSessionId sm) (pp_fd p) = None" "protocol (pp_connInfo p) = TCP"
    and "generateSecureSessionId rs = Some (sid, rs')" "session_of sm sid = None"
    and "pp_fd q = pp_fd p" "pp_fd p \<noteq> - 1"
  shows "\<exists>sm' p'. create sm p rs = Some (sm', p', rs', True) \<and>
    session_of (erase sm' sid) sid = None \<and>
    create (erase sm' sid) q rs'' = Some (erase sm' sid, q, rs'', False)"
proof -
  let ?s = "(Session_bind (mk_Session sid) p)\<lparr>s_state := PRE_AUTH\<rparr>"
  have "s_tlsFd ?s = - 1" using assms(2) by (simp add: Session_bind_fields mk_Session_def)
  then show ?thesis
    using create_new[OF assms(1,3,4)] assms(1,4,5,6)
    by (simp add: session_of_erase create_def erase_def map_add_def)
qed

theorem tcp_login_blocks_fd_witness:
  "\<exists>sm' p'. create mk_SessionManager (demo_parsed TCP 5 0) [Some 9] = Some (sm', p', [], True) \<and>
    session_of (erase sm' 9) 9 = None \<and>
    create (erase sm' 9) (demo_parsed TLS 5 0) [Some 10] =
      Some (erase sm' 9, demo_parsed TLS 5 0, [Some 10], False)"
  using tcp_login_blocks_fd[of mk_SessionManager "demo_parsed TCP 5 0" "[Some 9]" 9 "[]"
      "demo_parsed TLS 5 0" "[Some 10]"]
  by (simp add: mk_SessionManager_def demo_parsed_def)

end
