(* ===== verification/Messages.thy ===== *)
theory Messages
  imports PacketModel
begin

text \<open>
  The stateless half of \<open>serverd/execution\<close>: the events and actions, the parsers that make an event
  of a parsed packet, the builders that make the payload of a reply, and the two factories
  (\<open>ingress/EventFactory\<close>, \<open>egress/ActionFactory\<close>); also the request builders of the simulator's
  \<open>Client\<close>. The message bodies of the comment in \<open>ParsedPacketTypes.h\<close> are \<open>login_body\<close>,
  \<open>lobby_body\<close>, \<open>ping_body\<close> and \<open>pong_body\<close>; the parsers and builders are shown to read and write
  exactly these, without leaving a buffer.
\<close>

subsection \<open>Events and actions\<close>

text \<open>
  The event keeps the payload and, as string views into it, id and password. A
  \<open>MarketDumpReqEvent\<close> carries a promise, named by a number.
\<close>

datatype Event =
    LoginReqEvent u64 bytes bytes bytes
  | LobbyEntryReqEvent u64 bytes
  | PingReqEvent u64 bytes u64 u64
  | MarketDumpReqEvent nat

datatype Action =
    LoginSuccessResAction u64 Opcode
  | LoginFailResAction u64 Opcode
  | LobbyEntryResAction u64 Opcode
  | PingResAction u64 Opcode u64 u64

subsection \<open>Parsers\<close>

text \<open>The result is \<open>None\<close> for a read outside the payload, \<open>Some None\<close> for \<open>nullptr\<close>.\<close>

definition parseLoginReq :: "ParsedPacket \<Rightarrow> Event option option" where
  "parseLoginReq parsed =
     (let (payload, parsed) = pp_takePayload parsed;
          HEADER_SIZE = 16; bodyLen = pp_bodyLen parsed
      in if length payload < HEADER_SIZE \<or> length payload < HEADER_SIZE + bodyLen then Some None
         else let len = bodyLen in
         if len < 2 then Some None
         else do {
           b \<leftarrow> mem_read payload (HEADER_SIZE + 0) 2;
           let idLen = unat (ntohs (of_mem b) :: u16); offset = 0 + 2 in
           if offset + idLen > len then Some None
           else do {
             id \<leftarrow> mem_read payload (HEADER_SIZE + offset) idLen;
             let offset = offset + idLen in
             if offset + 2 > len then Some None
             else do {
               b \<leftarrow> mem_read payload (HEADER_SIZE + offset) 2;
               let pwLen = unat (ntohs (of_mem b) :: u16); offset = offset + 2 in
               if offset + pwLen > len then Some None
               else do {
                 pw \<leftarrow> mem_read payload (HEADER_SIZE + offset) pwLen;
                 Some (Some (LoginReqEvent (pp_sessionId parsed) payload id pw))
               }
             }
           }
         })"

definition LoginParser_deserialize :: "ParsedPacket \<Rightarrow> Event option option" where
  "LoginParser_deserialize parsed =
     (case pp_opcode parsed of LOGIN_REQ \<Rightarrow> parseLoginReq parsed | _ \<Rightarrow> Some None)"

definition parseLobbyEntryReq :: "ParsedPacket \<Rightarrow> Event option option" where
  "parseLobbyEntryReq parsed =
     (let (payload, parsed) = pp_takePayload parsed;
          HEADER_SIZE = 16; bodyLen = pp_bodyLen parsed
      in if bodyLen \<noteq> 0 then Some None
         else if length payload < HEADER_SIZE then Some None
         else Some (Some (LobbyEntryReqEvent (pp_sessionId parsed) payload)))"

definition LobbyParser_deserialize :: "ParsedPacket \<Rightarrow> Event option option" where
  "LobbyParser_deserialize parsed =
     (case pp_opcode parsed of LOBBY_ENTRY_REQ \<Rightarrow> parseLobbyEntryReq parsed | _ \<Rightarrow> Some None)"

definition parsePingReq :: "ParsedPacket \<Rightarrow> Event option option" where
  "parsePingReq parsed =
     (let (payload, parsed) = pp_takePayload parsed;
          HEADER_SIZE = 16; BODY_SIZE = 16; bodyLen = pp_bodyLen parsed
      in if length payload < HEADER_SIZE \<or> length payload < HEADER_SIZE + bodyLen then Some None
         else if bodyLen \<noteq> BODY_SIZE then Some None
         else do {
           n \<leftarrow> mem_read payload (HEADER_SIZE + 0) 8;
           t \<leftarrow> mem_read payload (HEADER_SIZE + 8) 8;
           Some (Some (PingReqEvent (pp_sessionId parsed) payload (be64toh (of_mem n)) (be64toh (of_mem t))))
         })"

definition PingParser_deserialize :: "ParsedPacket \<Rightarrow> Event option option" where
  "PingParser_deserialize parsed =
     (case pp_opcode parsed of PING_REQ \<Rightarrow> parsePingReq parsed | _ \<Rightarrow> Some None)"

definition EventFactory_create :: "ParsedPacket \<Rightarrow> Event option option" where
  "EventFactory_create parsed =
     (case pp_opcode parsed of
        LOGIN_REQ \<Rightarrow> LoginParser_deserialize parsed
      | LOBBY_ENTRY_REQ \<Rightarrow> LobbyParser_deserialize parsed
      | PING_REQ \<Rightarrow> PingParser_deserialize parsed
      | _ \<Rightarrow> Some None)"

definition ActionFactory_create :: "Opcode \<Rightarrow> u64 \<Rightarrow> Action option" where
  "ActionFactory_create opcode sessionId =
     (case opcode of
        LOGIN_SUCCESS_RES \<Rightarrow> Some (LoginSuccessResAction sessionId opcode)
      | LOGIN_FAIL_RES \<Rightarrow> Some (LoginFailResAction sessionId opcode)
      | LOBBY_ENTRY_RES \<Rightarrow> Some (LobbyEntryResAction sessionId opcode)
      | _ \<Rightarrow> None)"

subsection \<open>Builders\<close>

definition buildLoginResSuccess :: "Opcode \<Rightarrow> u64 \<Rightarrow> bytes option" where
  "buildLoginResSuccess opcode sessionId =
     (let payload = replicate (16 + 1) 0 in
      do {
        payload \<leftarrow> mem_write payload 0 [0x01];
        payload \<leftarrow> mem_write payload 1 [u8_of_opcode opcode];
        payload \<leftarrow> mem_write payload 2 (mem_of 2 (htons 1));
        payload \<leftarrow> mem_write payload 4 (mem_of 8 (htobe64 sessionId));
        payload \<leftarrow> mem_write payload 12 (mem_of 4 (htonl 0));
        mem_write payload 16 [0x01]
      })"

definition buildLoginResFail :: "Opcode \<Rightarrow> u64 \<Rightarrow> bytes option" where
  "buildLoginResFail opcode sessionId =
     (let payload = replicate (16 + 1) 0 in
      do {
        payload \<leftarrow> mem_write payload 0 [0x01];
        payload \<leftarrow> mem_write payload 1 [u8_of_opcode opcode];
        payload \<leftarrow> mem_write payload 2 (mem_of 2 (htons 1));
        payload \<leftarrow> mem_write payload 4 (mem_of 8 (0 :: u64));
        payload \<leftarrow> mem_write payload 12 (mem_of 4 (htonl 0));
        mem_write payload 16 [0x00]
      })"

definition LoginBuilder_serialize :: "Opcode \<Rightarrow> u64 \<Rightarrow> bytes option" where
  "LoginBuilder_serialize opcode sessionId =
     (case opcode of
        LOGIN_SUCCESS_RES \<Rightarrow> buildLoginResSuccess opcode sessionId
      | LOGIN_FAIL_RES \<Rightarrow> buildLoginResFail opcode sessionId
      | _ \<Rightarrow> Some [])"

record MarketMeta =
  mm_id :: u8
  mm_alias :: bytes

text \<open>\<open>char aliasBuf[16] = {0}; strncpy(aliasBuf, m.alias.c_str(), 15)\<close>\<close>

definition alias_buf :: "bytes \<Rightarrow> bytes" where
  "alias_buf alias =
     (let s = take 15 (takeWhile (\<lambda>c. c \<noteq> 0) alias) in s @ replicate (16 - length s) 0)"

fun lobby_entries :: "MarketMeta list \<Rightarrow> bytes \<Rightarrow> nat \<Rightarrow> bytes option" where
  "lobby_entries [] payload offset = Some payload"
| "lobby_entries (m # ms) payload offset =
     do {
       payload \<leftarrow> mem_write payload offset [mm_id m];
       let offset = offset + 1;
       payload \<leftarrow> mem_write payload offset (alias_buf (mm_alias m));
       lobby_entries ms payload (offset + 16)
     }"

definition buildLobbyRes :: "Opcode \<Rightarrow> u64 \<Rightarrow> MarketMeta list \<Rightarrow> bytes option" where
  "buildLobbyRes opcode sessionId markets =
     (let count = of_nat (length markets) :: u16;
          bodyLen = 2 + unat count * 17;
          payload = replicate (16 + bodyLen) 0
      in do {
        payload \<leftarrow> mem_write payload 0 [0x01];
        payload \<leftarrow> mem_write payload 1 [u8_of_opcode opcode];
        payload \<leftarrow> mem_write payload 2 (mem_of 2 (htons (of_nat bodyLen)));
        payload \<leftarrow> mem_write payload 4 (mem_of 8 (htobe64 sessionId));
        payload \<leftarrow> mem_write payload 12 (mem_of 4 (htonl 0));
        payload \<leftarrow> mem_write payload 16 (mem_of 2 (htons count));
        lobby_entries markets payload 18
      })"

definition LobbyBuilder_serialize :: "Opcode \<Rightarrow> u64 \<Rightarrow> MarketMeta list \<Rightarrow> bytes option" where
  "LobbyBuilder_serialize opcode sessionId markets =
     (case opcode of LOBBY_ENTRY_RES \<Rightarrow> buildLobbyRes opcode sessionId markets | _ \<Rightarrow> Some [])"

text \<open>The clock that \<open>buildPingRes\<close> reads is its last argument.\<close>

definition buildPingRes :: "Opcode \<Rightarrow> u64 \<Rightarrow> u64 \<Rightarrow> u64 \<Rightarrow> u64 \<Rightarrow> bytes option" where
  "buildPingRes opcode sessionId nonce clientTs serverTs =
     (let BODY_LEN = (24 :: u16); pkt = replicate (16 + 24) 0 in
      do {
        pkt \<leftarrow> mem_write pkt 0 [0x01];
        pkt \<leftarrow> mem_write pkt 1 [u8_of_opcode opcode];
        pkt \<leftarrow> mem_write pkt 2 [ucast (drop_bit 8 BODY_LEN AND 0xFF)];
        pkt \<leftarrow> mem_write pkt 3 [ucast (BODY_LEN AND 0xFF)];
        pkt \<leftarrow> mem_write pkt 4 (mem_of 8 (htobe64 sessionId));
        pkt \<leftarrow> mem_write pkt 12 (replicate 4 0);
        pkt \<leftarrow> mem_write pkt 16 (mem_of 8 (htobe64 nonce));
        pkt \<leftarrow> mem_write pkt (16 + 8) (mem_of 8 (htobe64 clientTs));
        mem_write pkt (16 + 8 + 8) (mem_of 8 (htobe64 serverTs))
      })"

definition PingBuilder_serialize :: "Opcode \<Rightarrow> u64 \<Rightarrow> u64 \<Rightarrow> u64 \<Rightarrow> u64 \<Rightarrow> bytes option" where
  "PingBuilder_serialize opcode sessionId nonce clientTs serverTs =
     (case opcode of PING_RES \<Rightarrow> buildPingRes opcode sessionId nonce clientTs serverTs | _ \<Rightarrow> Some [])"

subsection \<open>The simulator's requests\<close>

definition Client_buildLoginReq :: "bytes option" where
  "Client_buildLoginReq =
     (let ident = ascii ''test''; pw = ascii ''test'';
          bodyLen = of_nat (2 + length ident + 2 + length pw) :: u16;
          pkt = replicate (16 + unat bodyLen) 0;
          idLen = of_nat (length ident) :: u16; pwLen = of_nat (length pw) :: u16
      in do {
        pkt \<leftarrow> mem_write pkt 0 [0x01];
        pkt \<leftarrow> mem_write pkt 1 [0x10];
        pkt \<leftarrow> mem_write pkt 2 [ucast (drop_bit 8 bodyLen)];
        pkt \<leftarrow> mem_write pkt 3 [ucast (bodyLen AND 0xFF)];
        pkt \<leftarrow> mem_write pkt 4 (mem_of 8 (0 :: u64));
        pkt \<leftarrow> mem_write pkt 12 (replicate 4 0);
        let off = 16;
        pkt \<leftarrow> mem_write pkt off [ucast (drop_bit 8 idLen)];
        pkt \<leftarrow> mem_write pkt (off + 1) [ucast (idLen AND 0xFF)];
        let off = off + 2;
        pkt \<leftarrow> mem_write pkt off (take (unat idLen) ident);
        let off = off + unat idLen;
        pkt \<leftarrow> mem_write pkt off [ucast (drop_bit 8 pwLen)];
        pkt \<leftarrow> mem_write pkt (off + 1) [ucast (pwLen AND 0xFF)];
        let off = off + 2;
        mem_write pkt off (take (unat pwLen) pw)
      })"

definition Client_buildLobbyEntryReq :: "u64 \<Rightarrow> bytes option" where
  "Client_buildLobbyEntryReq sessionId =
     (let pkt = replicate 16 0 in
      do {
        pkt \<leftarrow> mem_write pkt 0 [0x01];
        pkt \<leftarrow> mem_write pkt 1 [0x20];
        pkt \<leftarrow> mem_write pkt 2 [0x00];
        pkt \<leftarrow> mem_write pkt 3 [0x00];
        pkt \<leftarrow> mem_write pkt 4 (mem_of 8 (htobe64 sessionId));
        mem_write pkt 12 (replicate 4 0)
      })"

text \<open>\<open>m_pingSeq\<close> is counted up; the clock is the last argument.\<close>

definition Client_buildPingReq :: "u64 \<Rightarrow> u64 \<Rightarrow> u64 \<Rightarrow> (bytes \<times> u64) option" where
  "Client_buildPingReq sessionId pingSeq ts =
     (let BODY_LEN = (16 :: u16); pkt = replicate (16 + 16) 0; nonce = pingSeq + 1 in
      do {
        pkt \<leftarrow> mem_write pkt 0 [0x01];
        pkt \<leftarrow> mem_write pkt 1 [0x90];
        pkt \<leftarrow> mem_write pkt 2 [ucast (drop_bit 8 BODY_LEN AND 0xFF)];
        pkt \<leftarrow> mem_write pkt 3 [ucast (BODY_LEN AND 0xFF)];
        pkt \<leftarrow> mem_write pkt 4 (mem_of 8 (htobe64 sessionId));
        pkt \<leftarrow> mem_write pkt 12 (replicate 4 0);
        pkt \<leftarrow> mem_write pkt 16 (mem_of 8 (htobe64 nonce));
        pkt \<leftarrow> mem_write pkt (16 + 8) (mem_of 8 (htobe64 ts));
        Some (pkt, nonce)
      })"

subsection \<open>The message bodies\<close>

definition login_body :: "bytes \<Rightarrow> bytes \<Rightarrow> bytes" where
  "login_body ident pw =
     be_bytes 2 (of_nat (length ident) :: u16) @ ident @ be_bytes 2 (of_nat (length pw) :: u16) @ pw"

definition lobby_body :: "MarketMeta list \<Rightarrow> bytes" where
  "lobby_body ms = be_bytes 2 (of_nat (length ms) :: u16) @
     concat (map (\<lambda>m. mm_id m # alias_buf (mm_alias m)) ms)"

definition ping_body :: "u64 \<Rightarrow> u64 \<Rightarrow> bytes" where
  "ping_body nonce clientTs = be_bytes 8 nonce @ be_bytes 8 clientTs"

definition pong_body :: "u64 \<Rightarrow> u64 \<Rightarrow> u64 \<Rightarrow> bytes" where
  "pong_body nonce clientTs serverTs = ping_body nonce clientTs @ be_bytes 8 serverTs"

subsection \<open>Writing a buffer front to back\<close>

lemma mem_write_ok [simp]:
  "off + length xs \<le> length buf \<Longrightarrow> mem_write buf off xs = Some (blit buf off xs)"
  by (simp add: mem_write_def)

lemma mem_read_ok [simp]:
  "off + n \<le> length buf \<Longrightarrow> mem_read buf off n = Some (take n (drop off buf))"
  by simp

lemma blit_append: "off = length xs \<Longrightarrow> blit (xs @ ys) off bs = xs @ bs @ drop (length bs) ys"
  by (simp add: blit_def)

lemma header_writes:
  assumes "16 \<le> length buf" "length l = 2" "length s = 8" "length f = 4"
  shows "blit (blit (blit (blit (blit buf 0 [v]) (Suc 0) [c]) 2 l) 4 s) 12 f =
    [v, c] @ l @ s @ f @ drop 16 buf"
  using assms by (simp add: blit_def)

lemma header_writes_bytewise:
  assumes "16 \<le> length buf" "length s = 8" "length f = 4"
  shows "blit (blit (blit (blit (blit (blit buf 0 [v]) (Suc 0) [c]) 2 [a]) 3 [b]) 4 s) 12 f =
    [v, c, a, b] @ s @ f @ drop 16 buf"
  using assms by (simp add: blit_def)

lemma be_bytes_0 [simp]: "be_bytes n (0 :: 'a::len word) = replicate n 0"
  by (auto simp: be_bytes_def mem_of_def intro!: nth_equalityI simp: rev_nth)

lemma mem_of_0 [simp]: "mem_of n (0 :: 'a::len word) = replicate n 0"
  by (auto simp: mem_of_def intro!: nth_equalityI)

lemma length_alias_buf [simp]: "length (alias_buf a) = 16"
  by (simp add: alias_buf_def Let_def)

subsection \<open>The builders write the documented messages\<close>

lemma buildLoginResSuccess_eq:
  "buildLoginResSuccess opcode sid = Some (wire_packet 1 (u8_of_opcode opcode) sid 0 [1])"
  by (simp add: buildLoginResSuccess_def Let_def mem_simps header_writes)
    (simp add: blit_def wire_packet_def wire_header_def)

lemma buildLoginResFail_eq:
  "buildLoginResFail opcode sid = Some (wire_packet 1 (u8_of_opcode opcode) 0 0 [0])"
  by (simp add: buildLoginResFail_def Let_def mem_simps header_writes)
    (simp add: blit_def wire_packet_def wire_header_def)

lemma buildPingRes_eq:
  "buildPingRes opcode sid nonce cts sts =
     Some (wire_packet 1 (u8_of_opcode opcode) sid 0 (pong_body nonce cts sts))"
  by (simp add: buildPingRes_def Let_def mem_simps header_writes_bytewise)
    (simp add: blit_def wire_packet_def wire_header_def pong_body_def ping_body_def be_bytes_16)

lemma lobby_entries_eq:
  "offset = length xs \<Longrightarrow> length ys = 17 * length ms \<Longrightarrow>
   lobby_entries ms (xs @ ys) offset =
     Some (xs @ concat (map (\<lambda>m. mm_id m # alias_buf (mm_alias m)) ms))"
proof (induction ms arbitrary: xs ys offset)
  case (Cons m ms)
  let ?e = "mm_id m # alias_buf (mm_alias m)"
  have "lobby_entries (m # ms) (xs @ ys) offset = lobby_entries ms ((xs @ ?e) @ drop 17 ys) (offset + 17)"
    using Cons.prems by (simp add: blit_def add.commute)
  with Cons.IH[of "offset + 17" "xs @ ?e" "drop 17 ys"] Cons.prems show ?case by simp
qed simp

lemma length_lobby_body: "length (lobby_body ms) = 2 + 17 * length ms"
  by (induction ms) (simp_all add: lobby_body_def)

lemma buildLobbyRes_eq:
  assumes "2 + 17 * length ms < 65536"
  shows "buildLobbyRes opcode sid ms =
    Some (wire_packet 1 (u8_of_opcode opcode) sid 0 (lobby_body ms))"
proof -
  have c: "unat (of_nat (length ms) :: u16) = length ms" using assms by (simp add: unat_of_nat)
  let ?h = "wire_header 1 (u8_of_opcode opcode) (2 + 17 * length ms) sid 0"
  have "buildLobbyRes opcode sid ms =
      lobby_entries ms ((?h @ be_bytes 2 (of_nat (length ms) :: u16)) @ replicate (17 * length ms) 0) 18"
    by (simp add: buildLobbyRes_def Let_def mem_simps header_writes c mult.commute)
      (simp add: blit_def wire_header_def mult.commute)
  also have "\<dots> = Some (wire_packet 1 (u8_of_opcode opcode) sid 0 (lobby_body ms))"
    by (subst lobby_entries_eq) (simp_all add: wire_packet_def length_lobby_body, simp add: lobby_body_def)
  finally show ?thesis .
qed

lemma Client_buildLobbyEntryReq_eq:
  "Client_buildLobbyEntryReq sid = Some (wire_packet 1 0x20 sid 0 [])"
  by (simp add: Client_buildLobbyEntryReq_def Let_def mem_simps header_writes_bytewise)
    (simp add: wire_packet_def wire_header_def numeral_2_eq_2)

lemma Client_buildPingReq_eq:
  "Client_buildPingReq sid seq ts = Some (wire_packet 1 0x90 sid 0 (ping_body (seq + 1) ts), seq + 1)"
  by (simp add: Client_buildPingReq_def Let_def mem_simps header_writes_bytewise)
    (simp add: blit_def wire_packet_def wire_header_def ping_body_def be_bytes_16)

lemma Client_buildLoginReq_eq:
  "Client_buildLoginReq = Some (wire_packet 1 0x10 0 0 (login_body (ascii ''test'') (ascii ''test'')))"
  by code_simp

subsection \<open>The parsers read the documented messages\<close>

definition body_of :: "ParsedPacket \<Rightarrow> bytes" where
  "body_of q = take (pp_bodyLen q) (drop 16 (pp_payload q))"

lemma body_read:
  assumes "off + n \<le> pp_bodyLen q"
  shows "take n (drop off (body_of q)) = take n (drop (16 + off) (pp_payload q))"
  using assms by (simp add: body_of_def drop_take min_def add.commute)

text \<open>What the login parser computes, on the body alone.\<close>

definition login_fields :: "bytes \<Rightarrow> (bytes \<times> bytes) option" where
  "login_fields b =
     (if length b < 2 then None
      else let n = unat (be_val (take 2 b) :: u16) in
      if 2 + n + 2 > length b then None
      else let m = unat (be_val (take 2 (drop (2 + n) b)) :: u16) in
      if 2 + n + 2 + m > length b then None
      else Some (take n (drop 2 b), take m (drop (2 + n + 2) b)))"

lemma parseLoginReq_fields:
  assumes "16 + pp_bodyLen q \<le> length (pp_payload q)"
  shows "parseLoginReq q = Some (map_option
    (\<lambda>(i, p). LoginReqEvent (pp_sessionId q) (pp_payload q) i p) (login_fields (body_of q)))"
proof -
  let ?pl = "pp_payload q" and ?len = "pp_bodyLen q" and ?b = "body_of q"
  have len: "length ?b = ?len" using assms by (simp add: body_of_def)
  define n where "n = unat (be_val (take 2 ?b) :: u16)"
  define m where "m = unat (be_val (take 2 (drop (2 + n) ?b)) :: u16)"
  have n: "unat (ntohs (of_mem (take 2 (drop 16 ?pl)))) = n" if "2 \<le> ?len"
    using that assms body_read[of 0 2 q] by (simp add: n_def ntoh_of_mem)
  have m: "unat (ntohs (of_mem (take 2 (drop (16 + (2 + n)) ?pl)))) = m" if "2 + n + 2 \<le> ?len"
    using that assms body_read[of "2 + n" 2 q] by (simp add: m_def ntoh_of_mem del: add_2_eq_Suc)
  have f: "login_fields ?b = (if ?len < 2 \<or> 2 + n + 2 > ?len \<or> 2 + n + 2 + m > ?len then None
      else Some (take n (drop (16 + 2) ?pl), take m (drop (16 + (2 + n + 2)) ?pl)))"
    using body_read[of 2 n q] body_read[of "2 + n + 2" m q]
    by (simp add: login_fields_def len n_def[symmetric] m_def[symmetric] Let_def
        del: add_2_eq_Suc add_2_eq_Suc')
  note d = parseLoginReq_def pp_takePayload_def Let_def
  consider "?len < 2" | "2 \<le> ?len" "2 + n > ?len" | "2 \<le> ?len" "2 + n \<le> ?len" "2 + n + 2 > ?len"
    | "2 + n + 2 \<le> ?len" by linarith
  then show ?thesis
    by cases (use assms n m in \<open>simp_all add: f d add.assoc del: add_2_eq_Suc add_2_eq_Suc'\<close>)
qed

lemma login_fields_body:
  assumes "length i < 65536" "length p < 65536"
  shows "login_fields (login_body i p @ rest) = Some (i, p)"
  using assms by (simp add: login_fields_def login_body_def Let_def unat_of_nat)

lemma login_fields_SomeD:
  assumes "login_fields b = Some (i, p)"
  shows "\<exists>rest. b = login_body i p @ rest" "length i < 65536" "length p < 65536"
proof -
  define n where "n = unat (be_val (take 2 b) :: u16)"
  define m where "m = unat (be_val (take 2 (drop (2 + n) b)) :: u16)"
  from assms have len: "2 + n + 2 + m \<le> length b"
    and i: "i = take n (drop 2 b)" and p: "p = take m (drop (2 + n + 2) b)"
    by (auto simp: login_fields_def Let_def n_def m_def split: if_splits)
  have li: "length i = n" "length p = m" using len i p by simp_all
  have n16: "n < 65536" "m < 65536"
    using unsigned_less[of "be_val (take 2 b) :: u16", where 'a = nat]
      unsigned_less[of "be_val (take 2 (drop (2 + n) b)) :: u16", where 'a = nat]
    by (simp_all add: n_def m_def)
  with li show "length i < 65536" "length p < 65536" by simp_all
  have "be_bytes 2 (of_nat n :: u16) = take 2 b" "be_bytes 2 (of_nat m :: u16) = take 2 (drop (2 + n) b)"
    using len by (simp_all add: n_def m_def be_bytes_be_val_16)
  moreover have "b = take 2 b @ take n (drop 2 b) @ take 2 (drop (2 + n) b) @ drop (2 + n + 2) b"
    using append_take_drop_id[of 2 b] append_take_drop_id[of n "drop 2 b"]
      append_take_drop_id[of 2 "drop (2 + n) b"] by (simp add: add.commute)
  moreover have "drop (2 + n + 2) b = p @ drop m (drop (2 + n + 2) b)"
    unfolding p by (rule append_take_drop_id[symmetric])
  ultimately have "b = login_body i p @ drop m (drop (2 + n + 2) b)"
    unfolding login_body_def li i[symmetric] by (metis append.assoc i)
  then show "\<exists>rest. b = login_body i p @ rest" by blast
qed

lemma parsePingReq_eq:
  assumes "16 + pp_bodyLen q \<le> length (pp_payload q)"
  shows "parsePingReq q = Some (if pp_bodyLen q = 16
    then Some (PingReqEvent (pp_sessionId q) (pp_payload q)
      (be_val (take 8 (body_of q))) (be_val (take 8 (drop 8 (body_of q))))) else None)"
  using assms body_read[of 0 8 q] body_read[of 8 8 q]
  by (simp add: parsePingReq_def pp_takePayload_def Let_def mem_simps)

lemma parsed_body:
  assumes "PacketParser_parse (Some p) = Some q"
  shows "16 + pp_bodyLen q \<le> length (pp_payload q)" "length (body_of q) = pp_bodyLen q"
  using assms by (auto simp: parse_eq Let_def parsed_of_def body_of_def split: if_splits)

lemma EventFactory_cases:
  "EventFactory_create q = (if pp_opcode q = LOGIN_REQ then parseLoginReq q
     else if pp_opcode q = LOBBY_ENTRY_REQ then parseLobbyEntryReq q
     else if pp_opcode q = PING_REQ then parsePingReq q else Some None)"
  by (simp add: EventFactory_create_def LoginParser_deserialize_def LobbyParser_deserialize_def
      PingParser_deserialize_def split: Opcode.split)

lemma event_of_wire:
  assumes "pk_payload p = wire_packet ver (u8_of_opcode oc) sid flags body" "length body < 65536"
    and "oc = opcode_of_u8 (u8_of_opcode oc)"
  obtains q where "PacketParser_parse (Some p) = Some q" "pp_sessionId q = sid" "pp_opcode q = oc"
    "body_of q = body" "pp_bodyLen q = length body" "pp_payload q = pk_payload p"
proof
  let ?q = "parsed_of p ver (u8_of_opcode oc) sid flags (length body)"
  show "PacketParser_parse (Some p) = Some ?q"
    using parse_wire_packet[of p ver "u8_of_opcode oc" sid flags body "[]"] assms by simp
  show "pp_opcode ?q = oc" using assms(3) by (simp add: parsed_of_def)
  show "body_of ?q = body" by (simp add: body_of_def parsed_of_def assms(1) wire_packet_def)
qed (simp_all add: parsed_of_def)

subsection \<open>Properties\<close>

text \<open>
  C16. Of a packet that the parser accepted, the event factory never reads outside the payload, and
  a LOGIN_REQ becomes a login event exactly when its body starts with a length-prefixed id
  and a length-prefixed password; the event carries these two strings.
\<close>

theorem login_request_iff:
  assumes "PacketParser_parse (Some p) = Some q" "pp_opcode q = LOGIN_REQ"
  shows "\<exists>r. EventFactory_create q = Some r \<and>
    (\<forall>ev. r = Some ev \<longleftrightarrow> (\<exists>ident pw rest. body_of q = login_body ident pw @ rest \<and>
       length ident < 65536 \<and> length pw < 65536 \<and>
       ev = LoginReqEvent (pp_sessionId q) (pp_payload q) ident pw))"
proof -
  have "EventFactory_create q = Some (map_option
      (\<lambda>(i, p). LoginReqEvent (pp_sessionId q) (pp_payload q) i p) (login_fields (body_of q)))"
    using assms(2) parseLoginReq_fields[OF parsed_body(1)[OF assms(1)]] by (simp add: EventFactory_cases)
  then show ?thesis
    by (auto dest: login_fields_SomeD simp: login_fields_body)
qed

text \<open>A login request as it arrives.\<close>

definition demo_packet :: "Protocol \<Rightarrow> bytes \<Rightarrow> Packet" where
  "demo_packet proto payload = \<lparr>pk_fd = 7,
     pk_connInfo = \<lparr>protocol = proto, srcIp = 1, srcPort = 2, dstIp = 3, dstPort = 4\<rparr>,
     pk_payload = payload, pk_txOffset = 0\<rparr>"

theorem login_request_iff_witness:
  "\<exists>q. PacketParser_parse (Some (demo_packet TLS
        (wire_packet 1 0x10 0 0 (login_body (ascii ''ab'') (ascii ''c''))))) = Some q \<and>
     EventFactory_create q = Some (Some
       (LoginReqEvent 0 (pp_payload q) (ascii ''ab'') (ascii ''c'')))"
proof -
  let ?b = "login_body (ascii ''ab'') (ascii ''c'')"
  let ?p = "demo_packet TLS (wire_packet 1 0x10 0 0 ?b)"
  have l: "length (ascii ''ab'') = 2" "length (ascii ''c'') = 1" by (simp_all add: ascii_def)
  obtain q where q: "PacketParser_parse (Some ?p) = Some q" "pp_sessionId q = 0"
    "pp_opcode q = LOGIN_REQ" "body_of q = ?b"
    by (rule event_of_wire[of ?p 1 LOGIN_REQ 0 0 ?b]) (simp_all add: demo_packet_def login_body_def l)
  let ?ev = "LoginReqEvent 0 (pp_payload q) (ascii ''ab'') (ascii ''c'')"
  have e: "\<exists>ident pw rest. body_of q = login_body ident pw @ rest \<and> length ident < 65536 \<and>
      length pw < 65536 \<and> ?ev = LoginReqEvent (pp_sessionId q) (pp_payload q) ident pw"
    using q(2,4) l
    by (intro exI[of _ "ascii ''ab''"] exI[of _ "ascii ''c''"] exI[of _ "[]"]) simp
  from login_request_iff[OF q(1,3)] have "EventFactory_create q = Some (Some ?ev)"
  proof (elim exE conjE)
    fix r assume "EventFactory_create q = Some r" and r: "\<forall>ev. r = Some ev \<longleftrightarrow>
      (\<exists>ident pw rest. body_of q = login_body ident pw @ rest \<and> length ident < 65536 \<and>
       length pw < 65536 \<and> ev = LoginReqEvent (pp_sessionId q) (pp_payload q) ident pw)"
    then show ?thesis using r[THEN spec, of ?ev] e by simp
  qed
  with q(1) show ?thesis by blast
qed

text \<open>
  C17. What the simulator's client sends, the server understands: its login, lobby and ping
  requests are built without leaving the buffer and become the events with the client's id and
  password, session id, counted-up nonce and time stamp.
\<close>

theorem client_requests_understood:
  "\<exists>login lobby ping. Client_buildLoginReq = Some login \<and> Client_buildLobbyEntryReq sid = Some lobby \<and>
     Client_buildPingReq sid seq ts = Some (ping, seq + 1) \<and>
     map_option EventFactory_create (PacketParser_parse (Some (p\<lparr>pk_payload := login\<rparr>))) =
       Some (Some (Some (LoginReqEvent 0 login (ascii ''test'') (ascii ''test'')))) \<and>
     map_option EventFactory_create (PacketParser_parse (Some (p\<lparr>pk_payload := lobby\<rparr>))) =
       Some (Some (Some (LobbyEntryReqEvent sid lobby))) \<and>
     map_option EventFactory_create (PacketParser_parse (Some (p\<lparr>pk_payload := ping\<rparr>))) =
       Some (Some (Some (PingReqEvent sid ping (seq + 1) ts)))"
proof -
  let ?lb = "login_body (ascii ''test'') (ascii ''test'')" and ?pb = "ping_body (seq + 1) ts"
  let ?login = "wire_packet 1 0x10 0 0 ?lb" and ?lobby = "wire_packet 1 0x20 sid 0 []"
    and ?ping = "wire_packet 1 0x90 sid 0 ?pb"
  have l: "length (ascii ''test'') = 4" by (simp add: ascii_def)
  obtain q1 where q1: "PacketParser_parse (Some (p\<lparr>pk_payload := ?login\<rparr>)) = Some q1"
    "pp_sessionId q1 = 0" "pp_opcode q1 = LOGIN_REQ" "body_of q1 = ?lb" "pp_payload q1 = ?login"
    by (rule event_of_wire[of "p\<lparr>pk_payload := ?login\<rparr>" 1 LOGIN_REQ 0 0 ?lb])
      (simp_all add: login_body_def l)
  obtain q2 where q2: "PacketParser_parse (Some (p\<lparr>pk_payload := ?lobby\<rparr>)) = Some q2"
    "pp_sessionId q2 = sid" "pp_opcode q2 = LOBBY_ENTRY_REQ" "pp_bodyLen q2 = 0" "pp_payload q2 = ?lobby"
    by (rule event_of_wire[of "p\<lparr>pk_payload := ?lobby\<rparr>" 1 LOBBY_ENTRY_REQ sid 0 "[]"]) simp_all
  obtain q3 where q3: "PacketParser_parse (Some (p\<lparr>pk_payload := ?ping\<rparr>)) = Some q3"
    "pp_sessionId q3 = sid" "pp_opcode q3 = PING_REQ" "body_of q3 = ?pb" "pp_bodyLen q3 = 16"
    "pp_payload q3 = ?ping"
    by (rule event_of_wire[of "p\<lparr>pk_payload := ?ping\<rparr>" 1 PING_REQ sid 0 ?pb])
      (simp_all add: ping_body_def)
  have "EventFactory_create q1 = Some (Some (LoginReqEvent 0 ?login (ascii ''test'') (ascii ''test'')))"
    using q1 parseLoginReq_fields[OF parsed_body(1)[OF q1(1)]] login_fields_body[of _ _ "[]"] l
    by (simp add: EventFactory_cases)
  moreover have "EventFactory_create q2 = Some (Some (LobbyEntryReqEvent sid ?lobby))"
    using q2 by (simp add: EventFactory_cases parseLobbyEntryReq_def pp_takePayload_def Let_def)
  moreover have "EventFactory_create q3 = Some (Some (PingReqEvent sid ?ping (seq + 1) ts))"
    using q3 parsePingReq_eq[OF parsed_body(1)[OF q3(1)]] by (simp add: EventFactory_cases ping_body_def)
  ultimately show ?thesis
    using q1(1) q2(1) q3(1)
    by (simp add: Client_buildLoginReq_eq Client_buildLobbyEntryReq_eq Client_buildPingReq_eq)
qed



end
