(* ===== verification/Egress.thy ===== *)
theory Egress
  imports Session Messages Queues
begin

text \<open>
  The way out: \<open>packet/PacketBuilder\<close>, the transmit ports of the three servers (\<open>enqueueTx\<close> of the
  servers and their reactors) and \<open>egress/TxRouter\<close>. A port is a reactor's transmit queue together
  with the number of wakeups its epoll was given.
\<close>

subsection \<open>PacketBuilder\<close>

definition AF_INET :: u16 where "AF_INET = 2"

definition createSockAddr :: "u32 \<Rightarrow> u16 \<Rightarrow> sockaddr_in" where
  "createSockAddr ip port = \<lparr>sin_family = AF_INET, sin_addr = htonl ip, sin_port = htons port\<rparr>"

definition PacketBuilder_build :: "bytes \<Rightarrow> SessionTxSnapshot \<Rightarrow> Packet option" where
  "PacketBuilder_build payload snap =
     (let ci = tx_connInfo snap;
          srcAddr = createSockAddr (dstIp ci) (dstPort ci);
          dstAddr = createSockAddr (srcIp ci) (srcPort ci)
      in case tx_protocol snap of
           TCP \<Rightarrow> Some (mk_Packet (tx_tcpFd snap) TCP payload srcAddr dstAddr)
         | TLS \<Rightarrow> Some (mk_Packet (tx_tlsFd snap) TLS payload srcAddr dstAddr)
         | UDP \<Rightarrow> Some (mk_Packet (tx_udpFd snap) UDP payload srcAddr dstAddr)
         | UNKNOWN \<Rightarrow> None)"

subsection \<open>Transmit ports\<close>

record TxPort =
  tp_queue :: "Packet MpscQueue"
  tp_wakeups :: nat

definition TcpReactor_enqueueTx :: "TxPort \<Rightarrow> Packet option \<Rightarrow> TxPort option" where
  "TcpReactor_enqueueTx port pkt =
     (case pkt of
        None \<Rightarrow> Some port
      | Some p \<Rightarrow>
          do {
            (q, ok) \<leftarrow> mpsc_enqueue (tp_queue port) p;
            Some (if ok then port\<lparr>tp_queue := q, tp_wakeups := tp_wakeups port + 1\<rparr>
                  else port\<lparr>tp_queue := q\<rparr>)
          })"

definition TlsReactor_enqueueTx :: "TxPort \<Rightarrow> Packet option \<Rightarrow> TxPort option" where
  "TlsReactor_enqueueTx port pkt =
     (case pkt of
        None \<Rightarrow> Some port
      | Some p \<Rightarrow>
          do {
            (q, ok) \<leftarrow> mpsc_enqueue (tp_queue port) p;
            Some (if ok then port\<lparr>tp_queue := q, tp_wakeups := tp_wakeups port + 1\<rparr>
                  else port\<lparr>tp_queue := q\<rparr>)
          })"

definition UdpReactor_enqueueTx :: "TxPort \<Rightarrow> Packet option \<Rightarrow> TxPort option" where
  "UdpReactor_enqueueTx port pkt =
     (case pkt of
        None \<Rightarrow> Some port
      | Some p \<Rightarrow>
          do {
            (q, ok) \<leftarrow> mpsc_enqueue (tp_queue port) p;
            Some (if ok then port\<lparr>tp_queue := q, tp_wakeups := tp_wakeups port + 1\<rparr>
                  else port\<lparr>tp_queue := q\<rparr>)
          })"

text \<open>The servers own their reactor from construction on and pass the packet on.\<close>

definition TcpServer_enqueueTx :: "TxPort \<Rightarrow> Packet option \<Rightarrow> TxPort option" where
  "TcpServer_enqueueTx = TcpReactor_enqueueTx"

definition TlsServer_enqueueTx :: "TxPort \<Rightarrow> Packet option \<Rightarrow> TxPort option" where
  "TlsServer_enqueueTx = TlsReactor_enqueueTx"

definition UdpServer_enqueueTx :: "TxPort \<Rightarrow> Packet option \<Rightarrow> TxPort option" where
  "UdpServer_enqueueTx = UdpReactor_enqueueTx"

subsection \<open>TxRouter\<close>

text \<open>The router's four pointers: the session manager and the servers, \<open>None\<close> where null.\<close>

record Egress =
  eg_sessions :: SessionManager
  eg_tls :: "TxPort option"
  eg_tcp :: "TxPort option"
  eg_udp :: "TxPort option"

definition tx_state_change :: "SessionManager \<Rightarrow> u64 \<Rightarrow> Opcode \<Rightarrow> SessionManager" where
  "tx_state_change sm sessionId opcode =
     (if opcode = LOGIN_SUCCESS_RES then setState sm sessionId AUTH
      else if opcode = LOGIN_FAIL_RES then erase sm sessionId
      else if opcode = LOBBY_ENTRY_RES then setState sm sessionId IN_WORLD
      else sm)"

definition TxRouter_handlePacket :: "Egress \<Rightarrow> u64 \<Rightarrow> Opcode \<Rightarrow> bytes \<Rightarrow> Egress option" where
  "TxRouter_handlePacket eg sessionId opcode payload =
     (case getTxSnapshot (eg_sessions eg) sessionId opcode of
        None \<Rightarrow> Some eg
      | Some snap \<Rightarrow>
          (let eg = eg\<lparr>eg_sessions := tx_state_change (eg_sessions eg) sessionId opcode\<rparr> in
           case PacketBuilder_build payload snap of
             None \<Rightarrow> Some eg
           | Some packet \<Rightarrow>
               (case protocol (pk_connInfo packet) of
                  TLS \<Rightarrow> (case eg_tls eg of None \<Rightarrow> Some eg | Some port \<Rightarrow>
                    do { port \<leftarrow> TlsServer_enqueueTx port (Some packet); Some (eg\<lparr>eg_tls := Some port\<rparr>) })
                | TCP \<Rightarrow> (case eg_tcp eg of None \<Rightarrow> Some eg | Some port \<Rightarrow>
                    do { port \<leftarrow> TcpServer_enqueueTx port (Some packet); Some (eg\<lparr>eg_tcp := Some port\<rparr>) })
                | UDP \<Rightarrow> (case eg_udp eg of None \<Rightarrow> Some eg | Some port \<Rightarrow>
                    do { port \<leftarrow> UdpServer_enqueueTx port (Some packet); Some (eg\<lparr>eg_udp := Some port\<rparr>) })
                | UNKNOWN \<Rightarrow> Some eg)))"

subsection \<open>Ports and routing keep their invariants\<close>

definition port_wf :: "TxPort \<Rightarrow> bool" where
  "port_wf port \<longleftrightarrow> mpsc_wf (tp_queue port)"

definition port_list :: "TxPort \<Rightarrow> Packet list" where
  "port_list port = mpsc_list (tp_queue port)"

definition port_room :: "TxPort \<Rightarrow> bool" where
  "port_room port \<longleftrightarrow> length (port_list port) < unat (mq_capacity (tp_queue port))"

definition egress_wf :: "Egress \<Rightarrow> bool" where
  "egress_wf eg \<longleftrightarrow> sm_wf (eg_sessions eg) \<and> pred_option port_wf (eg_tls eg) \<and>
     pred_option port_wf (eg_tcp eg) \<and> pred_option port_wf (eg_udp eg)"

lemma enqueueTx_same [simp]:
  "TlsServer_enqueueTx = TcpReactor_enqueueTx" "TcpServer_enqueueTx = TcpReactor_enqueueTx"
  "UdpServer_enqueueTx = TcpReactor_enqueueTx"
  by (simp_all add: TlsServer_enqueueTx_def TcpServer_enqueueTx_def UdpServer_enqueueTx_def
      TcpReactor_enqueueTx_def TlsReactor_enqueueTx_def UdpReactor_enqueueTx_def fun_eq_iff)

lemma enqueueTx_cases:
  assumes "port_wf port"
  obtains (room) port' where "port_room port" "TcpReactor_enqueueTx port (Some p) = Some port'"
      "port_wf port'" "port_list port' = port_list port @ [p]" "tp_wakeups port' = tp_wakeups port + 1"
      "mq_capacity (tp_queue port') = mq_capacity (tp_queue port)"
    | (full) port' where "\<not> port_room port" "TcpReactor_enqueueTx port (Some p) = Some port'"
      "port_wf port'" "port_list port' = port_list port" "tp_wakeups port' = tp_wakeups port"
      "mq_capacity (tp_queue port') = mq_capacity (tp_queue port)"
proof -
  from mpsc_enqueue_wf[of "tp_queue port" p] assms obtain q where
    q: "mpsc_enqueue (tp_queue port) p = Some (q, port_room port)" "mpsc_wf q"
      "mq_capacity q = mq_capacity (tp_queue port)"
      "mpsc_list q = (if port_room port then port_list port @ [p] else port_list port)"
    by (auto simp: port_wf_def port_room_def port_list_def)
  show ?thesis
  proof (cases "port_room port")
    case True
    with q show ?thesis
      by (intro room[of "port\<lparr>tp_queue := q, tp_wakeups := tp_wakeups port + 1\<rparr>"])
        (simp_all add: TcpReactor_enqueueTx_def port_wf_def port_list_def)
  next
    case False
    with q show ?thesis
      by (intro full[of "port\<lparr>tp_queue := q\<rparr>"])
        (simp_all add: TcpReactor_enqueueTx_def port_wf_def port_list_def)
  qed
qed

lemma sm_wf_tx_state_change [inv_intros]: "sm_wf sm \<Longrightarrow> sm_wf (tx_state_change sm sid oc)"
  by (auto simp: tx_state_change_def intro: inv_intros)

text \<open>The packet that answers a session: to its descriptor of the reply's protocol, with the
  peer of the last packet bound to it.\<close>

definition reply_fd :: "Session \<Rightarrow> Protocol \<Rightarrow> fd" where
  "reply_fd s p = (case p of TLS \<Rightarrow> s_tlsFd s | TCP \<Rightarrow> s_tcpFd s | UDP \<Rightarrow> s_udpFd s | UNKNOWN \<Rightarrow> - 1)"

definition reply_packet :: "Session \<Rightarrow> Protocol \<Rightarrow> bytes \<Rightarrow> Packet" where
  "reply_packet s p payload =
     \<lparr>pk_fd = reply_fd s p,
      pk_connInfo = \<lparr>protocol = p, srcIp = dstIp (s_connInfo s), srcPort = dstPort (s_connInfo s),
        dstIp = srcIp (s_connInfo s), dstPort = srcPort (s_connInfo s)\<rparr>,
      pk_payload = payload, pk_txOffset = 0\<rparr>"

lemma build_reply:
  assumes "session_of sm sid = Some s" "tx_protocol_of oc = Some p"
  shows "\<exists>snap. getTxSnapshot sm sid oc = Some snap \<and>
    PacketBuilder_build payload snap = Some (reply_packet s p payload)"
  using assms(2)
  by (cases oc) (auto simp: getTxSnapshot_def assms(1) PacketBuilder_build_def mk_Packet_def
      createSockAddr_def reply_packet_def reply_fd_def Let_def)

fun egress_port :: "Egress \<Rightarrow> Protocol \<Rightarrow> TxPort option" where
  "egress_port eg TLS = eg_tls eg"
| "egress_port eg TCP = eg_tcp eg"
| "egress_port eg UDP = eg_udp eg"
| "egress_port eg UNKNOWN = None"

fun set_port :: "Protocol \<Rightarrow> TxPort \<Rightarrow> Egress \<Rightarrow> Egress" where
  "set_port TLS p eg = eg\<lparr>eg_tls := Some p\<rparr>"
| "set_port TCP p eg = eg\<lparr>eg_tcp := Some p\<rparr>"
| "set_port UDP p eg = eg\<lparr>eg_udp := Some p\<rparr>"
| "set_port UNKNOWN p eg = eg"

lemma protocol_reply [simp]: "protocol (pk_connInfo (reply_packet s p pl)) = p"
  by (simp add: reply_packet_def)

lemma tx_protocol_known: "tx_protocol_of oc = Some p \<Longrightarrow> p \<noteq> UNKNOWN"
  by (cases oc) auto

text \<open>The router in one equation: drop, or change the session's state and enqueue the reply.\<close>

lemma TxRouter_eq:
  "TxRouter_handlePacket eg sid oc payload =
     (case (session_of (eg_sessions eg) sid, tx_protocol_of oc) of
        (Some s, Some p) \<Rightarrow>
          (let eg' = eg\<lparr>eg_sessions := tx_state_change (eg_sessions eg) sid oc\<rparr> in
           case egress_port eg p of
             None \<Rightarrow> Some eg'
           | Some port \<Rightarrow> map_option (\<lambda>port'. set_port p port' eg')
               (TcpReactor_enqueueTx port (Some (reply_packet s p payload))))
      | _ \<Rightarrow> Some eg)"
proof (cases "session_of (eg_sessions eg) sid")
  case None
  then show ?thesis by (simp add: TxRouter_handlePacket_def getTxSnapshot_def)
next
  case (Some s)
  show ?thesis
  proof (cases "tx_protocol_of oc")
    case None
    with Some show ?thesis by (simp add: TxRouter_handlePacket_def getTxSnapshot_def)
  next
    case (Some p)
    from build_reply[OF \<open>session_of (eg_sessions eg) sid = Some s\<close> Some, of payload]
    obtain snap where "getTxSnapshot (eg_sessions eg) sid oc = Some snap"
      "PacketBuilder_build payload snap = Some (reply_packet s p payload)" by blast
    with Some \<open>session_of (eg_sessions eg) sid = Some s\<close> tx_protocol_known[OF Some] show ?thesis
      by (cases p) (auto simp: TxRouter_handlePacket_def Let_def map_conv_bind_option
          comp_def split: option.splits)
  qed
qed

lemma egress_wf_port: "egress_wf eg \<Longrightarrow> egress_port eg p = Some port \<Longrightarrow> port_wf port"
  by (cases p) (auto simp: egress_wf_def)

lemma egress_wf_set_port: "egress_wf eg \<Longrightarrow> port_wf port \<Longrightarrow> egress_wf (set_port p port eg)"
  by (cases p) (auto simp: egress_wf_def)

lemma egress_wf_sessions: "egress_wf eg \<Longrightarrow> sm_wf sm \<Longrightarrow> egress_wf (eg\<lparr>eg_sessions := sm\<rparr>)"
  by (simp add: egress_wf_def)

lemma TxRouter_wf:
  assumes "egress_wf eg"
  shows "\<exists>eg'. TxRouter_handlePacket eg sid oc payload = Some eg' \<and> egress_wf eg'"
proof -
  let ?sm = "tx_state_change (eg_sessions eg) sid oc"
  have wf: "egress_wf (eg\<lparr>eg_sessions := ?sm\<rparr>)"
    using assms by (intro egress_wf_sessions) (auto simp: egress_wf_def intro: inv_intros)
  show ?thesis
  proof (cases "session_of (eg_sessions eg) sid = None \<or> tx_protocol_of oc = None")
    case True
    with assms show ?thesis by (auto simp: TxRouter_eq split: option.split)
  next
    case False
    then obtain s p where sp: "session_of (eg_sessions eg) sid = Some s" "tx_protocol_of oc = Some p"
      by auto
    show ?thesis
    proof (cases "egress_port eg p")
      case None
      with sp wf show ?thesis by (simp add: TxRouter_eq)
    next
      case (Some port)
      then obtain port' where "TcpReactor_enqueueTx port (Some (reply_packet s p payload)) = Some port'"
        "port_wf port'"
        using enqueueTx_cases[OF egress_wf_port[OF assms Some], of "reply_packet s p payload"] by metis
      with sp Some wf show ?thesis by (simp add: TxRouter_eq egress_wf_set_port)
    qed
  qed
qed

lemma TxRouter_delivers:
  assumes "egress_wf eg" "session_of (eg_sessions eg) sid = Some s" "tx_protocol_of oc = Some p"
    and "egress_port eg p = Some port" "port_room port"
  shows "\<exists>eg' port'. TxRouter_handlePacket eg sid oc payload = Some eg' \<and>
    egress_port eg' p = Some port' \<and>
    port_list port' = port_list port @ [reply_packet s p payload] \<and>
    tp_wakeups port' = tp_wakeups port + 1 \<and>
    (\<forall>r. r \<noteq> p \<longrightarrow> egress_port eg' r = egress_port eg r) \<and>
    session_of (eg_sessions eg') sid =
      (if oc = LOGIN_FAIL_RES then None
       else Some (s\<lparr>s_state := if oc = LOGIN_SUCCESS_RES then AUTH
         else if oc = LOBBY_ENTRY_RES then IN_WORLD else s_state s\<rparr>)) \<and>
    (\<forall>i. i \<noteq> sid \<longrightarrow> session_of (eg_sessions eg') i = session_of (eg_sessions eg) i)"
proof -
  let ?eg = "eg\<lparr>eg_sessions := tx_state_change (eg_sessions eg) sid oc\<rparr>"
  from egress_wf_port[OF assms(1,4)] obtain port' where p:
    "TcpReactor_enqueueTx port (Some (reply_packet s p payload)) = Some port'"
    "port_list port' = port_list port @ [reply_packet s p payload]"
    "tp_wakeups port' = tp_wakeups port + 1"
    by (rule enqueueTx_cases[where p = "reply_packet s p payload"]) (use assms(5) in auto)
  have "TxRouter_handlePacket eg sid oc payload = Some (set_port p port' ?eg)"
    using assms(2,3,4) p(1) by (simp add: TxRouter_eq)
  moreover have "egress_port (set_port p port' ?eg) p = Some port'"
    using tx_protocol_known[OF assms(3)] by (cases p) auto
  moreover have "egress_port (set_port p port' ?eg) r = egress_port eg r" if "r \<noteq> p" for r
    using that by (cases p; cases r) auto
  moreover have "eg_sessions (set_port p port' ?eg) = tx_state_change (eg_sessions eg) sid oc"
    by (cases p) auto
  ultimately show ?thesis
    using p assms(2) by (simp add: tx_state_change_def session_of_setState session_of_erase)
qed

text \<open>
  C13. A reply to a known session is queued, behind what is queued there, on the server of the
  reply's protocol, addressed to the session's descriptor and its last peer, and that server is
  woken; at the same time a login success makes the session AUTH, a lobby entry IN_WORLD and a
  login failure removes it. Only that session and that queue change.
\<close>

theorem tx_router_delivers:
  assumes "egress_wf eg" "session_of (eg_sessions eg) sid = Some s" "tx_protocol_of oc = Some p"
    and "egress_port eg p = Some port" "port_room port"
  shows "\<exists>eg' port'. TxRouter_handlePacket eg sid oc payload = Some eg' \<and>
    egress_port eg' p = Some port' \<and>
    port_list port' = port_list port @ [reply_packet s p payload] \<and>
    tp_wakeups port' = tp_wakeups port + 1 \<and>
    (\<forall>r. r \<noteq> p \<longrightarrow> egress_port eg' r = egress_port eg r) \<and>
    session_of (eg_sessions eg') sid =
      (if oc = LOGIN_FAIL_RES then None
       else Some (s\<lparr>s_state := if oc = LOGIN_SUCCESS_RES then AUTH
         else if oc = LOBBY_ENTRY_RES then IN_WORLD else s_state s\<rparr>)) \<and>
    (\<forall>i. i \<noteq> sid \<longrightarrow> session_of (eg_sessions eg') i = session_of (eg_sessions eg) i)"
  using assms by (rule TxRouter_delivers)

lemma TxRouter_sessions:
  assumes "TxRouter_handlePacket eg sid oc payload = Some eg'"
    and "session_of (eg_sessions eg) sid = Some s" "tx_protocol_of oc = Some p"
  shows "eg_sessions eg' = tx_state_change (eg_sessions eg) sid oc"
  using assms by (cases p) (auto simp: TxRouter_eq Let_def split: option.splits)

text \<open>A small instance: empty ports of capacity 2 and one session on TLS descriptor 5.\<close>

definition demo_port :: TxPort where
  "demo_port = \<lparr>tp_queue = \<lparr>mq_capacity = 2, mq_mask = 1,
     mq_buffer = [\<lparr>ms_ready = False, ms_ptr = None\<rparr>, \<lparr>ms_ready = False, ms_ptr = None\<rparr>],
     mq_head = 0, mq_tail = 0\<rparr>, tp_wakeups = 0\<rparr>"

definition demo_session :: Session where
  "demo_session = \<lparr>s_sessionId = 9, s_state = PRE_AUTH, s_tlsFd = 5, s_tcpFd = - 1, s_udpFd = - 1,
     s_connInfo = \<lparr>protocol = TLS, srcIp = 1, srcPort = 2, dstIp = 3, dstPort = 4\<rparr>\<rparr>"

definition demo_egress :: Egress where
  "demo_egress = \<lparr>eg_sessions = \<lparr>m_tlsFdToSessionId = [(5, 9)], m_sessions = [(9, demo_session)]\<rparr>,
     eg_tls = Some demo_port, eg_tcp = Some demo_port, eg_udp = None\<rparr>"

lemma demo_port_wf: "port_wf demo_port" "port_list demo_port = []" "port_room demo_port"
  by (simp_all add: port_room_def port_wf_def port_list_def demo_port_def mpsc_wf_def mpsc_list_def
      slots_ok_def pow2_def win_def slots_def slot_of_def upt_rec)

lemma demo_egress_wf: "egress_wf demo_egress"
  using demo_port_wf(1) by (simp add: egress_wf_def demo_egress_def sm_wf_def demo_session_def)

theorem tx_router_delivers_witness:
  "\<exists>eg' port'. TxRouter_handlePacket demo_egress 9 LOGIN_SUCCESS_RES [1] = Some eg' \<and>
    eg_tls eg' = Some port' \<and> port_list port' = [reply_packet demo_session TLS [1]] \<and>
    session_of (eg_sessions eg') 9 = Some (demo_session\<lparr>s_state := AUTH\<rparr>)"
proof -
  have "session_of (eg_sessions demo_egress) 9 = Some demo_session"
    "egress_port demo_egress TLS = Some demo_port" by (simp_all add: demo_egress_def)
  from tx_router_delivers[OF demo_egress_wf this(1) _ this(2) demo_port_wf(3),
      of LOGIN_SUCCESS_RES "[1]"] demo_port_wf(2)
  show ?thesis by auto
qed

end
