(* ===== verification/Db.thy ===== *)
theory Db
  imports Prelude
begin

text \<open>
  \<open>serverd/db\<close>: the connection pool and the password lookup of \<open>DbManager\<close>. The ODBC driver is not
  part of the sources; the results of its calls are an argument, and what the driver leaves in
  the password buffer as well.
\<close>

datatype sql_ret = SQL_SUCCESS | SQL_NO_DATA | SQL_ERROR

abbreviation SQL_SUCCEEDED :: "sql_ret \<Rightarrow> bool" where
  "SQL_SUCCEEDED r \<equiv> r = SQL_SUCCESS"

text \<open>The results of the calls of one lookup; \<open>od_pw\<close> is the content of \<open>pwBuf\<close> afterwards.\<close>

record odbc =
  od_alloc :: sql_ret
  od_prepare :: sql_ret
  od_bind :: sql_ret
  od_execute :: sql_ret
  od_fetch :: sql_ret
  od_getData :: sql_ret
  od_null :: bool
  od_pw :: bytes

text \<open>A connection handle is a number, \<open>None\<close> for \<open>SQL_NULL_HDBC\<close>. \<open>db_stmts\<close> counts the
  statement handles that are allocated and not freed.\<close>

record DbConnection =
  dbc :: "nat option"

record DbManager =
  db_pool :: "DbConnection list"
  db_stmts :: nat

record DbConfig =
  cf_server :: string
  cf_database :: string
  cf_user :: string
  cf_password :: string
  cf_encrypt :: bool
  cf_trustServerCert :: bool
  cf_poolSize :: nat

definition buildConnStr :: "DbConfig \<Rightarrow> string" where
  "buildConnStr c =
     ''DRIVER={ODBC Driver 18 for SQL Server};'' @
     ''SERVER='' @ cf_server c @ '';'' @
     ''DATABASE='' @ cf_database c @ '';'' @
     ''UID='' @ cf_user c @ '';'' @
     ''PWD='' @ cf_password c @ '';'' @
     ''Encrypt='' @ (if cf_encrypt c then ''yes;'' else ''no;'') @
     ''TrustServerCertificate='' @ (if cf_trustServerCert c then ''yes;'' else ''no;'')"

text \<open>
  \<open>init\<close>: \<open>connects\<close> lists, for the connections in turn, whether the handle was allocated, whether
  \<open>SQLDriverConnect\<close> succeeded with the connection string, and the handle.
\<close>

fun init_pool :: "nat \<Rightarrow> (bool \<times> (string \<Rightarrow> bool) \<times> nat) list \<Rightarrow> string \<Rightarrow> DbManager \<Rightarrow> DbManager \<times> bool" where
  "init_pool 0 cs connStr db = (db, True)"
| "init_pool (Suc n) [] connStr db = (db, False)"
| "init_pool (Suc n) ((alloc, connect, h) # cs) connStr db =
     (if \<not> alloc then (db, False)
      else if \<not> connect connStr then (db, False)
      else init_pool n cs connStr (db\<lparr>db_pool := db_pool db @ [\<lparr>dbc = Some h\<rparr>]\<rparr>))"

definition DbManager_init ::
  "DbManager \<Rightarrow> DbConfig \<Rightarrow> bool \<Rightarrow> (bool \<times> (string \<Rightarrow> bool) \<times> nat) list \<Rightarrow> DbManager \<times> bool" where
  "DbManager_init db config env_ok cs =
     (if \<not> env_ok then (db, False) else init_pool (cf_poolSize config) cs (buildConnStr config) db)"

definition acquire :: "DbManager \<Rightarrow> DbManager \<times> DbConnection option" where
  "acquire db = (case db_pool db of [] \<Rightarrow> (db, None) | c # cs \<Rightarrow> (db\<lparr>db_pool := cs\<rparr>, Some c))"

definition release :: "DbManager \<Rightarrow> DbConnection option \<Rightarrow> DbManager" where
  "release db conn = (case conn of None \<Rightarrow> db | Some c \<Rightarrow> db\<lparr>db_pool := db_pool db @ [c]\<rparr>)"

definition allocStmt :: "DbManager \<Rightarrow> DbManager" where
  "allocStmt db = db\<lparr>db_stmts := db_stmts db + 1\<rparr>"

definition freeStmt :: "DbManager \<Rightarrow> DbManager" where
  "freeStmt db = db\<lparr>db_stmts := db_stmts db - 1\<rparr>"

text \<open>\<open>std::string(pwBuf)\<close> reads up to a null byte; none in the buffer is a read past its end.\<close>

definition c_string :: "bytes \<Rightarrow> bytes option" where
  "c_string buf = (if 0 \<in> set buf then Some (takeWhile (\<lambda>c. c \<noteq> 0) buf) else None)"

definition getAccountPassword :: "DbManager \<Rightarrow> odbc \<Rightarrow> (DbManager \<times> bytes option) option" where
  "getAccountPassword db od =
     (let (db, conn) = acquire db in
      if (case conn of None \<Rightarrow> True | Some c \<Rightarrow> dbc c = None) then Some (db, None)
      else if \<not> SQL_SUCCEEDED (od_alloc od) then Some (release db conn, None)
      else let db = allocStmt db in
      if \<not> SQL_SUCCEEDED (od_prepare od) then Some (release (freeStmt db) conn, None)
      else if \<not> SQL_SUCCEEDED (od_bind od) then Some (release (freeStmt db) conn, None)
      else if \<not> SQL_SUCCEEDED (od_execute od) then Some (release (freeStmt db) conn, None)
      else if od_fetch od = SQL_NO_DATA then Some (release (freeStmt db) conn, None)
      else if \<not> SQL_SUCCEEDED (od_fetch od) then Some (release (freeStmt db) conn, None)
      else let db = release (freeStmt db) conn in
      if \<not> SQL_SUCCEEDED (od_getData od) \<or> od_null od then Some (db, None)
      else do { pw \<leftarrow> c_string (od_pw od); Some (db, Some pw) })"

text \<open>All calls of the lookup succeed.\<close>

definition od_ok :: "odbc \<Rightarrow> bool" where
  "od_ok od \<longleftrightarrow> SQL_SUCCEEDED (od_alloc od) \<and> SQL_SUCCEEDED (od_prepare od) \<and>
     SQL_SUCCEEDED (od_bind od) \<and> SQL_SUCCEEDED (od_execute od) \<and> SQL_SUCCEEDED (od_fetch od) \<and>
     SQL_SUCCEEDED (od_getData od) \<and> \<not> od_null od"

definition db_wf :: "DbManager \<Rightarrow> bool" where
  "db_wf db \<longleftrightarrow> list_all (\<lambda>c. dbc c \<noteq> None) (db_pool db)"

lemma init_pool_wf:
  "db_wf db \<Longrightarrow> db_wf (fst (init_pool n cs s db))"
  by (induction n cs s db rule: init_pool.induct) (auto simp: db_wf_def)

lemma init_pool_size:
  "snd (init_pool n cs s db) \<Longrightarrow> length (db_pool (fst (init_pool n cs s db))) = length (db_pool db) + n"
  by (induction n cs s db rule: init_pool.induct) (auto split: if_splits)

text \<open>Every way out of the lookup gives the connection back and leaves no statement behind.\<close>

lemma getAccountPassword_pool:
  assumes "db_wf db" "0 \<in> set (od_pw od)"
  shows "getAccountPassword db od = Some (db\<lparr>db_pool := rotate1 (db_pool db)\<rparr>,
    if db_pool db \<noteq> [] \<and> od_ok od then Some (takeWhile (\<lambda>c. c \<noteq> 0) (od_pw od)) else None)"
proof (cases "db_pool db")
  case Nil
  then show ?thesis by (simp add: getAccountPassword_def acquire_def)
next
  case (Cons c cs)
  with assms(1) obtain h where "dbc c = Some h" by (auto simp: db_wf_def)
  with Cons assms(2) show ?thesis
    by (simp add: getAccountPassword_def acquire_def release_def allocStmt_def freeStmt_def
        od_ok_def c_string_def Let_def)
qed

lemma db_wf_rotate [simp]: "db_wf (db\<lparr>db_pool := rotate1 (db_pool db)\<rparr>) = db_wf db"
  by (simp add: db_wf_def list_all_iff)

text \<open>
  C19. On every path of the password lookup, errors included, the borrowed connection goes back to
  the end of the pool and the statement handle is freed; the password is returned exactly
  when every call succeeded, up to the first null byte of the buffer.
\<close>

theorem password_lookup_restores_pool:
  assumes "fst (DbManager_init \<lparr>db_pool = [], db_stmts = 0\<rparr> config env_ok cs) = db"
    and "0 \<in> set (od_pw od)"
  shows "\<exists>db'. getAccountPassword db od = Some (db',
      if db_pool db \<noteq> [] \<and> od_ok od then Some (takeWhile (\<lambda>c. c \<noteq> 0) (od_pw od)) else None) \<and>
    db_pool db' = rotate1 (db_pool db) \<and> db_stmts db' = db_stmts db"
proof -
  have "db_wf db"
    using assms(1) init_pool_wf[of "\<lparr>db_pool = [], db_stmts = 0\<rparr>"]
    by (auto simp: DbManager_init_def db_wf_def split: if_splits)
  from getAccountPassword_pool[OF this assms(2)] show ?thesis by simp
qed

definition demo_config :: DbConfig where
  "demo_config = \<lparr>cf_server = ''localhost,1433'', cf_database = ''NFENGINE'', cf_user = ''admin'',
     cf_password = ''pw'', cf_encrypt = True, cf_trustServerCert = True, cf_poolSize = 2\<rparr>"

definition demo_odbc :: "bytes \<Rightarrow> odbc" where
  "demo_odbc pw = \<lparr>od_alloc = SQL_SUCCESS, od_prepare = SQL_SUCCESS, od_bind = SQL_SUCCESS,
     od_execute = SQL_SUCCESS, od_fetch = SQL_SUCCESS, od_getData = SQL_SUCCESS, od_null = False,
     od_pw = pw\<rparr>"

theorem password_lookup_restores_pool_witness:
  "\<exists>db'. getAccountPassword (fst (DbManager_init \<lparr>db_pool = [], db_stmts = 0\<rparr> demo_config True
        [(True, \<lambda>_. True, 1), (True, \<lambda>_. True, 2)])) (demo_odbc [112, 119, 0, 9]) =
      Some (db', Some [112, 119]) \<and> db_pool db' = [\<lparr>dbc = Some 2\<rparr>, \<lparr>dbc = Some 1\<rparr>] \<and> db_stmts db' = 0"
proof -
  define db where "db = fst (DbManager_init \<lparr>db_pool = [], db_stmts = 0\<rparr> demo_config True
    [(True, \<lambda>_. True, 1), (True, \<lambda>_. True, 2)])"
  have "db = \<lparr>db_pool = [\<lparr>dbc = Some 1\<rparr>, \<lparr>dbc = Some 2\<rparr>], db_stmts = 0\<rparr>"
    by (simp add: db_def DbManager_init_def demo_config_def numeral_2_eq_2)
  with password_lookup_restores_pool[OF db_def[symmetric], of "demo_odbc [112, 119, 0, 9]"]
  show ?thesis unfolding db_def[symmetric] by (simp add: demo_odbc_def od_ok_def)
qed

end
