(* ===== verification/Shard.thy ===== *)
theory Shard
  imports Egress Db
begin

text \<open>
  \<open>serverd/shard\<close> and the stateful half of \<open>serverd/execution\<close>: the contexts of a shard (login,
  lobby, ping, market), the shard workers with their event and action queues, and the shard
  manager. \<open>Engine\<close> is the state that the shards share: sessions and transmit ports (\<open>Egress\<close>),
  the database and the workers. What a step takes from outside, the database's answers and the
  clock, is a record \<open>Env\<close>.
\<close>

subsection \<open>MarketContext\<close>

record MarketItem =
  mi_itemId :: u64
  mi_sellerSessionId :: u64
  mi_name :: bytes
  mi_price :: u64
  mi_quantity :: u32
  mi_createdAt :: u64

record MarketInfo =
  mf_marketId :: u8
  mf_items :: "MarketItem list"

record MarketContext =
  mc_shardIdx :: nat
  mc_marketId :: u8
  mc_nextItemId :: u64
  mc_items :: "(u64 \<times> MarketItem) list"

text \<open>
  What the JSON library makes of the snapshot file: \<open>next_item_id\<close> and the items, \<open>None\<close> where
  there is no items array and, inside, where an element is not an object.
\<close>

datatype snapshot_file =
    SnapshotMissing
  | SnapshotParseError
  | Snapshot u64 "MarketItem option list option"

definition load_item :: "MarketItem option \<Rightarrow> (u64 \<times> MarketItem) list \<Rightarrow> (u64 \<times> MarketItem) list" where
  "load_item item items =
     (case item of
        None \<Rightarrow> items
      | Some mi \<Rightarrow> if mi_itemId mi = 0 then items else emplace (mi_itemId mi) mi items)"

definition loadSnapshot :: "MarketContext \<Rightarrow> snapshot_file \<Rightarrow> MarketContext" where
  "loadSnapshot mc file =
     (case file of
        SnapshotMissing \<Rightarrow> mc\<lparr>mc_nextItemId := 1\<rparr>
      | SnapshotParseError \<Rightarrow> mc\<lparr>mc_nextItemId := 1\<rparr>
      | Snapshot nextItemId items \<Rightarrow>
          (let mc = mc\<lparr>mc_items := [], mc_nextItemId := nextItemId\<rparr> in
           case items of
             None \<Rightarrow> mc
           | Some is \<Rightarrow> mc\<lparr>mc_items := fold load_item is (mc_items mc)\<rparr>))"

definition mk_MarketContext :: "nat \<Rightarrow> u8 \<Rightarrow> snapshot_file \<Rightarrow> MarketContext" where
  "mk_MarketContext shardIdx marketId file =
     loadSnapshot \<lparr>mc_shardIdx = shardIdx, mc_marketId = marketId, mc_nextItemId = 1, mc_items = []\<rparr> file"

definition market_snapshot :: "MarketContext \<Rightarrow> MarketInfo" where
  "market_snapshot mc = \<lparr>mf_marketId = mc_marketId mc, mf_items = map snd (mc_items mc)\<rparr>"

subsection \<open>Shard workers\<close>

text \<open>Times are milliseconds of the steady clock; \<open>sw_prevTick\<close> is \<open>None\<close> before the first tick.\<close>

record ShardWorker =
  sw_shardIdx :: nat
  sw_market :: MarketContext
  sw_events :: "Event list"
  sw_actions :: "Action list"
  sw_nextTick :: nat
  sw_prevTick :: "nat option"

definition m_tickInterval :: nat where "m_tickInterval = 1500"

definition mk_ShardWorker :: "nat \<Rightarrow> u8 \<Rightarrow> snapshot_file \<Rightarrow> ShardWorker" where
  "mk_ShardWorker shardIdx marketId file =
     \<lparr>sw_shardIdx = shardIdx, sw_market = mk_MarketContext shardIdx marketId file, sw_events = [],
      sw_actions = [], sw_nextTick = 0, sw_prevTick = None\<rparr>"

definition initMarkets :: "MarketMeta list" where
  "initMarkets = [\<lparr>mm_id = 1, mm_alias = ascii ''M1''\<rparr>, \<lparr>mm_id = 2, mm_alias = ascii ''M2''\<rparr>,
     \<lparr>mm_id = 3, mm_alias = ascii ''M3''\<rparr>, \<lparr>mm_id = 4, mm_alias = ascii ''M4''\<rparr>]"

definition initWorkers :: "nat \<Rightarrow> MarketMeta list \<Rightarrow> (u8 \<Rightarrow> snapshot_file) \<Rightarrow> ShardWorker list" where
  "initWorkers workerCount markets files =
     map (\<lambda>i. let marketId = mm_id (markets ! (i mod length markets))
              in mk_ShardWorker i marketId (files marketId)) [0..<workerCount]"

subsection \<open>The shared state\<close>

text \<open>
  \<open>en_txRouter\<close> tells whether \<open>setTxRouter\<close> has been called on the contexts; \<open>en_promises\<close> holds the
  market snapshots with which promises were fulfilled.
\<close>

record Engine =
  en_egress :: Egress
  en_shards :: "ShardWorker list"
  en_markets :: "MarketMeta list"
  en_db :: "DbManager option"
  en_txRouter :: bool
  en_promises :: "(nat \<times> MarketInfo) list"

record Env =
  ev_odbc :: "bytes \<Rightarrow> odbc"
  ev_clock :: u64

definition worker_update :: "nat \<Rightarrow> (ShardWorker \<Rightarrow> ShardWorker) \<Rightarrow> Engine \<Rightarrow> Engine" where
  "worker_update i f en = en\<lparr>en_shards := (en_shards en)[i := f (en_shards en ! i)]\<rparr>"

definition enqueueEvent :: "Event option \<Rightarrow> ShardWorker \<Rightarrow> ShardWorker" where
  "enqueueEvent event w = (case event of None \<Rightarrow> w | Some e \<Rightarrow> w\<lparr>sw_events := sw_events w @ [e]\<rparr>)"

definition enqueueAction :: "Action option \<Rightarrow> ShardWorker \<Rightarrow> ShardWorker" where
  "enqueueAction action w = (case action of None \<Rightarrow> w | Some a \<Rightarrow> w\<lparr>sw_actions := sw_actions w @ [a]\<rparr>)"

definition dispatch :: "nat \<Rightarrow> Event option \<Rightarrow> Engine \<Rightarrow> Engine" where
  "dispatch shardIdx event en =
     (if event = None \<or> shardIdx \<ge> length (en_shards en) then en
      else worker_update shardIdx (enqueueEvent event) en)"

definition commit :: "nat \<Rightarrow> Action option \<Rightarrow> Engine \<Rightarrow> Engine" where
  "commit shardIdx action en =
     (if action = None \<or> shardIdx \<ge> length (en_shards en) then en
      else worker_update shardIdx (enqueueAction action) en)"

subsection \<open>Contexts\<close>

definition verify :: "Env \<Rightarrow> DbManager \<Rightarrow> bytes \<Rightarrow> bytes \<Rightarrow> (DbManager \<times> bool) option" where
  "verify env db ident pw =
     do {
       (db, optDbPw) \<leftarrow> getAccountPassword db (ev_odbc env ident);
       case optDbPw of
         None \<Rightarrow> Some (db, False)
       | Some dbPw \<Rightarrow> if dbPw \<noteq> pw then Some (db, False) else Some (db, True)
     }"

definition loginReqEvent :: "Env \<Rightarrow> nat \<Rightarrow> u64 \<Rightarrow> bytes \<Rightarrow> bytes \<Rightarrow> Engine \<Rightarrow> Engine option" where
  "loginReqEvent env shardIdx sessionId ident pw en =
     do {
       (en, action) \<leftarrow>
         (case en_db en of
            Some db \<Rightarrow>
              do {
                (db, ok) \<leftarrow> verify env db ident pw;
                let en = en\<lparr>en_db := Some db\<rparr>;
                if \<not> ok then Some (en, ActionFactory_create LOGIN_FAIL_RES sessionId)
                else Some (en, ActionFactory_create LOGIN_SUCCESS_RES sessionId)
              }
          | None \<Rightarrow>
              if ident = ascii ''test'' \<and> pw = ascii ''test''
              then Some (en, ActionFactory_create LOGIN_SUCCESS_RES sessionId)
              else Some (en, ActionFactory_create LOGIN_FAIL_RES sessionId));
       if action = None then Some en else Some (commit shardIdx action en)
     }"

definition lobbyEntryReqEvent :: "nat \<Rightarrow> u64 \<Rightarrow> Engine \<Rightarrow> Engine option" where
  "lobbyEntryReqEvent shardIdx sessionId en =
     Some (commit shardIdx (ActionFactory_create LOBBY_ENTRY_RES sessionId) en)"

definition pingReqEvent :: "nat \<Rightarrow> u64 \<Rightarrow> u64 \<Rightarrow> u64 \<Rightarrow> Engine \<Rightarrow> Engine option" where
  "pingReqEvent shardIdx sessionId nonce clientTs en =
     Some (commit shardIdx (Some (PingResAction sessionId PING_RES nonce clientTs)) en)"

definition marketDumpReqEvent :: "nat \<Rightarrow> nat \<Rightarrow> Engine \<Rightarrow> Engine option" where
  "marketDumpReqEvent shardIdx promise en =
     (if shardIdx < length (en_shards en)
      then Some (en\<lparr>en_promises := en_promises en @
        [(promise, market_snapshot (sw_market (en_shards en ! shardIdx)))]\<rparr>)
      else None)"

fun handleEvent :: "Env \<Rightarrow> nat \<Rightarrow> Event \<Rightarrow> Engine \<Rightarrow> Engine option" where
  "handleEvent env i (LoginReqEvent sid payload ident pw) en = loginReqEvent env i sid ident pw en"
| "handleEvent env i (LobbyEntryReqEvent sid payload) en = lobbyEntryReqEvent i sid en"
| "handleEvent env i (PingReqEvent sid payload nonce ts) en = pingReqEvent i sid nonce ts en"
| "handleEvent env i (MarketDumpReqEvent promise) en = marketDumpReqEvent i promise en"

text \<open>The call \<open>m_txRouter->handlePacket\<close>; through a null pointer it is undefined.\<close>

definition via_txRouter :: "u64 \<Rightarrow> Opcode \<Rightarrow> bytes \<Rightarrow> Engine \<Rightarrow> Engine option" where
  "via_txRouter sessionId opcode payload en =
     (if en_txRouter en
      then do {
        eg \<leftarrow> TxRouter_handlePacket (en_egress en) sessionId opcode payload;
        Some (en\<lparr>en_egress := eg\<rparr>)
      }
      else None)"

definition loginSuccessResAction :: "u64 \<Rightarrow> Opcode \<Rightarrow> bytes \<Rightarrow> Engine \<Rightarrow> Engine option" where
  "loginSuccessResAction sessionId opcode payload en =
     (if \<not> en_txRouter en then Some en else via_txRouter sessionId opcode payload en)"

definition loginFailResAction :: "u64 \<Rightarrow> Opcode \<Rightarrow> bytes \<Rightarrow> Engine \<Rightarrow> Engine option" where
  "loginFailResAction sessionId opcode payload en = via_txRouter sessionId opcode payload en"

definition lobbyEntryResAction :: "u64 \<Rightarrow> Opcode \<Rightarrow> bytes \<Rightarrow> Engine \<Rightarrow> Engine option" where
  "lobbyEntryResAction sessionId opcode payload en =
     (if \<not> en_txRouter en then Some en else via_txRouter sessionId opcode payload en)"

definition pingResAction :: "u64 \<Rightarrow> Opcode \<Rightarrow> bytes \<Rightarrow> Engine \<Rightarrow> Engine option" where
  "pingResAction sessionId opcode payload en = via_txRouter sessionId opcode payload en"

fun handleAction :: "Env \<Rightarrow> Action \<Rightarrow> Engine \<Rightarrow> Engine option" where
  "handleAction env (LoginSuccessResAction sid oc) en =
     do { payload \<leftarrow> LoginBuilder_serialize oc sid; loginSuccessResAction sid oc payload en }"
| "handleAction env (LoginFailResAction sid oc) en =
     do { payload \<leftarrow> LoginBuilder_serialize oc sid; loginFailResAction sid oc payload en }"
| "handleAction env (LobbyEntryResAction sid oc) en =
     do { payload \<leftarrow> LobbyBuilder_serialize oc sid (en_markets en);
          lobbyEntryResAction sid oc payload en }"
| "handleAction env (PingResAction sid oc nonce ts) en =
     do { payload \<leftarrow> PingBuilder_serialize oc sid nonce ts (ev_clock env);
          pingResAction sid oc payload en }"

subsection \<open>The worker's loop\<close>

text \<open>The front action is handled while still in the queue, then popped.\<close>

partial_function (option) action_loop :: "Env \<Rightarrow> nat \<Rightarrow> Engine \<Rightarrow> Engine option" where
  "action_loop env i en =
     (case sw_actions (en_shards en ! i) of
        [] \<Rightarrow> Some en
      | a # _ \<Rightarrow>
          (case handleAction env a en of
             None \<Rightarrow> None
           | Some en' \<Rightarrow>
               action_loop env i (worker_update i (\<lambda>w. w\<lparr>sw_actions := tl (sw_actions w)\<rparr>) en')))"

definition onTick :: "nat \<Rightarrow> ShardWorker \<Rightarrow> ShardWorker" where
  "onTick now w = w\<lparr>sw_prevTick := Some now\<rparr>"

definition tick_handling :: "nat \<Rightarrow> ShardWorker \<Rightarrow> ShardWorker" where
  "tick_handling now w =
     (if now \<ge> sw_nextTick w then
        let w = onTick now w; w = w\<lparr>sw_nextTick := sw_nextTick w + m_tickInterval\<rparr> in
        if now > sw_nextTick w + m_tickInterval then w\<lparr>sw_nextTick := now + m_tickInterval\<rparr> else w
      else w)"

text \<open>One pass of the loop of \<open>processPacket\<close> after the wait has returned at time \<open>now\<close>.\<close>

definition processPacket_pass :: "Env \<Rightarrow> nat \<Rightarrow> nat \<Rightarrow> Engine \<Rightarrow> Engine option" where
  "processPacket_pass env now i en =
     (if i \<ge> length (en_shards en) then None
      else do {
        en \<leftarrow> (case sw_events (en_shards en ! i) of
                 [] \<Rightarrow> Some en
               | event # _ \<Rightarrow>
                   handleEvent env i event
                     (worker_update i (\<lambda>w. w\<lparr>sw_events := tl (sw_events w)\<rparr>) en));
        en \<leftarrow> action_loop env i en;
        Some (worker_update i (tick_handling now) en)
      })"

subsection \<open>Invariant\<close>

text \<open>
  The contexts have their router, the market list fits a reply, the pool has no null handle and
  the worker at index \<open>i\<close> is shard \<open>i\<close>.
\<close>

definition engine_wf :: "Engine \<Rightarrow> bool" where
  "engine_wf en \<longleftrightarrow> egress_wf (en_egress en) \<and> en_txRouter en \<and>
     2 + 17 * length (en_markets en) < 65536 \<and> pred_option db_wf (en_db en) \<and>
     map sw_shardIdx (en_shards en) = [0..<length (en_shards en)]"

text \<open>\<open>SQLGetData\<close> null-terminates what it writes into a character buffer.\<close>

definition env_ok :: "Env \<Rightarrow> bool" where
  "env_ok env \<longleftrightarrow> (\<forall>ident. 0 \<in> set (od_pw (ev_odbc env ident)))"

fun action_reply :: "Env \<Rightarrow> MarketMeta list \<Rightarrow> Action \<Rightarrow> (u64 \<times> Opcode \<times> bytes) option" where
  "action_reply env ms (LoginSuccessResAction sid oc) =
     map_option (\<lambda>pl. (sid, oc, pl)) (LoginBuilder_serialize oc sid)"
| "action_reply env ms (LoginFailResAction sid oc) =
     map_option (\<lambda>pl. (sid, oc, pl)) (LoginBuilder_serialize oc sid)"
| "action_reply env ms (LobbyEntryResAction sid oc) =
     map_option (\<lambda>pl. (sid, oc, pl)) (LobbyBuilder_serialize oc sid ms)"
| "action_reply env ms (PingResAction sid oc nonce ts) =
     map_option (\<lambda>pl. (sid, oc, pl)) (PingBuilder_serialize oc sid nonce ts (ev_clock env))"

definition egress_action :: "Env \<Rightarrow> MarketMeta list \<Rightarrow> Action \<Rightarrow> Egress \<Rightarrow> Egress option" where
  "egress_action env ms a eg =
     do { (sid, oc, payload) \<leftarrow> action_reply env ms a; TxRouter_handlePacket eg sid oc payload }"

lemma worker_update_simps [simp]:
  "en_egress (worker_update i f en) = en_egress en" "en_markets (worker_update i f en) = en_markets en"
  "en_db (worker_update i f en) = en_db en" "en_txRouter (worker_update i f en) = en_txRouter en"
  "en_promises (worker_update i f en) = en_promises en"
  "length (en_shards (worker_update i f en)) = length (en_shards en)"
  "i < length (en_shards en) \<Longrightarrow> en_shards (worker_update i f en) ! i = f (en_shards en ! i)"
  "i \<noteq> j \<Longrightarrow> en_shards (worker_update i f en) ! j = en_shards en ! j"
  by (simp_all add: worker_update_def)

lemma worker_update_twice [simp]:
  "i < length (en_shards en) \<Longrightarrow>
   worker_update i f (worker_update i g en) = worker_update i (\<lambda>w. f (g w)) en"
  by (simp add: worker_update_def)

lemma worker_update_egress [simp]:
  "worker_update i f (en\<lparr>en_egress := eg\<rparr>) = (worker_update i f en)\<lparr>en_egress := eg\<rparr>"
  by (simp add: worker_update_def)

lemma engine_wf_worker_update:
  assumes "engine_wf en" "\<And>w. sw_shardIdx (f w) = sw_shardIdx w"
  shows "engine_wf (worker_update i f en)"
proof -
  have "map sw_shardIdx ((en_shards en)[i := f (en_shards en ! i)]) = map sw_shardIdx (en_shards en)"
    using assms(2) by (cases "i < length (en_shards en)") (simp_all add: map_update list_update_same_conv list_update_beyond)
  with assms(1) show ?thesis by (simp add: engine_wf_def) (simp add: worker_update_def)
qed

lemma engine_wf_egress: "engine_wf en \<Longrightarrow> egress_wf eg \<Longrightarrow> engine_wf (en\<lparr>en_egress := eg\<rparr>)"
  by (simp add: engine_wf_def)

lemma engine_wf_commit: "engine_wf en \<Longrightarrow> engine_wf (commit i a en)"
  by (auto simp: commit_def enqueueAction_def intro: engine_wf_worker_update split: option.split)

lemma engine_wf_dispatch: "engine_wf en \<Longrightarrow> engine_wf (dispatch i e en)"
  by (auto simp: dispatch_def enqueueEvent_def intro: engine_wf_worker_update split: option.split)

lemma handleAction_eq:
  "en_txRouter en \<Longrightarrow> handleAction env a en =
     do { eg \<leftarrow> egress_action env (en_markets en) a (en_egress en); Some (en\<lparr>en_egress := eg\<rparr>) }"
  by (cases a) (simp_all add: egress_action_def loginSuccessResAction_def loginFailResAction_def
      lobbyEntryResAction_def pingResAction_def via_txRouter_def map_conv_bind_option bind_assoc)

lemma serialize_total:
  "\<exists>pl. LoginBuilder_serialize oc sid = Some pl"
  "2 + 17 * length ms < 65536 \<Longrightarrow> \<exists>pl. LobbyBuilder_serialize oc sid ms = Some pl"
  "\<exists>pl. PingBuilder_serialize oc sid n t c = Some pl"
  by (auto simp: LoginBuilder_serialize_def LobbyBuilder_serialize_def PingBuilder_serialize_def
      buildLoginResSuccess_eq buildLoginResFail_eq buildLobbyRes_eq buildPingRes_eq split: Opcode.split)

lemma egress_action_wf:
  assumes "egress_wf eg" "2 + 17 * length ms < 65536"
  shows "\<exists>eg'. egress_action env ms a eg = Some eg' \<and> egress_wf eg'"
proof -
  obtain sid oc pl where "action_reply env ms a = Some (sid, oc, pl)"
    using serialize_total assms(2) by (cases a) fastforce+
  with TxRouter_wf[OF assms(1), of sid oc pl] show ?thesis by (simp add: egress_action_def)
qed

text \<open>The action loop ends with an empty queue; it runs the queued actions in order.\<close>

lemma action_loop_eq:
  assumes "en_txRouter en" "i < length (en_shards en)"
  shows "action_loop env i en =
    do { eg \<leftarrow> ofold (egress_action env (en_markets en)) (sw_actions (en_shards en ! i)) (en_egress en);
         Some ((worker_update i (\<lambda>w. w\<lparr>sw_actions := []\<rparr>) en)\<lparr>en_egress := eg\<rparr>) }"
  using assms
proof (induction "sw_actions (en_shards en ! i)" arbitrary: en)
  case Nil
  note e = Nil.hyps[symmetric]
  have "(worker_update i (\<lambda>w. w\<lparr>sw_actions := []\<rparr>) en) = en"
    using e Nil.prems(2) by (simp add: worker_update_def list_update_same_conv)
  then show ?case by (simp add: action_loop.simps[of env i en] e)
next
  case (Cons a as)
  note e = Cons.hyps(2)[symmetric]
  show ?case
  proof (cases "egress_action env (en_markets en) a (en_egress en)")
    case None
    then show ?thesis by (simp add: action_loop.simps[of env i en] e handleAction_eq Cons.prems)
  next
    case (Some eg)
    let ?en = "(worker_update i (\<lambda>w. w\<lparr>sw_actions := tl (sw_actions w)\<rparr>) en)\<lparr>en_egress := eg\<rparr>"
    have "action_loop env i en = action_loop env i ?en"
      by (simp add: action_loop.simps[of env i en] e handleAction_eq Cons.prems Some)
    also have "\<dots> = do { eg \<leftarrow> ofold (egress_action env (en_markets en)) as eg;
         Some ((worker_update i (\<lambda>w. w\<lparr>sw_actions := []\<rparr>) en)\<lparr>en_egress := eg\<rparr>) }"
      using Cons.hyps(1)[of ?en] Cons.prems e by simp
    finally show ?thesis by (simp add: e Some)
  qed
qed

lemma action_loop_wf:
  assumes "engine_wf en" "i < length (en_shards en)"
  shows "\<exists>en'. action_loop env i en = Some en' \<and> engine_wf en' \<and>
    length (en_shards en') = length (en_shards en)"
proof -
  have "en_txRouter en" "egress_wf (en_egress en)" "2 + 17 * length (en_markets en) < 65536"
    using assms(1) by (simp_all add: engine_wf_def)
  then obtain eg where "ofold (egress_action env (en_markets en)) (sw_actions (en_shards en ! i))
      (en_egress en) = Some eg" "egress_wf eg"
    using ofold_inv[of egress_wf "en_egress en" _ "egress_action env (en_markets en)"]
      egress_action_wf by blast
  with assms \<open>en_txRouter en\<close> show ?thesis
    by (simp add: action_loop_eq engine_wf_egress engine_wf_worker_update)
qed

lemma verify_eq:
  assumes "db_wf db" "env_ok env"
  shows "verify env db ident pw = Some (db\<lparr>db_pool := rotate1 (db_pool db)\<rparr>,
    db_pool db \<noteq> [] \<and> od_ok (ev_odbc env ident) \<and>
    takeWhile (\<lambda>c. c \<noteq> 0) (od_pw (ev_odbc env ident)) = pw)"
  using assms by (auto simp: verify_def env_ok_def getAccountPassword_pool)

text \<open>The credentials are right: the database's password, or \<open>test\<close>/\<open>test\<close> without a database.\<close>

definition credentials_ok :: "Env \<Rightarrow> Engine \<Rightarrow> bytes \<Rightarrow> bytes \<Rightarrow> bool" where
  "credentials_ok env en ident pw \<longleftrightarrow>
     (case en_db en of
        None \<Rightarrow> ident = ascii ''test'' \<and> pw = ascii ''test''
      | Some db \<Rightarrow> db_pool db \<noteq> [] \<and> od_ok (ev_odbc env ident) \<and>
          takeWhile (\<lambda>c. c \<noteq> 0) (od_pw (ev_odbc env ident)) = pw)"

definition rotate_pool :: "Engine \<Rightarrow> Engine" where
  "rotate_pool en = en\<lparr>en_db := map_option (\<lambda>db. db\<lparr>db_pool := rotate1 (db_pool db)\<rparr>) (en_db en)\<rparr>"

lemma loginReqEvent_eq:
  assumes "engine_wf en" "env_ok env"
  shows "loginReqEvent env i sid ident pw en = Some (commit i (Some
    (if credentials_ok env en ident pw then LoginSuccessResAction sid LOGIN_SUCCESS_RES
     else LoginFailResAction sid LOGIN_FAIL_RES)) (rotate_pool en))"
proof (cases "en_db en")
  case None
  then have "rotate_pool en = en" by (simp add: rotate_pool_def)
  with None show ?thesis
    by (simp add: loginReqEvent_def ActionFactory_create_def credentials_ok_def)
next
  case (Some db)
  with assms have "db_wf db" by (simp add: engine_wf_def)
  with Some assms(2) show ?thesis
    by (simp add: loginReqEvent_def ActionFactory_create_def verify_eq Let_def credentials_ok_def
        rotate_pool_def)
qed

lemma engine_wf_rotate_pool: "engine_wf en \<Longrightarrow> engine_wf (rotate_pool en)"
  by (cases "en_db en") (simp_all add: engine_wf_def rotate_pool_def)

lemma handleEvent_wf:
  assumes "engine_wf en" "env_ok env" "i < length (en_shards en)"
  shows "\<exists>en'. handleEvent env i ev en = Some en' \<and> engine_wf en' \<and>
    length (en_shards en') = length (en_shards en)"
proof (cases ev)
  case (LoginReqEvent sid pl ident pw)
  with assms(1,2) show ?thesis
    by (simp add: loginReqEvent_eq engine_wf_commit engine_wf_rotate_pool)
      (simp add: commit_def rotate_pool_def)
next
  case (MarketDumpReqEvent p)
  with assms show ?thesis by (simp add: marketDumpReqEvent_def) (simp add: engine_wf_def)
qed (use assms(1) in \<open>simp_all add: lobbyEntryReqEvent_def pingReqEvent_def engine_wf_commit\<close>,
     simp_all add: commit_def)

lemma processPacket_pass_wf:
  assumes "engine_wf en" "env_ok env" "i < length (en_shards en)"
  shows "\<exists>en'. processPacket_pass env now i en = Some en' \<and> engine_wf en' \<and>
    length (en_shards en') = length (en_shards en)"
proof -
  have "\<exists>en1. (case sw_events (en_shards en ! i) of [] \<Rightarrow> Some en
      | event # _ \<Rightarrow> handleEvent env i event
          (worker_update i (\<lambda>w. w\<lparr>sw_events := tl (sw_events w)\<rparr>) en)) = Some en1 \<and> engine_wf en1 \<and>
      length (en_shards en1) = length (en_shards en)"
    using assms handleEvent_wf[of "worker_update i (\<lambda>w. w\<lparr>sw_events := tl (sw_events w)\<rparr>) en" env i]
    by (cases "sw_events (en_shards en ! i)") (auto simp: engine_wf_worker_update)
  then obtain en1 where en1: "(case sw_events (en_shards en ! i) of [] \<Rightarrow> Some en
      | event # _ \<Rightarrow> handleEvent env i event
          (worker_update i (\<lambda>w. w\<lparr>sw_events := tl (sw_events w)\<rparr>) en)) = Some en1"
    "engine_wf en1" "length (en_shards en1) = length (en_shards en)" by blast
  with action_loop_wf[OF en1(2), of i env] assms(3) obtain en2 where en2:
    "action_loop env i en1 = Some en2" "engine_wf en2" "length (en_shards en2) = length (en_shards en)"
    by auto
  have "engine_wf (worker_update i (tick_handling now) en2)"
    by (rule engine_wf_worker_update[OF en2(2)]) (simp add: tick_handling_def onTick_def Let_def)
  with en1 en2 assms(3) show ?thesis by (simp add: processPacket_pass_def)
qed

subsection \<open>Properties\<close>

text \<open>The reply that an event calls for.\<close>

fun event_action :: "Env \<Rightarrow> Engine \<Rightarrow> Event \<Rightarrow> Action option" where
  "event_action env en (LoginReqEvent sid pl ident pw) = Some
     (if credentials_ok env en ident pw then LoginSuccessResAction sid LOGIN_SUCCESS_RES
      else LoginFailResAction sid LOGIN_FAIL_RES)"
| "event_action env en (LobbyEntryReqEvent sid pl) = Some (LobbyEntryResAction sid LOBBY_ENTRY_RES)"
| "event_action env en (PingReqEvent sid pl nonce ts) = Some (PingResAction sid PING_RES nonce ts)"
| "event_action env en (MarketDumpReqEvent p) = None"

lemma handleEvent_action:
  assumes "engine_wf en" "env_ok env" "event_action env en ev = Some a"
  shows "handleEvent env i ev en =
    Some (commit i (Some a) (case ev of LoginReqEvent _ _ _ _ \<Rightarrow> rotate_pool en | _ \<Rightarrow> en))"
  using assms by (cases ev) (auto simp: loginReqEvent_eq lobbyEntryReqEvent_def pingReqEvent_def
      ActionFactory_create_def)

lemma credentials_ok_worker_update [simp]:
  "credentials_ok env (worker_update i f en) ident pw = credentials_ok env en ident pw"
  by (simp add: credentials_ok_def)

lemma event_action_worker_update [simp]:
  "event_action env (worker_update i f en) ev = event_action env en ev"
  by (cases ev) simp_all

lemma shard_pass:
  assumes "engine_wf en" "env_ok env" "i < length (en_shards en)"
    and "sw_events (en_shards en ! i) = ev # evs" "sw_actions (en_shards en ! i) = []"
    and "event_action env en ev = Some a"
  shows "\<exists>en' sid oc payload. processPacket_pass env now i en = Some en' \<and>
    action_reply env (en_markets en) a = Some (sid, oc, payload) \<and>
    TxRouter_handlePacket (en_egress en) sid oc payload = Some (en_egress en') \<and>
    sw_events (en_shards en' ! i) = evs \<and> sw_actions (en_shards en' ! i) = [] \<and>
    (\<forall>j. j \<noteq> i \<longrightarrow> en_shards en' ! j = en_shards en ! j) \<and> engine_wf en'"
proof -
  define pop where "pop = worker_update i (\<lambda>w. w\<lparr>sw_events := tl (sw_events w)\<rparr>) en"
  define en1 where "en1 = (case ev of LoginReqEvent _ _ _ _ \<Rightarrow> rotate_pool pop | _ \<Rightarrow> pop)"
  have wf: "engine_wf pop" using assms(1) by (simp add: pop_def engine_wf_worker_update)
  have e: "en_shards en1 = en_shards pop" "en_markets en1 = en_markets en" "en_txRouter en1 = en_txRouter en"
    "en_egress en1 = en_egress en"
    by (simp_all add: en1_def pop_def rotate_pool_def split: Event.split)
  have p: "i < length (en_shards pop)" "sw_actions (en_shards pop ! i) = []"
    "sw_events (en_shards pop ! i) = evs" "\<And>j. j \<noteq> i \<Longrightarrow> en_shards pop ! j = en_shards en ! j"
    using assms(3-5) by (simp_all add: pop_def)
  have h: "handleEvent env i ev pop = Some (commit i (Some a) en1)"
    using handleEvent_action[OF wf assms(2), of ev a i] assms(6) by (simp add: pop_def en1_def)
  let ?c = "commit i (Some a) en1"
  have c: "en_txRouter ?c" "i < length (en_shards ?c)" "sw_actions (en_shards ?c ! i) = [a]"
    "en_markets ?c = en_markets en" "en_egress ?c = en_egress en"
    using assms(1) p e by (simp_all add: commit_def enqueueAction_def engine_wf_def)
  obtain eg sid oc pl where a: "egress_action env (en_markets en) a (en_egress en) = Some eg"
    "action_reply env (en_markets en) a = Some (sid, oc, pl)"
    "TxRouter_handlePacket (en_egress en) sid oc pl = Some eg"
    using egress_action_wf[of "en_egress en" "en_markets en" env a] assms(1)
    by (auto simp: engine_wf_def egress_action_def split: bind_splits)
  have "action_loop env i ?c =
      Some ((worker_update i (\<lambda>w. w\<lparr>sw_actions := []\<rparr>) ?c)\<lparr>en_egress := eg\<rparr>)"
    using action_loop_eq[OF c(1,2)] c(3-5) a(1) by simp
  then have pass: "processPacket_pass env now i en = Some (worker_update i (tick_handling now)
      ((worker_update i (\<lambda>w. w\<lparr>sw_actions := []\<rparr>) ?c)\<lparr>en_egress := eg\<rparr>))"
    using h assms(3,4) by (simp add: processPacket_pass_def pop_def)
  with processPacket_pass_wf[OF assms(1-3), of now] obtain en' where
    en': "processPacket_pass env now i en = Some en'" "engine_wf en'"
    "en' = worker_update i (tick_handling now)
      ((worker_update i (\<lambda>w. w\<lparr>sw_actions := []\<rparr>) ?c)\<lparr>en_egress := eg\<rparr>)" by auto
  have "sw_events (en_shards en' ! i) = evs" "sw_actions (en_shards en' ! i) = []"
    "\<forall>j. j \<noteq> i \<longrightarrow> en_shards en' ! j = en_shards en ! j" "en_egress en' = eg"
    using p e by (auto simp: en'(3) commit_def enqueueAction_def tick_handling_def onTick_def Let_def)
  with en'(1,2) a(2,3) show ?thesis by blast
qed

text \<open>
  C10. A pass of a shard worker with an event and no left-over action takes exactly that event off
  the front of its queue, sends exactly one reply through the router before it returns, and leaves
  no action behind: LOGIN_SUCCESS_RES exactly for right credentials, LOGIN_FAIL_RES otherwise, the
  market list, or the echo of a ping. The other shards are untouched.
\<close>

theorem shard_pass_answers:
  assumes "engine_wf en" "env_ok env" "i < length (en_shards en)"
    and "sw_events (en_shards en ! i) = ev # evs" "sw_actions (en_shards en ! i) = []"
    and "event_action env en ev = Some a"
  shows "\<exists>en' sid oc payload. processPacket_pass env now i en = Some en' \<and>
    action_reply env (en_markets en) a = Some (sid, oc, payload) \<and>
    TxRouter_handlePacket (en_egress en) sid oc payload = Some (en_egress en') \<and>
    sw_events (en_shards en' ! i) = evs \<and> sw_actions (en_shards en' ! i) = [] \<and>
    (\<forall>j. j \<noteq> i \<longrightarrow> en_shards en' ! j = en_shards en ! j) \<and> engine_wf en'"
  using assms by (rule shard_pass)

end
