(* ===== verification/Engine.thy ===== *)
theory Engine
  imports Shard
begin

text \<open>
  \<open>ingress/RxRouter\<close>, and with it the whole path of a request: a packet from a worker through
  parser, session manager and event factory into a shard's queue, the shard's pass, and the reply
  on a transmit port.
\<close>

definition selectShard :: "Engine \<Rightarrow> u64 \<Rightarrow> nat option" where
  "selectShard en sessionId =
     (let workerCount = length (en_shards en) in
      if workerCount = 0 then None else Some (unat (drop_bit 32 sessionId) mod workerCount))"

definition set_sessions :: "SessionManager \<Rightarrow> Engine \<Rightarrow> Engine" where
  "set_sessions sm en = en\<lparr>en_egress := (en_egress en)\<lparr>eg_sessions := sm\<rparr>\<rparr>"

text \<open>The session step of \<open>handlePacket\<close>: create for a first login, else check and bind.\<close>

definition rx_session ::
  "ParsedPacket \<Rightarrow> Engine \<times> rand \<Rightarrow> ((Engine \<times> rand) \<times> ParsedPacket \<times> bool) option" where
  "rx_session parsed s =
     (case s of (en, rs) \<Rightarrow>
        if pp_opcode parsed = LOGIN_REQ \<and> pp_sessionId parsed = 0
        then do {
          (sm, parsed, rs, ok) \<leftarrow> create (eg_sessions (en_egress en)) parsed rs;
          Some ((set_sessions sm en, rs), parsed, ok)
        }
        else let (sm, ok) = checkAndBind (eg_sessions (en_egress en)) parsed
             in Some ((set_sessions sm en, rs), parsed, ok))"

definition RxRouter_handlePacket :: "Packet \<Rightarrow> Engine \<times> rand \<Rightarrow> (Engine \<times> rand) option" where
  "RxRouter_handlePacket packet s =
     (case PacketParser_parse (Some packet) of
        None \<Rightarrow> Some s
      | Some parsed \<Rightarrow>
          do {
            ((en, rs), parsed, ok) \<leftarrow> rx_session parsed s;
            if \<not> ok then Some (en, rs)
            else if pp_sessionId parsed = 0 then Some (en, rs)
            else do {
              let sessionId = pp_sessionId parsed;
              shardIdx \<leftarrow> selectShard en sessionId;
              event \<leftarrow> EventFactory_create parsed;
              if event = None then Some (en, rs)
              else Some (dispatch shardIdx event en, rs)
            }
          })"

text \<open>The inputs of the engine in any order: a packet from a worker, or a pass of a shard.\<close>

datatype engine_op = RxPacket Packet | ShardPass Env nat nat

fun engine_step :: "engine_op \<Rightarrow> Engine \<times> rand \<Rightarrow> (Engine \<times> rand) option" where
  "engine_step (RxPacket packet) s = RxRouter_handlePacket packet s"
| "engine_step (ShardPass env now i) (en, rs) =
     map_option (\<lambda>en'. (en', rs)) (processPacket_pass env now i en)"

fun op_ok :: "nat \<Rightarrow> engine_op \<Rightarrow> bool" where
  "op_ok n (RxPacket packet) \<longleftrightarrow> True"
| "op_ok n (ShardPass env now i) \<longleftrightarrow> env_ok env \<and> i < n"

subsection \<open>Routing\<close>

lemma eg_sessions_set_sessions [simp]:
  "eg_sessions (en_egress (set_sessions sm en)) = sm" "en_shards (set_sessions sm en) = en_shards en"
  "en_markets (set_sessions sm en) = en_markets en" "en_db (set_sessions sm en) = en_db en"
  "en_txRouter (set_sessions sm en) = en_txRouter en"
  "egress_port (en_egress (set_sessions sm en)) p = egress_port (en_egress en) p"
  by (simp_all add: set_sessions_def) (cases p; simp add: set_sessions_def)

lemma engine_wf_set_sessions: "engine_wf en \<Longrightarrow> sm_wf sm \<Longrightarrow> engine_wf (set_sessions sm en)"
  by (simp add: set_sessions_def engine_wf_def egress_wf_def)

lemma engine_wf_sessions: "engine_wf en \<Longrightarrow> sm_wf (eg_sessions (en_egress en))"
  by (simp add: engine_wf_def egress_wf_def)

lemma selectShard_bound: "selectShard en sid = Some i \<Longrightarrow> i < length (en_shards en)"
  by (auto simp: selectShard_def Let_def split: if_splits)

text \<open>Of an accepted packet, no parser leaves the payload.\<close>

lemma EventFactory_total:
  assumes "PacketParser_parse (Some p) = Some q" "pp_payload r = pp_payload q" "pp_bodyLen r = pp_bodyLen q"
  shows "\<exists>e. EventFactory_create r = Some e"
proof -
  have "16 + pp_bodyLen r \<le> length (pp_payload r)" using parsed_body(1)[OF assms(1)] assms(2,3) by simp
  then show ?thesis
    by (auto simp: EventFactory_cases parseLoginReq_fields parsePingReq_eq parseLobbyEntryReq_def
        pp_takePayload_def Let_def)
qed

text \<open>\<open>RAND_bytes\<close> delivers: the results hold a nonzero id before any failure.\<close>

definition rand_ok :: "rand \<Rightarrow> bool" where
  "rand_ok rs \<longleftrightarrow> generateSecureSessionId rs \<noteq> None"

lemma rx_session_wf:
  assumes "engine_wf en" "rand_ok rs"
  shows "\<exists>en' rs' r ok. rx_session q (en, rs) = Some ((en', rs'), r, ok) \<and> engine_wf en' \<and>
    en_shards en' = en_shards en \<and> pp_payload r = pp_payload q \<and> pp_bodyLen r = pp_bodyLen q"
proof (cases "pp_opcode q = LOGIN_REQ \<and> pp_sessionId q = 0")
  case True
  let ?sm = "eg_sessions (en_egress en)"
  from assms(2) obtain sid rs' where g: "generateSecureSessionId rs = Some (sid, rs')"
    by (auto simp: rand_ok_def)
  then obtain sm r ok rs1 where c: "create ?sm q rs = Some (sm, r, rs1, ok)"
    by (cases "create ?sm q rs") (auto simp: create_def Let_def split: if_splits)
  from c have "pp_payload r = pp_payload q \<and> pp_bodyLen r = pp_bodyLen q"
    by (cases rule: create_cases) (simp_all add: setSessionId_def)
  with True c sm_wf_create[OF engine_wf_sessions[OF assms(1)] c] assms(1) show ?thesis
    by (simp add: rx_session_def engine_wf_set_sessions)
next
  case False
  then show ?thesis
    using assms(1) sm_wf_checkAndBind[OF engine_wf_sessions[OF assms(1)], of q]
    by (auto simp: rx_session_def split_beta Let_def engine_wf_set_sessions)
qed

lemma RxRouter_wf:
  assumes "engine_wf en" "rand_ok rs" "en_shards en \<noteq> []"
  shows "\<exists>en' rs'. RxRouter_handlePacket packet (en, rs) = Some (en', rs') \<and> engine_wf en' \<and>
    length (en_shards en') = length (en_shards en)"
proof (cases "PacketParser_parse (Some packet)")
  case None
  with assms(1) show ?thesis by (simp add: RxRouter_handlePacket_def)
next
  case (Some q)
  from rx_session_wf[OF assms(1,2), of q] obtain en1 rs1 r ok where s:
    "rx_session q (en, rs) = Some ((en1, rs1), r, ok)" "engine_wf en1" "en_shards en1 = en_shards en"
    "pp_payload r = pp_payload q" "pp_bodyLen r = pp_bodyLen q" by blast
  obtain e where e: "EventFactory_create r = Some e" using EventFactory_total[OF Some s(4,5)] by blast
  obtain i where i: "selectShard en1 (pp_sessionId r) = Some i"
    using assms(3) s(3) by (simp add: selectShard_def)
  show ?thesis
  proof (cases "ok \<and> pp_sessionId r \<noteq> 0 \<and> e \<noteq> None")
    case True
    then have "RxRouter_handlePacket packet (en, rs) = Some (dispatch i e en1, rs1)"
      by (auto simp: RxRouter_handlePacket_def Some s(1) e i)
    with s(2,3) show ?thesis by (simp add: engine_wf_dispatch) (simp add: dispatch_def)
  next
    case False
    then have "RxRouter_handlePacket packet (en, rs) = Some (en1, rs1)"
      by (auto simp: RxRouter_handlePacket_def Some s(1) e i)
    with s(2,3) show ?thesis by simp
  qed
qed

text \<open>A first login, step by step.\<close>

lemma rx_login:
  assumes "PacketParser_parse (Some packet) = Some q" "pp_opcode q = LOGIN_REQ" "pp_sessionId q = 0"
    and "create (eg_sessions (en_egress en)) q rs = Some (sm, setSessionId q sid, rs', True)" "sid \<noteq> 0"
    and "login_fields (body_of q) = Some (ident, pw)" "en_shards en \<noteq> []"
  shows "RxRouter_handlePacket packet (en, rs) = Some (dispatch
      (unat (drop_bit 32 sid) mod length (en_shards en))
      (Some (LoginReqEvent sid (pp_payload q) ident pw)) (set_sessions sm en), rs')"
proof -
  let ?r = "setSessionId q sid"
  have r: "pp_opcode ?r = LOGIN_REQ" "pp_sessionId ?r = sid" "body_of ?r = body_of q"
    "pp_payload ?r = pp_payload q" "pp_bodyLen ?r = pp_bodyLen q"
    using assms(2) by (simp_all add: setSessionId_def body_of_def)
  have "EventFactory_create ?r = Some (Some (LoginReqEvent sid (pp_payload q) ident pw))"
    using parseLoginReq_fields[of ?r] parsed_body(1)[OF assms(1)] r assms(6)
    by (simp add: EventFactory_cases)
  with assms r show ?thesis
    by (simp add: RxRouter_handlePacket_def rx_session_def selectShard_def)
qed

lemma create_rand:
  assumes "create sm q (Some sid # rs) = Some (sm', r, rs', ok)" "sid \<noteq> 0"
  shows "rs' = (if ok then rs else Some sid # rs)"
  using assms(1) by (cases rule: create_cases) (use assms(2) in auto)

lemma rx_session_rand:
  assumes "rx_session q (en, Some sid # rs) = Some ((en', rs'), r, ok)" "sid \<noteq> 0"
  shows "rs' = rs \<or> rs' = Some sid # rs"
proof (cases "pp_opcode q = LOGIN_REQ \<and> pp_sessionId q = 0")
  case True
  with assms(1) obtain sm r' ok' where "create (eg_sessions (en_egress en)) q (Some sid # rs) =
      Some (sm, r', rs', ok')" by (auto simp: rx_session_def split: bind_splits)
  from create_rand[OF this assms(2)] show ?thesis by (simp split: if_splits)
next
  case False
  with assms(1) show ?thesis by (auto simp: rx_session_def split_beta Let_def)
qed

lemma RxRouter_rand:
  assumes "RxRouter_handlePacket packet (en, Some sid # rs) = Some (en', rs')" "sid \<noteq> 0"
  shows "rs' = rs \<or> rs' = Some sid # rs"
proof (cases "PacketParser_parse (Some packet)")
  case None
  with assms(1) show ?thesis by (simp add: RxRouter_handlePacket_def)
next
  case (Some q)
  with assms(1) obtain en1 r ok where "rx_session q (en, Some sid # rs) = Some ((en1, rs'), r, ok)"
    by (auto simp: RxRouter_handlePacket_def split: bind_splits if_splits)
  from rx_session_rand[OF this assms(2)] show ?thesis .
qed

lemma engine_step_wf:
  assumes "engine_wf en" "en_shards en \<noteq> []" "sid \<noteq> 0" "op_ok (length (en_shards en)) op"
  shows "\<exists>en' rs'. engine_step op (en, Some sid # rs) = Some (en', rs') \<and> engine_wf en' \<and>
    length (en_shards en') = length (en_shards en) \<and> (rs' = rs \<or> rs' = Some sid # rs)"
proof (cases op)
  case (RxPacket packet)
  have "rand_ok (Some sid # rs)" using assms(3) by (simp add: rand_ok_def)
  from RxRouter_wf[OF assms(1) this assms(2), of packet] RxRouter_rand[OF _ assms(3)] RxPacket
  show ?thesis by fastforce
next
  case (ShardPass env now i)
  with assms(4) processPacket_pass_wf[OF assms(1), of env i now] show ?thesis by auto
qed

subsection \<open>Properties\<close>

text \<open>
  C2. No input brings the engine down: from a well-formed state, any sequence of packets (any
  bytes at all) and shard passes runs through without undefined behaviour, null dereference or
  endless loop, and ends in a well-formed state, as long as \<open>RAND_bytes\<close> delivers ids and the
  database driver null-terminates passwords.
\<close>

theorem engine_never_fails:
  assumes "engine_wf en" "en_shards en \<noteq> []" "list_all (op_ok (length (en_shards en))) ops"
    and "list_all (\<lambda>r. r \<noteq> None \<and> r \<noteq> Some 0) rs" "length ops \<le> length rs"
  shows "\<exists>en' rs'. ofold engine_step ops (en, rs) = Some (en', rs') \<and> engine_wf en' \<and>
    length (en_shards en') = length (en_shards en)"
  using assms
proof (induction ops arbitrary: en rs)
  case Nil
  then show ?case by simp
next
  case (Cons op ops)
  from Cons.prems(4,5) obtain sid rs0 where rs: "rs = Some sid # rs0" "sid \<noteq> 0" by (cases rs) auto
  from engine_step_wf[OF Cons.prems(1,2) rs(2), of op rs0] Cons.prems(3) obtain en1 rs1 where s:
    "engine_step op (en, rs) = Some (en1, rs1)" "engine_wf en1"
    "length (en_shards en1) = length (en_shards en)" "rs1 = rs0 \<or> rs1 = Some sid # rs0"
    unfolding rs(1) by auto
  have "en_shards en1 \<noteq> []" using s(3) Cons.prems(2) by (metis length_0_conv)
  moreover have "list_all (\<lambda>r. r \<noteq> None \<and> r \<noteq> Some 0) rs1" "length ops \<le> length rs1"
    using s(4) Cons.prems(4,5) rs(1) by auto
  ultimately have "\<exists>en' rs'. ofold engine_step ops (en1, rs1) = Some (en', rs') \<and> engine_wf en' \<and>
      length (en_shards en') = length (en_shards en1)"
    using Cons.IH[OF s(2)] Cons.prems(3) s(3) by simp
  with s(1,3) show ?case by auto
qed

text \<open>A small engine: two shards, ports of capacity 2, one session.\<close>

definition demo_engine :: Engine where
  "demo_engine = \<lparr>en_egress = demo_egress, en_shards = initWorkers 2 initMarkets (\<lambda>_. SnapshotMissing),
     en_markets = initMarkets, en_db = None, en_txRouter = True, en_promises = []\<rparr>"

definition demo_env :: Env where
  "demo_env = \<lparr>ev_odbc = \<lambda>_. demo_odbc [0], ev_clock = 0\<rparr>"

lemma demo_engine_wf: "engine_wf demo_engine" "length (en_shards demo_engine) = 2" "env_ok demo_env"
  using demo_egress_wf
  by (simp_all add: engine_wf_def demo_engine_def initWorkers_def mk_ShardWorker_def initMarkets_def
      upt_rec Let_def env_ok_def demo_env_def demo_odbc_def)

theorem engine_never_fails_witness:
  "\<exists>en' rs'. ofold engine_step [RxPacket (demo_packet UDP [1, 2, 3]), ShardPass demo_env 0 1,
      RxPacket (demo_packet TLS (wire_packet 1 0x10 0 0 []))] (demo_engine, [Some 7, Some 8, Some 9]) =
      Some (en', rs') \<and> engine_wf en' \<and> length (en_shards en') = 2"
proof -
  have "en_shards demo_engine \<noteq> []" using demo_engine_wf(2) by auto
  from engine_never_fails[OF demo_engine_wf(1) this, of "[RxPacket (demo_packet UDP [1, 2, 3]),
      ShardPass demo_env 0 1, RxPacket (demo_packet TLS (wire_packet 1 0x10 0 0 []))]"
      "[Some 7, Some 8, Some 9]"] demo_engine_wf
  show ?thesis by simp
qed

lemma create_erase:
  assumes "map_of (m_tlsFdToSessionId sm) (pp_fd q) = None" "protocol (pp_connInfo q) = TLS"
    and "generateSecureSessionId rs = Some (sid, rs')" "session_of sm sid = None"
  obtains sm1 where "create sm q rs = Some (sm1, setSessionId q sid, rs', True)"
    "session_of sm1 sid = Some ((Session_bind (mk_Session sid) q)\<lparr>s_state := PRE_AUTH\<rparr>)"
    "erase sm1 sid = sm"
proof
  show "create sm q rs = Some (sm\<lparr>m_sessions := m_sessions sm @
      [(sid, (Session_bind (mk_Session sid) q)\<lparr>s_state := PRE_AUTH\<rparr>)],
      m_tlsFdToSessionId := m_tlsFdToSessionId sm @ [(pp_fd q, sid)]\<rparr>, setSessionId q sid, rs', True)"
    by (rule create_new[OF assms(1,3,4)])
qed (use assms in \<open>simp_all add: map_add_def erase_def delete_snoc_fresh Session_bind_fields\<close>)

text \<open>The state between the two halves of a login: the new session is there, its event is queued.\<close>

lemma login_dispatched:
  assumes "engine_wf en" "protocol (pk_connInfo packet) = TLS"
    and pl: "pk_payload packet = wire_packet ver 0x10 0 flags (login_body ident pw) @ rest"
    and len: "length ident + length pw + 4 < 65536"
    and fd: "map_of (m_tlsFdToSessionId (eg_sessions (en_egress en))) (pk_fd packet) = None"
    and sid: "generateSecureSessionId rs = Some (sid, rs')" "session_of (eg_sessions (en_egress en)) sid = None"
    and i: "en_shards en \<noteq> []" "i = unat (drop_bit 32 sid) mod length (en_shards en)"
  obtains sm1 s where "session_of sm1 sid = Some s" "s_tlsFd s = pk_fd packet"
    "erase sm1 sid = eg_sessions (en_egress en)" "sm_wf sm1"
    "RxRouter_handlePacket packet (en, rs) = Some (dispatch i
      (Some (LoginReqEvent sid (pk_payload packet) ident pw)) (set_sessions sm1 en), rs')"
proof -
  let ?b = "login_body ident pw" and ?sm = "eg_sessions (en_egress en)"
  let ?q = "parsed_of packet ver 0x10 0 flags (length ?b)"
  have lb: "length ?b < 65536" using len by (simp add: login_body_def)
  have q: "PacketParser_parse (Some packet) = Some ?q" by (rule parse_wire_packet[OF pl lb])
  have f: "pp_opcode ?q = LOGIN_REQ" "pp_sessionId ?q = 0" "pp_fd ?q = pk_fd packet"
    "pp_connInfo ?q = pk_connInfo packet" "body_of ?q = ?b" "pp_payload ?q = pk_payload packet"
    using pl by (simp_all add: parsed_of_def body_of_def wire_packet_def)
  have lf: "login_fields (body_of ?q) = Some (ident, pw)"
    using login_fields_body[of ident pw "[]"] len f(5) by simp
  obtain sm1 where c:
    "create ?sm ?q rs = Some (sm1, setSessionId ?q sid, rs', True)"
    "session_of sm1 sid = Some ((Session_bind (mk_Session sid) ?q)\<lparr>s_state := PRE_AUTH\<rparr>)"
    "erase sm1 sid = ?sm"
    by (rule create_erase[of ?sm ?q rs sid rs']) (use fd assms(2) sid f(3,4) in simp_all)
  have "sid \<noteq> 0" using sid(1) by (rule generate_nonzero)
  from rx_login[OF q f(1,2) c(1) this lf i(1)] i(2) f(6)
  have "RxRouter_handlePacket packet (en, rs) = Some (dispatch i
      (Some (LoginReqEvent sid (pk_payload packet) ident pw)) (set_sessions sm1 en), rs')" by simp
  moreover have "sm_wf sm1" using sm_wf_create[OF engine_wf_sessions[OF assms(1)] c(1)] .
  moreover have "s_tlsFd ((Session_bind (mk_Session sid) ?q)\<lparr>s_state := PRE_AUTH\<rparr>) = pk_fd packet"
    using f(3,4) assms(2) by (simp add: Session_bind_fields)
  ultimately show ?thesis using that[OF c(2) _ c(3)] by blast
qed

text \<open>
  C1. A login over TLS from end to end: the request becomes one session and one event in the shard
  that the upper half of the session's id selects; that shard's next pass queues exactly one reply
  for the connection the request came from. With right credentials it is LOGIN_SUCCESS_RES with
  the new session's id and the session is AUTH; otherwise it is LOGIN_FAIL_RES and the session
  tables are what they were before.
\<close>

theorem login_end_to_end:
  assumes "engine_wf en" "env_ok env" "protocol (pk_connInfo packet) = TLS"
    and pl: "pk_payload packet = wire_packet ver 0x10 0 flags (login_body ident pw) @ rest"
    and len: "length ident + length pw + 4 < 65536"
    and fd: "map_of (m_tlsFdToSessionId (eg_sessions (en_egress en))) (pk_fd packet) = None"
    and sid: "generateSecureSessionId rs = Some (sid, rs')" "session_of (eg_sessions (en_egress en)) sid = None"
    and i: "en_shards en \<noteq> []" "i = unat (drop_bit 32 sid) mod length (en_shards en)"
    and idle: "sw_events (en_shards en ! i) = []" "sw_actions (en_shards en ! i) = []"
    and port: "eg_tls (en_egress en) = Some port" "port_room port"
  shows "\<exists>en1 en2 port' reply. RxRouter_handlePacket packet (en, rs) = Some (en1, rs') \<and>
    processPacket_pass env now i en1 = Some en2 \<and> eg_tls (en_egress en2) = Some port' \<and>
    port_list port' = port_list port @ [reply] \<and> pk_fd reply = pk_fd packet \<and>
    (if credentials_ok env en ident pw
     then pk_payload reply = wire_packet 1 0x11 sid 0 [1] \<and>
       map_option s_state (session_of (eg_sessions (en_egress en2)) sid) = Some AUTH
     else pk_payload reply = wire_packet 1 0x12 0 0 [0] \<and>
       eg_sessions (en_egress en2) = eg_sessions (en_egress en))"
proof -
  let ?ok = "credentials_ok env en ident pw"
  from login_dispatched[OF assms(1,3) pl len fd sid i] obtain sm1 s where d:
    "session_of sm1 sid = Some s" "s_tlsFd s = pk_fd packet"
    "erase sm1 sid = eg_sessions (en_egress en)" "sm_wf sm1"
    "RxRouter_handlePacket packet (en, rs) = Some (dispatch i
      (Some (LoginReqEvent sid (pk_payload packet) ident pw)) (set_sessions sm1 en), rs')" .
  define en1 where "en1 = dispatch i (Some (LoginReqEvent sid (pk_payload packet) ident pw)) (set_sessions sm1 en)"
  have lt: "i < length (en_shards en)" using i by simp
  have e1: "engine_wf en1"
    unfolding en1_def by (intro engine_wf_dispatch engine_wf_set_sessions assms(1) d(4))
  have e: "i < length (en_shards en1)" "sw_actions (en_shards en1 ! i) = []"
    "sw_events (en_shards en1 ! i) = [LoginReqEvent sid (pk_payload packet) ident pw]"
    "eg_sessions (en_egress en1) = sm1" "egress_port (en_egress en1) TLS = Some port"
    "en_db en1 = en_db en"
    using lt idle port(1) by (simp_all add: en1_def dispatch_def enqueueEvent_def set_sessions_def)
  define oc where "oc = (if ?ok then LOGIN_SUCCESS_RES else LOGIN_FAIL_RES)"
  define msg where "msg = (if ?ok then wire_packet 1 0x11 sid 0 [1] else wire_packet 1 0x12 0 0 [0])"
  define a where "a = (if ?ok then LoginSuccessResAction sid oc else LoginFailResAction sid oc)"
  have "event_action env en1 (LoginReqEvent sid (pk_payload packet) ident pw) = Some a"
    using e(6) by (simp add: a_def oc_def credentials_ok_def)
  moreover have "action_reply env (en_markets en1) a = Some (sid, oc, msg)"
    by (simp add: a_def oc_def msg_def LoginBuilder_serialize_def buildLoginResSuccess_eq buildLoginResFail_eq)
  ultimately obtain en2 where p: "processPacket_pass env now i en1 = Some en2"
    "TxRouter_handlePacket (en_egress en1) sid oc msg = Some (en_egress en2)"
    using shard_pass[OF e1 assms(2) e(1,3,2), of a now] by auto
  have w: "egress_wf (en_egress en1)" "session_of (eg_sessions (en_egress en1)) sid = Some s"
    "tx_protocol_of oc = Some TLS" using e1 e(4) d(1) by (simp_all add: engine_wf_def oc_def)
  from TxRouter_delivers[OF w e(5) port(2), of msg] p(2) obtain port' where t:
    "eg_tls (en_egress en2) = Some port'" "port_list port' = port_list port @ [reply_packet s TLS msg]"
    by auto
  have "eg_sessions (en_egress en2) = tx_state_change sm1 sid oc"
    using TxRouter_sessions[OF p(2) w(2,3)] e(4) by simp
  then have "if ?ok then map_option s_state (session_of (eg_sessions (en_egress en2)) sid) = Some AUTH
      else eg_sessions (en_egress en2) = eg_sessions (en_egress en)"
    using d(1,3) by (simp add: oc_def tx_state_change_def session_of_setState)
  moreover have "pk_fd (reply_packet s TLS msg) = pk_fd packet" "pk_payload (reply_packet s TLS msg) = msg"
    using d(2) by (simp_all add: reply_packet_def reply_fd_def)
  ultimately show ?thesis using d(5) p(1) t unfolding en1_def msg_def by auto
qed

theorem login_end_to_end_witness:
  "\<exists>en1 en2 port' reply. RxRouter_handlePacket
      (demo_packet TLS (wire_packet 1 0x10 0 0 (login_body (ascii ''test'') (ascii ''test''))))
      (demo_engine, [Some 0x100000007]) = Some (en1, []) \<and>
    processPacket_pass demo_env 0 1 en1 = Some en2 \<and> eg_tls (en_egress en2) = Some port' \<and>
    port_list port' = [reply] \<and> pk_fd reply = 7 \<and>
    pk_payload reply = wire_packet 1 0x11 0x100000007 0 [1]"
proof -
  let ?p = "demo_packet TLS (wire_packet 1 0x10 0 0 (login_body (ascii ''test'') (ascii ''test'')))"
  have d: "protocol (pk_connInfo ?p) = TLS"
    "pk_payload ?p = wire_packet 1 0x10 0 0 (login_body (ascii ''test'') (ascii ''test'')) @ []"
    "length (ascii ''test'') + length (ascii ''test'') + 4 < 65536" "pk_fd ?p = 7"
    by (simp_all add: demo_packet_def ascii_def)
  have m: "map_of (m_tlsFdToSessionId (eg_sessions (en_egress demo_engine))) (pk_fd ?p) = None"
    "session_of (eg_sessions (en_egress demo_engine)) 0x100000007 = None"
    "eg_tls (en_egress demo_engine) = Some demo_port" "en_db demo_engine = None"
    by (simp_all add: demo_engine_def demo_egress_def demo_packet_def)
  have g: "generateSecureSessionId [Some 0x100000007] = Some (0x100000007, [])" by simp
  have i: "en_shards demo_engine \<noteq> []"
    "1 = unat (drop_bit 32 (0x100000007 :: u64)) mod length (en_shards demo_engine)"
    using demo_engine_wf(2) by (auto simp: drop_bit_eq_div)
  have idle: "sw_events (en_shards demo_engine ! 1) = []" "sw_actions (en_shards demo_engine ! 1) = []"
    by (simp_all add: demo_engine_def initWorkers_def mk_ShardWorker_def Let_def)
  have "credentials_ok demo_env demo_engine (ascii ''test'') (ascii ''test'')"
    using m(4) by (simp add: credentials_ok_def)
  with login_end_to_end[OF demo_engine_wf(1,3) d(1,2,3) m(1) g m(2) i idle m(3) demo_port_wf(3), of 0]
  show ?thesis using demo_port_wf(2) d(4) by (auto; blast)
qed

lemma rx_known:
  assumes "PacketParser_parse (Some p) = Some q" "pp_sessionId q \<noteq> 0"
    and "session_of (eg_sessions (en_egress en)) (pp_sessionId q) = Some s" "en_shards en \<noteq> []"
  obtains sm where "session_of sm (pp_sessionId q) = Some (Session_bind s q)"
    "RxRouter_handlePacket p (en, rs) =
      Some (dispatch (unat (drop_bit 32 (pp_sessionId q)) mod length (en_shards en))
        (the (EventFactory_create q)) (set_sessions sm en), rs)"
proof -
  let ?sm = "fst (checkAndBind (eg_sessions (en_egress en)) q)"
  have b: "checkAndBind (eg_sessions (en_egress en)) q = (?sm, True)"
    "session_of ?sm (pp_sessionId q) = Some (Session_bind s q)"
    using assms(2,3) by (simp_all add: checkAndBind_eq)
  obtain e where e: "EventFactory_create q = Some e" using EventFactory_total[OF assms(1) refl refl] by blast
  have "rx_session q (en, rs) = Some ((set_sessions ?sm en, rs), q, True)"
    using assms(2) by (simp add: rx_session_def, subst b(1)) simp
  with assms(1,2,4) e have "RxRouter_handlePacket p (en, rs) =
      Some (dispatch (unat (drop_bit 32 (pp_sessionId q)) mod length (en_shards en)) e (set_sessions ?sm en), rs)"
    by (cases "e = None") (simp_all add: RxRouter_handlePacket_def selectShard_def dispatch_def)
  with that b(2) e show ?thesis by simp
qed

lemma dispatch_events:
  assumes "i < length (en_shards en)"
  shows "sw_events (en_shards (dispatch i e en) ! i) = sw_events (en_shards en ! i) @ (case e of None \<Rightarrow> [] | Some x \<Rightarrow> [x])"
    "j \<noteq> i \<Longrightarrow> en_shards (dispatch i e en) ! j = en_shards en ! j"
    "length (en_shards (dispatch i e en)) = length (en_shards en)"
    "en_egress (dispatch i e en) = en_egress en"
  using assms by (simp_all add: dispatch_def enqueueEvent_def split: option.split)

text \<open>The event of a packet, if it has one.\<close>

definition packet_events :: "Packet \<Rightarrow> Event list" where
  "packet_events p =
     (case PacketParser_parse (Some p) of
        None \<Rightarrow> []
      | Some q \<Rightarrow> (case EventFactory_create q of Some (Some e) \<Rightarrow> [e] | _ \<Rightarrow> []))"

text \<open>The packet belongs to session \<open>sid\<close>.\<close>

definition of_session :: "u64 \<Rightarrow> Packet \<Rightarrow> bool" where
  "of_session sid p \<longleftrightarrow> map_option pp_sessionId (PacketParser_parse (Some p)) = Some sid"

text \<open>
  C11. The packets of one session, whatever worker they come through, all go to the same shard and
  their events stand in its queue in the order in which the packets were routed, behind what was
  there; no other shard sees any of them.
\<close>

theorem session_packets_ordered:
  assumes "sid \<noteq> 0" "session_of (eg_sessions (en_egress en)) sid \<noteq> None" "en_shards en \<noteq> []"
    and "list_all (of_session sid) ps" "i = unat (drop_bit 32 sid) mod length (en_shards en)"
  shows "\<exists>en'. ofold RxRouter_handlePacket ps (en, rs) = Some (en', rs) \<and>
    sw_events (en_shards en' ! i) = sw_events (en_shards en ! i) @ concat (map packet_events ps) \<and>
    (\<forall>j. j \<noteq> i \<longrightarrow> en_shards en' ! j = en_shards en ! j)"
  using assms
proof (induction ps arbitrary: en)
  case Nil
  then show ?case by simp
next
  case (Cons p ps)
  from Cons.prems(4) obtain q where q: "PacketParser_parse (Some p) = Some q" "pp_sessionId q = sid"
    by (auto simp: of_session_def)
  from Cons.prems(2) obtain s where s: "session_of (eg_sessions (en_egress en)) (pp_sessionId q) = Some s"
    using q(2) by auto
  from rx_known[OF q(1) _ s Cons.prems(3), of rs] Cons.prems(1) q(2) obtain sm where sm:
    "session_of sm sid = Some (Session_bind s q)"
    "RxRouter_handlePacket p (en, rs) =
      Some (dispatch (unat (drop_bit 32 sid) mod length (en_shards en))
        (the (EventFactory_create q)) (set_sessions sm en), rs)" by auto
  define en1 where "en1 = dispatch i (the (EventFactory_create q)) (set_sessions sm en)"
  have lt: "i < length (en_shards en)" using Cons.prems(3,5) by simp
  obtain e where e: "EventFactory_create q = Some e" using EventFactory_total[OF q(1) refl refl] by blast
  have "packet_events p = (case e of None \<Rightarrow> [] | Some x \<Rightarrow> [x])"
    by (simp add: packet_events_def q(1) e split: option.split)
  with lt have d: "sw_events (en_shards en1 ! i) = sw_events (en_shards en ! i) @ packet_events p"
    "\<And>j. j \<noteq> i \<Longrightarrow> en_shards en1 ! j = en_shards en ! j" "length (en_shards en1) = length (en_shards en)"
    "session_of (eg_sessions (en_egress en1)) sid \<noteq> None"
    using sm(1) by (simp_all add: en1_def e dispatch_events)
  then have "en_shards en1 \<noteq> []" using Cons.prems(3) by (metis length_0_conv)
  from Cons.IH[OF Cons.prems(1) d(4) this] Cons.prems(4,5) d(3) obtain en' where
    "ofold RxRouter_handlePacket ps (en1, rs) = Some (en', rs)"
    "sw_events (en_shards en' ! i) = sw_events (en_shards en1 ! i) @ concat (map packet_events ps)"
    "\<forall>j. j \<noteq> i \<longrightarrow> en_shards en' ! j = en_shards en1 ! j" by auto
  moreover have "RxRouter_handlePacket p (en, rs) = Some (en1, rs)"
    using sm(2) Cons.prems(5) by (simp add: en1_def)
  ultimately show ?case using d(1,2) by auto
qed

text \<open>
  C12. A packet with an unknown session id, or with id 0 and any opcode but LOGIN_REQ, leaves no
  trace: sessions, shard queues and transmit queues stay as they are.
\<close>

theorem unknown_session_dropped:
  assumes "PacketParser_parse (Some p) = Some q" "\<not> (pp_opcode q = LOGIN_REQ \<and> pp_sessionId q = 0)"
    and "pp_sessionId q = 0 \<or> session_of (eg_sessions (en_egress en)) (pp_sessionId q) = None"
  shows "RxRouter_handlePacket p (en, rs) = Some (en, rs)"
proof -
  have "checkAndBind (eg_sessions (en_egress en)) q = (eg_sessions (en_egress en), False)"
    using assms(3) by (auto simp: checkAndBind_eq)
  moreover have "set_sessions (eg_sessions (en_egress en)) en = en" by (simp add: set_sessions_def)
  ultimately show ?thesis using assms(1,2) by (auto simp: RxRouter_handlePacket_def rx_session_def)
qed

lemma demo_ping:
  obtains q where "PacketParser_parse (Some (demo_packet UDP (wire_packet 1 0x90 sid 0 (ping_body 3 4)))) = Some q"
    "pp_sessionId q = sid" "pp_opcode q = PING_REQ"
  by (rule event_of_wire[of "demo_packet UDP (wire_packet 1 0x90 sid 0 (ping_body 3 4))" 1 PING_REQ sid 0
        "ping_body 3 4"]) (simp_all add: demo_packet_def ping_body_def)

theorem session_packets_ordered_witness:
  "\<exists>en'. ofold RxRouter_handlePacket
      [demo_packet UDP (wire_packet 1 0x90 9 0 (ping_body 3 4)), demo_packet UDP (wire_packet 1 0x90 9 0 (ping_body 3 4))]
      (demo_engine, []) = Some (en', []) \<and>
    sw_events (en_shards en' ! 0) = sw_events (en_shards demo_engine ! 0) @
      packet_events (demo_packet UDP (wire_packet 1 0x90 9 0 (ping_body 3 4))) @
      packet_events (demo_packet UDP (wire_packet 1 0x90 9 0 (ping_body 3 4)))"
proof -
  let ?p = "demo_packet UDP (wire_packet 1 0x90 9 0 (ping_body 3 4))"
  have p: "list_all (of_session 9) [?p, ?p]" by (rule demo_ping[of 9]) (simp add: of_session_def)
  have s: "session_of (eg_sessions (en_egress demo_engine)) 9 \<noteq> None"
    by (simp add: demo_engine_def demo_egress_def)
  have i: "en_shards demo_engine \<noteq> []"
    "0 = unat (drop_bit 32 (9 :: u64)) mod length (en_shards demo_engine)"
    using demo_engine_wf(2) by (auto simp: drop_bit_eq_div)
  show ?thesis using session_packets_ordered[OF _ s i(1) p i(2)] by auto
qed

theorem unknown_session_dropped_witness:
  "RxRouter_handlePacket (demo_packet UDP (wire_packet 1 0x90 8 0 (ping_body 3 4))) (demo_engine, []) =
     Some (demo_engine, [])"
  by (rule demo_ping[of 8]) (auto intro: unknown_session_dropped simp: demo_engine_def demo_egress_def)

theorem shard_pass_answers_witness:
  "\<exists>en' payload. processPacket_pass demo_env 0 1
      (dispatch 1 (Some (PingReqEvent 9 [] 3 4)) demo_engine) = Some en' \<and>
    PingBuilder_serialize PING_RES 9 3 4 0 = Some payload \<and>
    TxRouter_handlePacket demo_egress 9 PING_RES payload = Some (en_egress en') \<and>
    sw_events (en_shards en' ! 1) = []"
proof -
  let ?en = "dispatch 1 (Some (PingReqEvent 9 [] 3 4)) demo_engine"
  have w: "engine_wf ?en" by (rule engine_wf_dispatch[OF demo_engine_wf(1)])
  have l: "1 < length (en_shards demo_engine)" using demo_engine_wf(2) by simp
  have e: "sw_events (en_shards ?en ! 1) = [PingReqEvent 9 [] 3 4]" "sw_actions (en_shards ?en ! 1) = []"
    "1 < length (en_shards ?en)" "en_egress ?en = demo_egress"
    using l by (simp_all add: dispatch_def enqueueEvent_def)
      (simp_all add: demo_engine_def initWorkers_def mk_ShardWorker_def Let_def)
  from shard_pass_answers[OF w demo_engine_wf(3) e(3,1,2), of "PingResAction 9 PING_RES 3 4" 0] e(4)
  show ?thesis by (auto simp: demo_env_def)
qed

end
