(* ===== verification/ByteRing.thy ===== *)
theory ByteRing
  imports Prelude
begin

text \<open>
  The byte ring of \<open>shared/algorithm/ByteRingBuffer\<close> (and its identical copy under \<open>mgmtd/\<close>):
  the receive and transmit buffer of every stream connection. The theory models each method,
  gives the ring its abstract value (the queue of bytes it holds) and proves that the methods
  implement a bounded byte queue and never leave the buffer. The locale \<open>byte_fifo\<close> states that
  contract for the ring's clients.
\<close>

subsection \<open>State and methods\<close>

record ByteRingBuffer =
  m_buffer :: bytes
  m_head :: nat
  m_tail :: nat
  m_size :: nat

abbreviation rb_cap :: "ByteRingBuffer \<Rightarrow> nat" where
  "rb_cap r \<equiv> length (m_buffer r)"

definition rb_new :: "nat \<Rightarrow> ByteRingBuffer" where
  "rb_new capacity = \<lparr>m_buffer = replicate capacity 0, m_head = 0, m_tail = 0, m_size = 0\<rparr>"

definition rb_readable :: "ByteRingBuffer \<Rightarrow> nat" where
  "rb_readable r = m_size r"

definition rb_writable :: "ByteRingBuffer \<Rightarrow> nat" where
  "rb_writable r = size_sub (rb_cap r) (m_size r)"

text \<open>A pointer into the buffer is its offset; \<open>None\<close> is \<open>nullptr\<close>.\<close>

definition rb_writePtr :: "ByteRingBuffer \<Rightarrow> nat option" where
  "rb_writePtr r = (if rb_writable r = 0 then None else Some (m_tail r))"

definition rb_writeLen :: "ByteRingBuffer \<Rightarrow> nat" where
  "rb_writeLen r =
     (if rb_writable r = 0 then 0
      else let toEnd = size_sub (rb_cap r) (m_tail r) in min toEnd (rb_writable r))"

text \<open>\<open>% m_buffer.size()\<close> traps on an empty buffer.\<close>

definition rb_produce :: "ByteRingBuffer \<Rightarrow> nat \<Rightarrow> ByteRingBuffer option" where
  "rb_produce r n =
     (if rb_cap r = 0 then None
      else Some (r\<lparr>m_tail := size_add (m_tail r) n mod rb_cap r,
                   m_size := size_add (m_size r) n\<rparr>))"

text \<open>The copy to \<open>writePtr()\<close>: through a null pointer or out of the buffer is undefined.\<close>

definition rb_store :: "ByteRingBuffer \<Rightarrow> bytes \<Rightarrow> ByteRingBuffer option" where
  "rb_store r bs = do {
     p \<leftarrow> rb_writePtr r;
     buf \<leftarrow> mem_write (m_buffer r) p bs;
     Some (r\<lparr>m_buffer := buf\<rparr>)
   }"

function rb_write_loop :: "ByteRingBuffer \<Rightarrow> bytes \<Rightarrow> nat \<Rightarrow> (ByteRingBuffer \<times> nat) option" where
  "rb_write_loop r data written =
     (if written < length data \<and> rb_writable r > 0 then
        let n = min (rb_writeLen r) (length data - written) in
        (case rb_store r (take n (drop written data)) of
           None \<Rightarrow> None
         | Some r1 \<Rightarrow>
             (case rb_produce r1 n of
                None \<Rightarrow> None
              | Some r2 \<Rightarrow> rb_write_loop r2 data (written + n)))
      else Some (r, written))"
  by pat_completeness auto
termination
proof (relation "measures [\<lambda>(r, data, written). length data - written,
    \<lambda>(r, data, written). if m_tail r = rb_cap r then 1 else 0]", goal_cases)
  case (2 r data written n r1 r2)
  show ?case
  proof (cases "n = 0")
    case True
    with 2 have "size_sub (rb_cap r) (m_tail r) = 0"
      by (auto simp: rb_writeLen_def Let_def split: if_splits)
    moreover from 2 True have "m_tail r \<le> rb_cap r" "rb_cap r1 = rb_cap r" "m_tail r1 = m_tail r"
      by (auto simp: rb_store_def rb_writePtr_def blit_def split: bind_splits if_splits)
    ultimately have "m_tail r = rb_cap r" "rb_cap r1 = rb_cap r" "m_tail r1 = rb_cap r" by auto
    moreover from 2 have "m_tail r2 = size_add (m_tail r1) n mod rb_cap r1"
      "rb_cap r2 = rb_cap r1" "rb_cap r1 > 0"
      by (auto simp: rb_produce_def split: if_splits)
    ultimately have "m_tail r = rb_cap r" "m_tail r2 < rb_cap r2" by simp_all
    with True show ?thesis by simp
  next
    case False
    with 2 have "length data - (written + n) < length data - written" by linarith
    then show ?thesis by simp
  qed
qed auto

declare rb_write_loop.simps [simp del]

definition rb_write :: "ByteRingBuffer \<Rightarrow> bytes \<Rightarrow> (ByteRingBuffer \<times> nat) option" where
  "rb_write r data = rb_write_loop r data 0"

definition rb_readPtr :: "ByteRingBuffer \<Rightarrow> nat option" where
  "rb_readPtr r = (if rb_readable r = 0 then None else Some (m_head r))"

definition rb_readLen :: "ByteRingBuffer \<Rightarrow> nat" where
  "rb_readLen r =
     (if rb_readable r = 0 then 0
      else let toEnd = size_sub (rb_cap r) (m_head r) in min toEnd (rb_readable r))"

definition rb_consume :: "ByteRingBuffer \<Rightarrow> nat \<Rightarrow> ByteRingBuffer option" where
  "rb_consume r n =
     (if rb_cap r = 0 then None
      else Some (r\<lparr>m_head := size_add (m_head r) n mod rb_cap r,
                   m_size := size_sub (m_size r) n\<rparr>))"

text \<open>The copy from \<open>readPtr()\<close>.\<close>

definition rb_load :: "ByteRingBuffer \<Rightarrow> nat \<Rightarrow> bytes option" where
  "rb_load r n = do { p \<leftarrow> rb_readPtr r; mem_read (m_buffer r) p n }"

function rb_read_loop :: "ByteRingBuffer \<Rightarrow> nat \<Rightarrow> bytes \<Rightarrow> (ByteRingBuffer \<times> bytes) option" where
  "rb_read_loop r len out =
     (if length out < len \<and> rb_readable r > 0 then
        let n = min (rb_readLen r) (len - length out) in
        (case rb_load r n of
           None \<Rightarrow> None
         | Some chunk \<Rightarrow>
             (case rb_consume r n of
                None \<Rightarrow> None
              | Some r1 \<Rightarrow> rb_read_loop r1 len (out @ chunk)))
      else Some (r, out))"
  by pat_completeness auto
termination
proof (relation "measures [\<lambda>(r, len, out). len - length out,
    \<lambda>(r, len, out). if m_head r = rb_cap r then 1 else 0]", goal_cases)
  case (2 r len out n chunk r1)
  from 2 have ck: "length chunk = n" "m_head r \<le> rb_cap r"
    by (auto simp: rb_load_def rb_readPtr_def split: bind_splits if_splits)
  show ?case
  proof (cases "n = 0")
    case True
    with 2 have "size_sub (rb_cap r) (m_head r) = 0"
      by (auto simp: rb_readLen_def Let_def split: if_splits)
    with ck have "m_head r = rb_cap r" by simp
    moreover from 2 have "m_head r1 = size_add (m_head r) n mod rb_cap r" "rb_cap r1 = rb_cap r"
      "rb_cap r > 0"
      by (auto simp: rb_consume_def split: if_splits)
    ultimately have "m_head r = rb_cap r" "m_head r1 < rb_cap r1" by simp_all
    with True ck show ?thesis by simp
  next
    case False
    with 2 have "len - (length out + n) < len - length out" by linarith
    with ck show ?thesis by simp
  qed
qed auto

declare rb_read_loop.simps [simp del]

definition rb_read :: "ByteRingBuffer \<Rightarrow> nat \<Rightarrow> (ByteRingBuffer \<times> bytes) option" where
  "rb_read r len = rb_read_loop r len []"

definition rb_peek :: "ByteRingBuffer \<Rightarrow> nat \<Rightarrow> bytes option" where
  "rb_peek r len =
     (let toRead = min len (m_size r);
          first = min toRead (size_sub (rb_cap r) (m_head r))
      in do {
        a \<leftarrow> mem_read (m_buffer r) (m_head r) first;
        b \<leftarrow> (if toRead > first then mem_read (m_buffer r) 0 (toRead - first) else Some []);
        Some (a @ b)
      })"

definition rb_clear :: "ByteRingBuffer \<Rightarrow> ByteRingBuffer" where
  "rb_clear r = r\<lparr>m_head := 0, m_tail := 0, m_size := 0\<rparr>"

subsection \<open>Well-formed rings and their contents\<close>

text \<open>
  The class invariant. The bound on the capacity is what a \<open>std::vector<uint8_t>\<close> can have.
\<close>

definition rb_wf :: "ByteRingBuffer \<Rightarrow> bool" where
  "rb_wf r \<longleftrightarrow> 0 < rb_cap r \<and> 2 * rb_cap r \<le> SIZE_MOD \<and> m_head r < rb_cap r \<and>
     m_size r \<le> rb_cap r \<and> m_tail r = (m_head r + m_size r) mod rb_cap r"

definition rb_contents :: "ByteRingBuffer \<Rightarrow> bytes" where
  "rb_contents r = map (\<lambda>i. m_buffer r ! ((m_head r + i) mod rb_cap r)) [0..<m_size r]"

text \<open>
  \<open>ring_of\<close> is a ring that holds given bytes from its start. A client's use of the ring as a sequence of calls with their results, and the same calls on the
  abstract object: a byte queue of bounded length.
\<close>

definition ring_of :: "nat \<Rightarrow> bytes \<Rightarrow> ByteRingBuffer" where
  "ring_of c bs = \<lparr>m_buffer = bs @ replicate (c - length bs) 0, m_head = 0,
     m_tail = length bs mod c, m_size = length bs\<rparr>"

datatype ring_op = RWrite bytes | RRead nat | RPeek nat | RClear
datatype ring_out = OWritten nat | OBytes bytes | OUnit

fun ring_step :: "ring_op \<Rightarrow> ByteRingBuffer \<Rightarrow> (ByteRingBuffer \<times> ring_out) option" where
  "ring_step (RWrite bs) r = do { (r', n) \<leftarrow> rb_write r bs; Some (r', OWritten n) }"
| "ring_step (RRead n) r = do { (r', bs) \<leftarrow> rb_read r n; Some (r', OBytes bs) }"
| "ring_step (RPeek n) r = do { bs \<leftarrow> rb_peek r n; Some (r, OBytes bs) }"
| "ring_step RClear r = Some (rb_clear r, OUnit)"

fun fifo_step :: "nat \<Rightarrow> ring_op \<Rightarrow> bytes \<Rightarrow> bytes \<times> ring_out" where
  "fifo_step c (RWrite bs) xs =
     (xs @ take (c - length xs) bs, OWritten (min (length bs) (c - length xs)))"
| "fifo_step c (RRead n) xs = (drop n xs, OBytes (take n xs))"
| "fifo_step c (RPeek n) xs = (xs, OBytes (take n xs))"
| "fifo_step c RClear xs = ([], OUnit)"

primrec ring_run :: "ring_op list \<Rightarrow> ByteRingBuffer \<Rightarrow> (ByteRingBuffer \<times> ring_out list) option" where
  "ring_run [] r = Some (r, [])"
| "ring_run (op # ops) r =
     do { (r1, o1) \<leftarrow> ring_step op r; (r2, os) \<leftarrow> ring_run ops r1; Some (r2, o1 # os) }"

primrec fifo_run :: "nat \<Rightarrow> ring_op list \<Rightarrow> bytes \<Rightarrow> bytes \<times> ring_out list" where
  "fifo_run c [] xs = (xs, [])"
| "fifo_run c (op # ops) xs =
     (let (xs1, o1) = fifo_step c op xs; (xs2, os) = fifo_run c ops xs1 in (xs2, o1 # os))"

lemma length_rb_contents [simp]: "length (rb_contents r) = m_size r"
  by (simp add: rb_contents_def)

lemma rb_contents_empty_iff [simp]: "rb_contents r = [] \<longleftrightarrow> m_size r = 0"
  by (metis length_0_conv length_rb_contents)

lemma nth_rb_contents:
  "i < m_size r \<Longrightarrow> rb_contents r ! i = m_buffer r ! ((m_head r + i) mod rb_cap r)"
  by (simp add: rb_contents_def)

lemma rb_wf_new [inv_intros]:
  "0 < c \<Longrightarrow> 2 * c \<le> SIZE_MOD \<Longrightarrow> rb_wf (rb_new c)"
  by (simp add: rb_wf_def rb_new_def)

lemma rb_cap_new [simp]: "rb_cap (rb_new c) = c"
  by (simp add: rb_new_def)

lemma rb_contents_new [simp]: "rb_contents (rb_new c) = []"
  by (simp add: rb_contents_def rb_new_def)

lemma rb_wf_clear [inv_intros]: "rb_wf r \<Longrightarrow> rb_wf (rb_clear r)"
  by (auto simp: rb_wf_def rb_clear_def)

lemma rb_contents_clear [simp]: "rb_contents (rb_clear r) = []"
  by (simp add: rb_contents_def rb_clear_def)

lemma rb_cap_ring_of [simp]: "length bs \<le> c \<Longrightarrow> rb_cap (ring_of c bs) = c"
  by (simp add: ring_of_def)

lemma rb_contents_ring_of [simp]: "length bs \<le> c \<Longrightarrow> rb_contents (ring_of c bs) = bs"
  by (auto simp: rb_contents_def ring_of_def nth_append intro!: nth_equalityI)

lemma rb_wf_ring_of [inv_intros]:
  "length bs \<le> c \<Longrightarrow> 0 < c \<Longrightarrow> 2 * c \<le> SIZE_MOD \<Longrightarrow> rb_wf (ring_of c bs)"
  by (simp add: rb_wf_def ring_of_def)

lemma rb_writable_wf: "rb_wf r \<Longrightarrow> rb_writable r = rb_cap r - m_size r"
  by (simp add: rb_wf_def rb_writable_def)

lemma rb_tail_lt: "rb_wf r \<Longrightarrow> m_tail r < rb_cap r"
  by (auto simp: rb_wf_def)

lemma rb_writeLen_wf: "rb_wf r \<Longrightarrow> rb_writeLen r = min (rb_cap r - m_tail r) (rb_cap r - m_size r)"
  using rb_tail_lt[of r] by (auto simp: rb_writeLen_def rb_writable_wf)

lemma rb_writeLen_pos: "rb_wf r \<Longrightarrow> 0 < rb_writeLen r \<longleftrightarrow> m_size r < rb_cap r"
  using rb_tail_lt[of r] by (auto simp: rb_writeLen_wf)

lemma rb_readLen_wf: "rb_wf r \<Longrightarrow> rb_readLen r = min (rb_cap r - m_head r) (m_size r)"
  by (auto simp: rb_readLen_def rb_readable_def rb_wf_def)

text \<open>Storing at the tail and producing appends to the contents.\<close>

lemma mod_ring_disjoint:
  assumes "s + n \<le> (c::nat)" "i < s" "j < n"
  shows "(h + i) mod c \<noteq> (h + s + j) mod c"
proof
  assume "(h + i) mod c = (h + s + j) mod c"
  then have "c dvd (h + s + j) - (h + i)"
    using mod_eq_dvd_iff_nat[of "h + i" "h + s + j" c] assms by simp
  moreover have "0 < (h + s + j) - (h + i)" "(h + s + j) - (h + i) < c" using assms by simp_all
  ultimately show False using nat_dvd_not_less by blast
qed

lemma mod_ring_tail:
  assumes "t = (h + s) mod c" "t + j < (c::nat)"
  shows "(h + s + j) mod c = t + j"
  using assms by (metis mod_add_left_eq mod_less)

lemma rb_put:
  assumes wf: "rb_wf r" and len: "length bs \<le> rb_writeLen r" and room: "m_size r < rb_cap r"
  obtains r1 r2 where "rb_store r bs = Some r1" "rb_produce r1 (length bs) = Some r2"
    "rb_wf r2" "rb_contents r2 = rb_contents r @ bs" "rb_cap r2 = rb_cap r"
proof -
  let ?c = "rb_cap r" and ?h = "m_head r" and ?s = "m_size r" and ?t = "m_tail r"
  let ?n = "length bs"
  from wf have c: "0 < ?c" "2 * ?c \<le> SIZE_MOD" "?h < ?c" "?s \<le> ?c" "?t = (?h + ?s) mod ?c"
    by (auto simp: rb_wf_def)
  have fit: "?t + ?n \<le> ?c" "?s + ?n \<le> ?c"
    using len[unfolded rb_writeLen_wf[OF wf]] rb_tail_lt[OF wf] room by linarith+
  define buf where "buf = blit (m_buffer r) ?t bs"
  have lbuf: "length buf = ?c" using fit by (simp add: buf_def)
  define r1 where "r1 = r\<lparr>m_buffer := buf\<rparr>"
  define r2 where "r2 = r1\<lparr>m_tail := (?t + ?n) mod ?c, m_size := ?s + ?n\<rparr>"
  have st: "rb_store r bs = Some r1"
    using fit room wf by (simp add: rb_store_def rb_writePtr_def rb_writable_wf r1_def buf_def
        mem_write_def)
  have pr: "rb_produce r1 ?n = Some r2"
    using c fit lbuf by (simp add: rb_produce_def r1_def r2_def)
  have cap: "rb_cap r2 = ?c" using lbuf by (simp add: r2_def r1_def)
  have wf2: "rb_wf r2"
    using c fit lbuf by (simp add: rb_wf_def r2_def r1_def mod_simps add.assoc)
  have "rb_contents r2 = rb_contents r @ bs"
  proof (rule nth_equalityI)
    show "length (rb_contents r2) = length (rb_contents r @ bs)" by (simp add: r2_def)
  next
    fix i assume "i < length (rb_contents r2)"
    then have i: "i < ?s + ?n" by (simp add: r2_def)
    then have "rb_contents r2 ! i = buf ! ((?h + i) mod ?c)"
      by (simp add: nth_rb_contents r2_def r1_def lbuf)
    also have "\<dots> = (rb_contents r @ bs) ! i"
    proof (cases "i < ?s")
      case True
      have "\<not> (?t \<le> (?h + i) mod ?c \<and> (?h + i) mod ?c < ?t + ?n)"
      proof
        assume a: "?t \<le> (?h + i) mod ?c \<and> (?h + i) mod ?c < ?t + ?n"
        then obtain j where j: "(?h + i) mod ?c = ?t + j" "j < ?n"
          by (metis le_Suc_ex nat_add_left_cancel_less)
        with fit c have "(?h + ?s + j) mod ?c = ?t + j" by (intro mod_ring_tail) auto
        with j mod_ring_disjoint[OF fit(2) True j(2), of ?h] show False by simp
      qed
      with c fit True show ?thesis
        by (simp add: buf_def nth_blit nth_append nth_rb_contents del: de_Morgan_conj)
    next
      case False
      define j where "j = i - ?s"
      have j: "i = ?s + j" "j < ?n" using False i by (auto simp: j_def)
      with fit c have "(?h + ?s + j) mod ?c = ?t + j" by (intro mod_ring_tail) auto
      with j fit show ?thesis by (simp add: buf_def nth_blit nth_append add.assoc)
    qed
    finally show "rb_contents r2 ! i = (rb_contents r @ bs) ! i" .
  qed
  from that[OF st pr wf2 this cap] show ?thesis .
qed

text \<open>Consuming drops from the front of the contents; loading reads it.\<close>

lemma rb_consume_wf:
  assumes wf: "rb_wf r" and n: "n \<le> m_size r"
  obtains r1 where "rb_consume r n = Some r1" "rb_wf r1" "rb_cap r1 = rb_cap r"
    "rb_contents r1 = drop n (rb_contents r)" "m_size r1 = m_size r - n"
proof -
  let ?c = "rb_cap r"
  from wf have c: "0 < ?c" "2 * ?c \<le> SIZE_MOD" "m_head r < ?c" "m_size r \<le> ?c"
    "m_tail r = (m_head r + m_size r) mod ?c"
    by (auto simp: rb_wf_def)
  define r1 where "r1 = r\<lparr>m_head := (m_head r + n) mod ?c, m_size := m_size r - n\<rparr>"
  have "rb_consume r n = Some r1" using c n by (simp add: rb_consume_def r1_def)
  moreover have "((m_head r + n) mod ?c + (m_size r - n)) mod ?c = (m_head r + m_size r) mod ?c"
    using n mod_add_left_eq[of "m_head r + n" ?c "m_size r - n"] by simp
  then have "rb_wf r1" using c n by (simp add: rb_wf_def r1_def)
  moreover have "rb_contents r1 = drop n (rb_contents r)"
    using c n by (intro nth_equalityI)
      (auto simp: nth_rb_contents r1_def mod_simps add.assoc add.commute add.left_commute)
  ultimately show ?thesis using that by (simp add: r1_def)
qed

lemma rb_load_wf:
  assumes wf: "rb_wf r" and n: "n \<le> rb_readLen r" and pos: "0 < m_size r"
  shows "rb_load r n = Some (take n (rb_contents r))"
proof -
  let ?c = "rb_cap r"
  from n wf have fit: "m_head r + n \<le> ?c" "n \<le> m_size r"
    by (auto simp: rb_readLen_wf rb_wf_def)
  have "take n (drop (m_head r) (m_buffer r)) = take n (rb_contents r)"
    using fit by (intro nth_equalityI) (auto simp: nth_rb_contents)
  with fit pos show ?thesis by (simp add: rb_load_def rb_readPtr_def rb_readable_def mem_read_def)
qed

subsection \<open>The loops\<close>

lemma rb_write_loop_wf:
  assumes "rb_wf r" "written \<le> length data"
  shows "\<exists>r'. rb_write_loop r data written =
      Some (r', min (length data) (written + (rb_cap r - m_size r))) \<and>
    rb_wf r' \<and> rb_cap r' = rb_cap r \<and>
    rb_contents r' = rb_contents r @ take (rb_cap r - m_size r) (drop written data)"
  using assms
proof (induction r data written rule: rb_write_loop.induct)
  case (1 r data written)
  show ?case
  proof (cases "written < length data \<and> rb_writable r > 0")
    case False
    with 1(2,3) show ?thesis
      by (auto simp: rb_write_loop.simps[of r data written] rb_writable_wf)
  next
    case True
    let ?n = "min (rb_writeLen r) (length data - written)"
    let ?bs = "take ?n (drop written data)"
    from True 1(2) have room: "m_size r < rb_cap r" by (auto simp: rb_writable_wf)
    have bs: "length ?bs = ?n" by simp
    obtain r1 r2 where s: "rb_store r ?bs = Some r1" "rb_produce r1 ?n = Some r2"
      "rb_wf r2" "rb_contents r2 = rb_contents r @ ?bs" "rb_cap r2 = rb_cap r"
      using rb_put[of r ?bs] 1(2) room bs by auto
    from arg_cong[OF s(4), of length] bs have sz: "m_size r2 = m_size r + ?n" by simp
    have nle: "?n \<le> rb_cap r - m_size r" using 1(2) by (simp add: rb_writeLen_wf)
    have le: "written + ?n \<le> length data" using 1(3) by linarith
    obtain r' where r': "rb_write_loop r2 data (written + ?n) =
        Some (r', min (length data) (written + ?n + (rb_cap r2 - m_size r2)))"
      "rb_wf r'" "rb_cap r' = rb_cap r2"
      "rb_contents r' = rb_contents r2 @ take (rb_cap r2 - m_size r2) (drop (written + ?n) data)"
      using 1(1)[OF True refl s(1,2,3) le] by blast
    have step: "rb_cap r - m_size r = ?n + (rb_cap r2 - m_size r2)"
      using sz s(5) nle by linarith
    have "rb_write_loop r data written = rb_write_loop r2 data (written + ?n)"
      using True s(1,2) by (simp add: rb_write_loop.simps[of r data written] Let_def)
    then have "rb_write_loop r data written =
        Some (r', min (length data) (written + (rb_cap r - m_size r)))"
      by (simp only: r'(1) step add.assoc)
    moreover have "rb_contents r' = rb_contents r @ take (rb_cap r - m_size r) (drop written data)"
      by (subst step) (simp only: r'(4) s(4) take_add drop_drop append_assoc add.commute[of written])
    ultimately show ?thesis using r'(2,3) s(5) by auto
  qed
qed

lemma rb_write_wf:
  assumes "rb_wf r"
  obtains r' where "rb_write r data = Some (r', min (length data) (rb_cap r - m_size r))"
    "rb_wf r'" "rb_cap r' = rb_cap r"
    "rb_contents r' = rb_contents r @ take (rb_cap r - m_size r) data"
  using rb_write_loop_wf[OF assms, of 0 data] that by (auto simp: rb_write_def)

lemma rb_read_loop_wf:
  assumes "rb_wf r"
  shows "\<exists>r'. rb_read_loop r len out = Some (r', out @ take (len - length out) (rb_contents r)) \<and>
    rb_wf r' \<and> rb_cap r' = rb_cap r \<and>
    rb_contents r' = drop (len - length out) (rb_contents r)"
  using assms
proof (induction r len out rule: rb_read_loop.induct)
  case (1 r len out)
  show ?case
  proof (cases "length out < len \<and> rb_readable r > 0")
    case False
    with 1(2) show ?thesis
      by (auto simp: rb_read_loop.simps[of r len out] rb_readable_def)
  next
    case True
    let ?n = "min (rb_readLen r) (len - length out)"
    let ?chunk = "take ?n (rb_contents r)"
    from True have pos: "0 < m_size r" by (simp add: rb_readable_def)
    have nle: "?n \<le> m_size r" "?n \<le> len - length out"
      using 1(2) by (auto simp: rb_readLen_wf)
    have ld: "rb_load r ?n = Some ?chunk" using 1(2) pos by (intro rb_load_wf) auto
    obtain r1 where r1: "rb_consume r ?n = Some r1" "rb_wf r1" "rb_cap r1 = rb_cap r"
      "rb_contents r1 = drop ?n (rb_contents r)" "m_size r1 = m_size r - ?n"
      using rb_consume_wf[OF 1(2) nle(1)] .
    have lc: "length ?chunk = ?n" using nle by simp
    obtain r' where r': "rb_read_loop r1 len (out @ ?chunk) =
        Some (r', out @ ?chunk @ take (len - (length out + ?n)) (rb_contents r1))"
      "rb_wf r'" "rb_cap r' = rb_cap r1"
      "rb_contents r' = drop (len - (length out + ?n)) (rb_contents r1)"
      using 1(1)[OF True refl ld r1(1,2)] lc by auto
    have step: "len - length out = ?n + (len - (length out + ?n))" using nle by simp
    have "?chunk @ take (len - (length out + ?n)) (rb_contents r1) =
        take (len - length out) (rb_contents r)"
      by (subst step) (simp only: r1(4) take_add)
    moreover have "drop (len - (length out + ?n)) (rb_contents r1) =
        drop (len - length out) (rb_contents r)"
      by (subst step) (simp add: r1(4) add.commute)
    moreover have "rb_read_loop r len out = rb_read_loop r1 len (out @ ?chunk)"
      using True ld r1 by (simp add: rb_read_loop.simps[of r len out] Let_def)
    ultimately show ?thesis using r' r1 by simp
  qed
qed

lemma rb_read_wf:
  assumes "rb_wf r"
  obtains r' where "rb_read r len = Some (r', take len (rb_contents r))"
    "rb_wf r'" "rb_cap r' = rb_cap r" "rb_contents r' = drop len (rb_contents r)"
  using rb_read_loop_wf[OF assms, of len "[]"] that by (auto simp: rb_read_def)

lemma rb_peek_wf:
  assumes wf: "rb_wf r"
  shows "rb_peek r len = Some (take len (rb_contents r))"
proof -
  let ?c = "rb_cap r" and ?h = "m_head r"
  define k where "k = min len (m_size r)"
  define f where "f = min k (?c - ?h)"
  from wf have c: "0 < ?c" "?h < ?c" "m_size r \<le> ?c" by (auto simp: rb_wf_def)
  have k: "k \<le> ?c" "k \<le> m_size r" "f \<le> k" "?h + f \<le> ?c" "k - f \<le> ?c"
    using c by (auto simp: k_def f_def)
  have "take f (drop ?h (m_buffer r)) @ take (k - f) (m_buffer r) = take k (rb_contents r)"
  proof (rule nth_equalityI)
    show "length (take f (drop ?h (m_buffer r)) @ take (k - f) (m_buffer r)) =
        length (take k (rb_contents r))"
      using k by simp
  next
    fix i assume "i < length (take f (drop ?h (m_buffer r)) @ take (k - f) (m_buffer r))"
    then have i: "i < k" using k by simp
    show "(take f (drop ?h (m_buffer r)) @ take (k - f) (m_buffer r)) ! i =
        take k (rb_contents r) ! i"
    proof (cases "i < f")
      case True
      with i k show ?thesis by (simp add: nth_append nth_rb_contents)
    next
      case False
      with i have f: "f = ?c - ?h" by (auto simp: f_def)
      with False i k c have "(?h + i) mod ?c = i - f"
        by (subst mod_if) auto
      with False i k f show ?thesis by (simp add: nth_append nth_rb_contents)
    qed
  qed
  moreover have "take k (rb_contents r) = take len (rb_contents r)"
    by (auto simp: k_def min_def)
  ultimately show ?thesis
    using k c by (auto simp: rb_peek_def Let_def mem_read_def k_def[symmetric] f_def[symmetric])
qed

subsection \<open>The contract\<close>

text \<open>
  What the clients of the ring rely on: a bounded first-in first-out queue of bytes whose
  operations never run into undefined behaviour.
\<close>

locale byte_fifo =
  fixes inv :: "'r \<Rightarrow> bool"
    and contents :: "'r \<Rightarrow> bytes"
    and capacity :: "'r \<Rightarrow> nat"
    and readable :: "'r \<Rightarrow> nat"
    and writable :: "'r \<Rightarrow> nat"
    and peek :: "'r \<Rightarrow> nat \<Rightarrow> bytes option"
    and get :: "'r \<Rightarrow> nat \<Rightarrow> ('r \<times> bytes) option"
    and put :: "'r \<Rightarrow> bytes \<Rightarrow> ('r \<times> nat) option"
  assumes contents_le: "inv r \<Longrightarrow> length (contents r) \<le> capacity r"
    and readable_eq: "inv r \<Longrightarrow> readable r = length (contents r)"
    and writable_eq: "inv r \<Longrightarrow> writable r = capacity r - length (contents r)"
    and peek_eq: "inv r \<Longrightarrow> peek r n = Some (take n (contents r))"
    and read_law: "inv r \<Longrightarrow> \<exists>r'. get r n = Some (r', take n (contents r)) \<and> inv r' \<and>
      capacity r' = capacity r \<and> contents r' = drop n (contents r)"
    and write_law: "inv r \<Longrightarrow> \<exists>r'. put r bs = Some (r', min (length bs) (writable r)) \<and>
      inv r' \<and> capacity r' = capacity r \<and> contents r' = contents r @ take (writable r) bs"
begin

lemma read_cases:
  assumes "inv r"
  obtains r' where "get r n = Some (r', take n (contents r))" "inv r'" "capacity r' = capacity r"
    "contents r' = drop n (contents r)"
  using read_law[OF assms] by blast

lemma write_fits:
  assumes "inv r" "length bs \<le> writable r"
  obtains r' where "put r bs = Some (r', length bs)" "inv r'" "capacity r' = capacity r"
    "contents r' = contents r @ bs"
  using write_law[OF assms(1), of bs] assms(2) by (auto simp: min_absorb1)

text \<open>What is written in pieces is read back in order, whatever the pieces of the reads.\<close>

lemma write_read_roundtrip:
  assumes r: "inv r" and fit: "length xs + length ys \<le> writable r"
  shows "\<exists>r1 r2 r3. put r xs = Some (r1, length xs) \<and> put r1 ys = Some (r2, length ys) \<and>
    get r2 (length (contents r) + length xs + length ys) = Some (r3, contents r @ xs @ ys) \<and>
    contents r3 = [] \<and> inv r3"
proof -
  obtain r1 where r1: "put r xs = Some (r1, length xs)" "inv r1" "capacity r1 = capacity r"
    "contents r1 = contents r @ xs"
    using write_fits[OF r, of xs] fit by auto
  have "length ys \<le> writable r1"
    using fit r r1 by (simp add: writable_eq)
  then obtain r2 where r2: "put r1 ys = Some (r2, length ys)" "inv r2"
    "contents r2 = contents r @ xs @ ys"
    using write_fits[OF r1(2), of ys] r1(4) by auto
  with read_cases[OF r2(2), of "length (contents r) + length xs + length ys"]
  obtain r3 where "get r2 (length (contents r) + length xs + length ys) =
      Some (r3, contents r @ xs @ ys)" "contents r3 = []" "inv r3"
    by auto
  with r1(1) r2(1) show ?thesis by blast
qed

end

interpretation ring: byte_fifo rb_wf rb_contents rb_cap rb_readable rb_writable rb_peek rb_read rb_write
proof (unfold_locales, goal_cases)
  case (1 r) then show ?case by (simp add: rb_wf_def)
next
  case (2 r) then show ?case by (simp add: rb_readable_def)
next
  case (3 r) then show ?case by (simp add: rb_writable_wf)
next
  case (4 r n) then show ?case by (rule rb_peek_wf)
next
  case (5 r n) then show ?case using rb_read_wf[of r n] by metis
next
  case (6 r bs) then show ?case using rb_write_wf[of r bs] by (metis rb_writable_wf)
qed

lemma rb_produce_wf:
  assumes "rb_wf r" "rb_store r bs = Some r1" "rb_produce r1 (length bs) = Some r2"
    "length bs \<le> rb_writeLen r"
  shows "rb_wf r2 \<and> rb_contents r2 = rb_contents r @ bs \<and> rb_cap r2 = rb_cap r"
proof -
  from assms(1,2) have "m_size r < rb_cap r"
    by (auto simp: rb_store_def rb_writePtr_def rb_writable_wf split: bind_splits if_splits)
  from rb_put[OF assms(1,4) this] obtain r1' r2' where "rb_store r bs = Some r1'"
    "rb_produce r1' (length bs) = Some r2'" "rb_wf r2'" "rb_contents r2' = rb_contents r @ bs"
    "rb_cap r2' = rb_cap r" by blast
  with assms(2,3) show ?thesis by simp
qed

subsection \<open>The ring refines a bounded byte queue\<close>

lemma rb_cap_clear [simp]: "rb_cap (rb_clear r) = rb_cap r"
  by (simp add: rb_clear_def)

lemma ring_step_refines:
  assumes "rb_wf r"
  shows "\<exists>r'. ring_step op r = Some (r', snd (fifo_step (rb_cap r) op (rb_contents r))) \<and>
    rb_wf r' \<and> rb_cap r' = rb_cap r \<and> rb_contents r' = fst (fifo_step (rb_cap r) op (rb_contents r))"
proof (cases op)
  case (RWrite bs)
  with ring.write_law[OF assms, of bs] assms show ?thesis by (auto simp: rb_writable_wf)
next
  case (RRead n)
  with ring.read_law[OF assms, of n] show ?thesis by auto
next
  case (RPeek n)
  with assms show ?thesis by (simp add: rb_peek_wf)
next
  case RClear
  with assms show ?thesis by (simp add: rb_wf_clear del: rb_contents_empty_iff)
qed

lemma ring_run_refines:
  assumes "rb_wf r"
  shows "\<exists>r'. ring_run ops r = Some (r', snd (fifo_run (rb_cap r) ops (rb_contents r))) \<and>
    rb_wf r' \<and> rb_cap r' = rb_cap r \<and> rb_contents r' = fst (fifo_run (rb_cap r) ops (rb_contents r))"
  using assms
proof (induction ops arbitrary: r)
  case Nil
  then show ?case by simp
next
  case (Cons op ops)
  from ring_step_refines[OF Cons.prems, of op] obtain r1 where r1:
    "ring_step op r = Some (r1, snd (fifo_step (rb_cap r) op (rb_contents r)))" "rb_wf r1"
    "rb_cap r1 = rb_cap r" "rb_contents r1 = fst (fifo_step (rb_cap r) op (rb_contents r))" by blast
  from Cons.IH[OF r1(2)] r1 show ?case by (auto simp: split_beta Let_def)
qed

text \<open>
  C3. Whatever sequence of \<open>write\<close>, \<open>read\<close>, \<open>peek\<close> and \<open>clear\<close> calls is made on a new ring
  of capacity \<open>c\<close>, no call leaves the buffer, every loop ends, and the calls return what the same
  calls on a queue of at most \<open>c\<close> bytes return; the ring's contents are that queue.
\<close>

theorem ring_refines_fifo:
  assumes "0 < c" "2 * c \<le> SIZE_MOD"
  shows "\<exists>r'. ring_run ops (rb_new c) = Some (r', snd (fifo_run c ops [])) \<and> rb_wf r' \<and>
    rb_contents r' = fst (fifo_run c ops [])"
proof -
  have "rb_cap (rb_new c) = c" by (simp add: rb_new_def)
  with ring_run_refines[OF rb_wf_new[OF assms], of ops] show ?thesis
    by (auto simp del: rb_contents_empty_iff)
qed

theorem ring_refines_fifo_witness:
  "\<exists>r'. ring_run [RWrite [1, 2, 3], RRead 2, RWrite [4, 5, 6], RPeek 4, RRead 9] (rb_new 4) =
      Some (r', [OWritten 3, OBytes [1, 2], OWritten 3, OBytes [3, 4, 5, 6], OBytes [3, 4, 5, 6]]) \<and>
    rb_wf r' \<and> rb_contents r' = []"
proof -
  have "2 * 4 \<le> SIZE_MOD" by (simp add: SIZE_MOD_def)
  from ring_refines_fifo[OF _ this,
      of "[RWrite [1, 2, 3], RRead 2, RWrite [4, 5, 6], RPeek 4, RRead 9]"]
  show ?thesis by (simp add: numeral_3_eq_3 del: ring_run.simps rb_contents_empty_iff)
qed

end
