(* ===== verification/Framing.thy ===== *)
theory Framing
  imports ByteRing PacketModel
begin

text \<open>
  Length-prefixed framing: \<open>TcpFraming\<close>, \<open>TlsFraming\<close> and the two \<open>IpcFraming\<close>s
  (\<open>serverd/protocol\<close>, \<open>serverd/ipc\<close>, \<open>mgmtd/ipc\<close>), and the loop by which the reactors cut the
  receive ring into frames. \<open>split_frames\<close> is the specification: the frames of a byte stream.
  The locale \<open>frame_codec\<close> holds what any such framing gives, above all that the frames do not
  depend on how the stream is chopped into pieces; \<open>frame_reader\<close> adds a ring and an extraction
  function and proves the loop correct once for every reactor.
\<close>

subsection \<open>The extraction functions\<close>

datatype FramingResult = NeedMoreData | InvalidBodyLen | FrameOk

text \<open>The second component is \<open>outFrameLen\<close>, which every caller initialises to 0.\<close>

definition TCP_HEADER_SIZE :: nat where "TCP_HEADER_SIZE = COMMON_HEADER_SIZE"
definition TCP_MAX_BODY_LEN :: nat where "TCP_MAX_BODY_LEN = 64 * 1024"

definition TcpFraming_tryExtractFrame :: "ByteRingBuffer \<Rightarrow> (FramingResult \<times> nat) option" where
  "TcpFraming_tryExtractFrame rxRing =
     (if rb_readable rxRing < TCP_HEADER_SIZE then Some (NeedMoreData, 0)
      else do {
        headerBuf \<leftarrow> rb_peek rxRing TCP_HEADER_SIZE;
        let bodyLen = ntohs (hdr_bodyLen (header_of_mem headerBuf));
        if unat bodyLen > TCP_MAX_BODY_LEN then Some (InvalidBodyLen, 0)
        else (let frameLen = TCP_HEADER_SIZE + unat bodyLen in
              if rb_readable rxRing < frameLen then Some (NeedMoreData, 0)
              else Some (FrameOk, frameLen))
      })"

definition TLS_HEADER_SIZE :: nat where "TLS_HEADER_SIZE = COMMON_HEADER_SIZE"
definition TLS_MAX_BODY_LEN :: nat where "TLS_MAX_BODY_LEN = 64 * 1024"

definition TlsFraming_tryExtractFrame :: "ByteRingBuffer \<Rightarrow> (FramingResult \<times> nat) option" where
  "TlsFraming_tryExtractFrame rxRing =
     (if rb_readable rxRing < TLS_HEADER_SIZE then Some (NeedMoreData, 0)
      else do {
        headerBuf \<leftarrow> rb_peek rxRing TLS_HEADER_SIZE;
        let bodyLen = ntohs (hdr_bodyLen (header_of_mem headerBuf));
        if unat bodyLen > TLS_MAX_BODY_LEN then Some (InvalidBodyLen, 0)
        else (let frameLen = TLS_HEADER_SIZE + unat bodyLen in
              if rb_readable rxRing < frameLen then Some (NeedMoreData, 0)
              else Some (FrameOk, frameLen))
      })"

definition IPC_HEADER_SIZE :: nat where "IPC_HEADER_SIZE = 2"
definition IPC_MAX_BODY_LEN :: nat where "IPC_MAX_BODY_LEN = 64 * 1024"

definition IpcFraming_tryExtractFrame :: "ByteRingBuffer \<Rightarrow> (FramingResult \<times> nat) option" where
  "IpcFraming_tryExtractFrame rxRing =
     (if rb_readable rxRing < IPC_HEADER_SIZE then Some (NeedMoreData, 0)
      else do {
        hdr \<leftarrow> rb_peek rxRing IPC_HEADER_SIZE;
        let bodyLen = (push_bit 8 (ucast (hdr ! 0)) OR ucast (hdr ! 1) :: u16);
        if unat bodyLen > IPC_MAX_BODY_LEN then Some (InvalidBodyLen, 0)
        else (let frameLen = unat bodyLen + IPC_HEADER_SIZE in
              if rb_readable rxRing < frameLen then Some (NeedMoreData, 0)
              else Some (FrameOk, frameLen))
      })"

text \<open>The management daemon's copy, in two functions (its third result is called
  \<open>InvalidLength\<close>). \<open>None\<close> inside is \<open>false\<close>.\<close>

definition MgmtFraming_peekBodyLen :: "ByteRingBuffer \<Rightarrow> u16 option option" where
  "MgmtFraming_peekBodyLen rxRing =
     (if rb_readable rxRing < 2 then Some None
      else do { hdrBuf \<leftarrow> rb_peek rxRing 2; Some (Some (ntohs (of_mem hdrBuf))) })"

definition MgmtFraming_tryExtractFrame :: "ByteRingBuffer \<Rightarrow> (FramingResult \<times> nat) option" where
  "MgmtFraming_tryExtractFrame rxRing =
     (case MgmtFraming_peekBodyLen rxRing of
        None \<Rightarrow> None
      | Some None \<Rightarrow> Some (NeedMoreData, 0)
      | Some (Some bodyLen) \<Rightarrow>
          (if unat bodyLen > 64 * 1024 then Some (InvalidBodyLen, 0)
           else (let frameLen = 2 + unat bodyLen in
                 if rb_readable rxRing < frameLen then Some (NeedMoreData, 0)
                 else Some (FrameOk, frameLen))))"

subsection \<open>The extraction loop\<close>

text \<open>
  The inner loop of \<open>TcpReactor::receive\<close>, which \<open>TlsReactor::receive\<close> and
  \<open>IpcReactor::receive\<close> repeat: extract, read, hand the payload on, until more data is needed. The
  last component tells whether the connection stays open. A loop that does not end is \<open>None\<close>.
\<close>

partial_function (option) frame_loop ::
  "('r \<Rightarrow> (FramingResult \<times> nat) option) \<Rightarrow> ('r \<Rightarrow> nat \<Rightarrow> ('r \<times> bytes) option) \<Rightarrow>
   (bytes \<Rightarrow> 's \<Rightarrow> 's) \<Rightarrow> 'r \<Rightarrow> 's \<Rightarrow> ('r \<times> 's \<times> bool) option" where
  "frame_loop extract read emit r s =
     (case extract r of
        None \<Rightarrow> None
      | Some (res, frameLen) \<Rightarrow>
          (if res = NeedMoreData then Some (r, s, True)
           else if res \<noteq> FrameOk then Some (r, s, False)
           else
             (case read r frameLen of
                None \<Rightarrow> None
              | Some (r', payload) \<Rightarrow>
                  (if length payload \<noteq> frameLen then Some (r', s, False)
                   else frame_loop extract read emit r' (emit payload s)))))"

text \<open>
  What a reactor does with bytes that \<open>recv\<close> (or \<open>SSL_read\<close>) has stored at \<open>writePtr\<close>: account
  for them and cut off the complete frames.
\<close>

definition absorb ::
  "(ByteRingBuffer \<Rightarrow> (FramingResult \<times> nat) option) \<Rightarrow> ByteRingBuffer \<Rightarrow> bytes \<Rightarrow>
   (bytes \<Rightarrow> 's \<Rightarrow> 's) \<Rightarrow> 's \<Rightarrow> (ByteRingBuffer \<times> 's \<times> bool) option" where
  "absorb extract rx bs emit s =
     do {
       rx \<leftarrow> rb_store rx bs;
       rx \<leftarrow> rb_produce rx (length bs);
       frame_loop extract rb_read emit rx s
     }"

subsection \<open>The frames of a byte stream\<close>

function split_frames :: "nat \<Rightarrow> (bytes \<Rightarrow> nat) \<Rightarrow> bytes \<Rightarrow> bytes list \<times> bytes" where
  "split_frames hdr blen xs =
     (if hdr = 0 \<or> length xs < hdr \<or> length xs < hdr + blen xs then ([], xs)
      else let n = hdr + blen xs; (fs, rest) = split_frames hdr blen (drop n xs)
           in (take n xs # fs, rest))"
  by pat_completeness auto
termination
  by (relation "measure (\<lambda>(hdr, blen, xs). length xs)") auto

declare split_frames.simps [simp del]

text \<open>No frame of the stream, finished or announced, is longer than \<open>cap\<close> bytes.\<close>

definition frames_fit :: "nat \<Rightarrow> (bytes \<Rightarrow> nat) \<Rightarrow> nat \<Rightarrow> bytes \<Rightarrow> bool" where
  "frames_fit hdr blen cap xs \<longleftrightarrow>
     (let (fs, r) = split_frames hdr blen xs
      in list_all (\<lambda>f. length f \<le> cap) fs \<and> (length r < hdr \<or> hdr + blen r \<le> cap))"

text \<open>The body length that a common packet header announces, and an IPC header.\<close>

definition packet_blen :: "bytes \<Rightarrow> nat" where
  "packet_blen xs = unat (be_val (take 2 (drop 2 xs)) :: u16)"

definition ipc_blen :: "bytes \<Rightarrow> nat" where
  "ipc_blen xs = unat (be_val (take 2 xs) :: u16)"

locale frame_codec =
  fixes hdr :: nat and blen :: "bytes \<Rightarrow> nat"
  assumes hdr_pos: "0 < hdr"
    and blen_prefix: "hdr \<le> length xs \<Longrightarrow> blen (xs @ ys) = blen xs"
begin

abbreviation is_frame :: "bytes \<Rightarrow> bool" where
  "is_frame f \<equiv> hdr \<le> length f \<and> length f = hdr + blen f"

abbreviation complete :: "bytes \<Rightarrow> bool" where
  "complete xs \<equiv> hdr \<le> length xs \<and> hdr + blen xs \<le> length xs"

lemma split_incomplete: "\<not> complete xs \<Longrightarrow> split_frames hdr blen xs = ([], xs)"
  by (subst split_frames.simps) auto

lemma split_complete:
  "complete xs \<Longrightarrow> split_frames hdr blen xs =
    (take (hdr + blen xs) xs # fst (split_frames hdr blen (drop (hdr + blen xs) xs)),
     snd (split_frames hdr blen (drop (hdr + blen xs) xs)))"
  using hdr_pos by (subst split_frames.simps) (auto simp: Let_def split: prod.splits)

lemma complete_append: "complete xs \<Longrightarrow> complete (xs @ ys)"
  by (auto simp: blen_prefix)

lemma split_concat: "concat (fst (split_frames hdr blen xs)) @ snd (split_frames hdr blen xs) = xs"
proof (induction xs rule: length_induct)
  case (1 xs)
  show ?case
  proof (cases "complete xs")
    case True
    then have "length (drop (hdr + blen xs) xs) < length xs" using hdr_pos by auto
    with 1 have "concat (fst (split_frames hdr blen (drop (hdr + blen xs) xs))) @
        snd (split_frames hdr blen (drop (hdr + blen xs) xs)) = drop (hdr + blen xs) xs" by blast
    then show ?thesis by (simp add: split_complete[OF True])
  qed (simp add: split_incomplete)
qed

lemma split_rest_incomplete: "\<not> complete (snd (split_frames hdr blen xs))"
proof (induction xs rule: length_induct)
  case (1 xs)
  show ?case
  proof (cases "complete xs")
    case True
    then have "length (drop (hdr + blen xs) xs) < length xs" using hdr_pos by auto
    with 1 have "\<not> complete (snd (split_frames hdr blen (drop (hdr + blen xs) xs)))" by blast
    then show ?thesis by (simp only: split_complete[OF True] snd_conv not_False_eq_True)
  qed (simp only: split_incomplete snd_conv not_False_eq_True)
qed

lemma is_frame_take: "complete xs \<Longrightarrow> is_frame (take (hdr + blen xs) xs)"
  using blen_prefix[of "take (hdr + blen xs) xs" "drop (hdr + blen xs) xs"] by simp

lemma split_are_frames: "\<forall>f \<in> set (fst (split_frames hdr blen xs)). is_frame f"
proof (induction xs rule: length_induct)
  case (1 xs)
  show ?case
  proof (cases "complete xs")
    case True
    then have "length (drop (hdr + blen xs) xs) < length xs" using hdr_pos by auto
    with 1 have "\<forall>f \<in> set (fst (split_frames hdr blen (drop (hdr + blen xs) xs))). is_frame f"
      by blast
    with is_frame_take[OF True] show ?thesis
      by (simp only: split_complete[OF True] fst_conv list.set insert_iff) blast
  qed (simp add: split_incomplete)
qed

text \<open>Chopping a stream into pieces and keeping the unfinished rest gives the same frames.\<close>

lemma split_append:
  "split_frames hdr blen (xs @ ys) =
    (fst (split_frames hdr blen xs) @ fst (split_frames hdr blen (snd (split_frames hdr blen xs) @ ys)),
     snd (split_frames hdr blen (snd (split_frames hdr blen xs) @ ys)))"
proof (induction xs rule: length_induct)
  case (1 xs)
  show ?case
  proof (cases "complete xs")
    case True
    let ?n = "hdr + blen xs"
    from True have shorter: "length (drop ?n xs) < length xs" using hdr_pos by auto
    from True have "blen (xs @ ys) = blen xs" by (simp add: blen_prefix)
    with True have "split_frames hdr blen (xs @ ys) =
        (take ?n xs # fst (split_frames hdr blen (drop ?n xs @ ys)),
         snd (split_frames hdr blen (drop ?n xs @ ys)))"
      using split_complete[OF complete_append[OF True], of ys] by simp
    moreover have "split_frames hdr blen (drop ?n xs @ ys) =
      (fst (split_frames hdr blen (drop ?n xs)) @
         fst (split_frames hdr blen (snd (split_frames hdr blen (drop ?n xs)) @ ys)),
       snd (split_frames hdr blen (snd (split_frames hdr blen (drop ?n xs)) @ ys)))"
      using 1 shorter by blast
    ultimately show ?thesis by (simp add: split_complete[OF True])
  qed (simp add: split_incomplete)
qed

lemma split_frame_append:
  assumes "is_frame f"
  shows "split_frames hdr blen (f @ xs) =
    (f # fst (split_frames hdr blen xs), snd (split_frames hdr blen xs))"
proof -
  have "split_frames hdr blen f = ([f], [])"
    using assms hdr_pos by (simp add: split_complete split_incomplete)
  then show ?thesis by (subst split_append) simp
qed

lemma frames_fit_prefix:
  assumes "frames_fit hdr blen cap (xs @ ys)"
  shows "frames_fit hdr blen cap xs"
proof -
  let ?r = "snd (split_frames hdr blen xs)"
  let ?t = "split_frames hdr blen (?r @ ys)"
  have all: "list_all (\<lambda>f. length f \<le> cap) (fst (split_frames hdr blen xs))"
    "list_all (\<lambda>f. length f \<le> cap) (fst ?t)" "length (snd ?t) < hdr \<or> hdr + blen (snd ?t) \<le> cap"
    using assms by (simp_all add: frames_fit_def split_append[of xs ys] split_beta)
  have "hdr + blen ?r \<le> cap" if h: "hdr \<le> length ?r"
  proof (cases "complete (?r @ ys)")
    case True
    have "length (take (hdr + blen (?r @ ys)) (?r @ ys)) \<le> cap"
      using all(2) by (simp only: split_complete[OF True] fst_conv list.pred_inject)
    moreover have "length (take (hdr + blen (?r @ ys)) (?r @ ys)) = hdr + blen (?r @ ys)"
      using True by (simp only: length_take min_absorb2)
    ultimately show ?thesis using blen_prefix[OF h, of ys] by simp
  next
    case False
    with all(3) h blen_prefix[OF h, of ys] show ?thesis by (auto simp: split_incomplete[OF False])
  qed
  with all(1) show ?thesis
    by (cases "hdr \<le> length ?r") (simp_all add: frames_fit_def split_beta)
qed

lemma frames_fit_rest:
  assumes "frames_fit hdr blen cap xs" "hdr \<le> cap"
  shows "length (snd (split_frames hdr blen xs)) < cap"
  using assms split_rest_incomplete[of xs] by (auto simp: frames_fit_def split_beta)

text \<open>A concatenation of frames is split into them.\<close>

lemma split_of_frames:
  "\<forall>f \<in> set fs. is_frame f \<Longrightarrow> split_frames hdr blen (concat fs) = (fs, [])"
proof (induction fs)
  case Nil
  then show ?case using hdr_pos by (simp add: split_incomplete)
next
  case (Cons f fs)
  then show ?case using split_frame_append[of f "concat fs"] by simp
qed

end

locale frame_reader =
  byte_fifo inv contents capacity readable writable peek get put + frame_codec hdr blen
  for inv :: "'r \<Rightarrow> bool" and contents and capacity and readable and writable
    and peek and get and put and hdr :: nat and blen +
  fixes xtract :: "'r \<Rightarrow> (FramingResult \<times> nat) option"
  assumes extract_law: "inv r \<Longrightarrow> xtract r =
    Some (if complete (contents r) then (FrameOk, hdr + blen (contents r)) else (NeedMoreData, 0))"
begin

text \<open>The loop ends, keeps the ring well-formed and emits exactly the complete frames.\<close>

lemma frame_loop_frames:
  assumes "inv r"
  shows "\<exists>r'. frame_loop xtract get emit r s =
      Some (r', fold emit (fst (split_frames hdr blen (contents r))) s, True) \<and>
    inv r' \<and> capacity r' = capacity r \<and> contents r' = snd (split_frames hdr blen (contents r))"
  using assms
proof (induction "length (contents r)" arbitrary: r s rule: less_induct)
  case less
  show ?case
  proof (cases "complete (contents r)")
    case False
    with less.prems show ?thesis
      by (simp add: frame_loop.simps[of _ _ _ r] extract_law split_incomplete del: de_Morgan_conj)
  next
    case True
    let ?n = "hdr + blen (contents r)"
    obtain r1 where r1: "get r ?n = Some (r1, take ?n (contents r))" "inv r1"
      "capacity r1 = capacity r" "contents r1 = drop ?n (contents r)"
      using read_cases[OF less.prems] .
    have "length (contents r1) < length (contents r)" using r1(4) True hdr_pos by auto
    from less.hyps[OF this r1(2), of "emit (take ?n (contents r)) s"]
    obtain r' where r': "frame_loop xtract get emit r1 (emit (take ?n (contents r)) s) =
        Some (r', fold emit (fst (split_frames hdr blen (contents r1)))
          (emit (take ?n (contents r)) s), True)"
      "inv r'" "capacity r' = capacity r1" "contents r' = snd (split_frames hdr blen (contents r1))"
      by blast
    have "frame_loop xtract get emit r s =
        frame_loop xtract get emit r1 (emit (take ?n (contents r)) s)"
      using True less.prems r1(1) by (simp add: frame_loop.simps[of _ _ _ r] extract_law)
    with r' r1 True show ?thesis by (simp add: split_complete)
  qed
qed

end

subsection \<open>The framings of the program\<close>

lemma header_bodyLen: "16 \<le> length xs \<Longrightarrow>
    unat (ntohs (hdr_bodyLen (header_of_mem (take 16 xs)))) = packet_blen xs"
  by (simp add: header_of_mem_def packet_blen_def ntoh_of_mem drop_take)

lemma ipc_header_value:
  assumes "2 \<le> length xs"
  shows "(push_bit 8 (ucast (xs ! 0)) OR ucast (xs ! 1) :: u16) = be_val (take 2 xs)"
proof -
  from assms obtain a b ys where "xs = a # b # ys"
    by (metis One_nat_def Suc_1 Suc_le_length_iff)
  then show ?thesis by (simp add: numeral_2_eq_2 be_val_def or.commute)
qed

lemma packet_blen_max: "packet_blen xs \<le> 65535"
  using unsigned_less[of "be_val (take 2 (drop 2 xs)) :: u16", where 'a = nat]
  by (simp add: packet_blen_def)

lemma ipc_blen_max: "ipc_blen xs \<le> 65535"
  using unsigned_less[of "be_val (take 2 xs) :: u16", where 'a = nat] by (simp add: ipc_blen_def)

lemma tcp_extract:
  assumes "rb_wf r"
  shows "TcpFraming_tryExtractFrame r =
    Some (if 16 \<le> length (rb_contents r) \<and> 16 + packet_blen (rb_contents r) \<le> length (rb_contents r)
          then (FrameOk, 16 + packet_blen (rb_contents r)) else (NeedMoreData, 0))"
proof (cases "length (rb_contents r) < 16")
  case False
  then show ?thesis
    using assms packet_blen_max[of "rb_contents r"] header_bodyLen[of "rb_contents r"]
    by (simp add: TcpFraming_tryExtractFrame_def TCP_HEADER_SIZE_def TCP_MAX_BODY_LEN_def
        COMMON_HEADER_SIZE_def ring.readable_eq ring.peek_eq Let_def)
qed (use assms in \<open>simp add: TcpFraming_tryExtractFrame_def TCP_HEADER_SIZE_def
    COMMON_HEADER_SIZE_def ring.readable_eq\<close>)

lemma tls_extract: "TlsFraming_tryExtractFrame = TcpFraming_tryExtractFrame"
  by (rule ext) (simp only: TcpFraming_tryExtractFrame_def TlsFraming_tryExtractFrame_def
      TCP_HEADER_SIZE_def TLS_HEADER_SIZE_def TCP_MAX_BODY_LEN_def TLS_MAX_BODY_LEN_def)

lemma ipc_extract:
  assumes "rb_wf r"
  shows "IpcFraming_tryExtractFrame r =
    Some (if 2 \<le> length (rb_contents r) \<and> 2 + ipc_blen (rb_contents r) \<le> length (rb_contents r)
          then (FrameOk, 2 + ipc_blen (rb_contents r)) else (NeedMoreData, 0))"
proof (cases "length (rb_contents r) < 2")
  case False
  then have "(push_bit 8 (ucast (take 2 (rb_contents r) ! 0))
      OR ucast (take 2 (rb_contents r) ! Suc 0) :: u16) = be_val (take 2 (rb_contents r))"
    using ipc_header_value[of "rb_contents r"] by simp
  with False show ?thesis
    using assms ipc_blen_max[of "rb_contents r"]
    by (simp add: IpcFraming_tryExtractFrame_def IPC_HEADER_SIZE_def IPC_MAX_BODY_LEN_def
        ring.readable_eq ring.peek_eq Let_def flip: ipc_blen_def)
qed (use assms in \<open>simp add: IpcFraming_tryExtractFrame_def IPC_HEADER_SIZE_def
    ring.readable_eq\<close>)

lemma mgmt_extract:
  assumes "rb_wf r"
  shows "MgmtFraming_tryExtractFrame r = IpcFraming_tryExtractFrame r"
proof (cases "length (rb_contents r) < 2")
  case False
  then show ?thesis
    using assms ipc_blen_max[of "rb_contents r"]
    by (simp add: ipc_extract MgmtFraming_tryExtractFrame_def MgmtFraming_peekBodyLen_def
        ring.readable_eq ring.peek_eq ntoh_of_mem Let_def flip: ipc_blen_def)
qed (use assms in \<open>simp add: ipc_extract MgmtFraming_tryExtractFrame_def
    MgmtFraming_peekBodyLen_def ring.readable_eq\<close>)

interpretation tcp_frames: frame_reader rb_wf rb_contents rb_cap rb_readable rb_writable rb_peek
  rb_read rb_write 16 packet_blen TcpFraming_tryExtractFrame
proof (unfold_locales, goal_cases)
  case (2 xs ys) then show ?case by (simp add: packet_blen_def)
next
  case (3 r) then show ?case by (rule tcp_extract)
qed simp

interpretation tls_frames: frame_reader rb_wf rb_contents rb_cap rb_readable rb_writable rb_peek
  rb_read rb_write 16 packet_blen TlsFraming_tryExtractFrame
proof (unfold_locales, goal_cases)
  case (1 r) then show ?case by (simp only: tls_extract tcp_extract)
qed

interpretation ipc_frames: frame_reader rb_wf rb_contents rb_cap rb_readable rb_writable rb_peek
  rb_read rb_write 2 ipc_blen IpcFraming_tryExtractFrame
proof (unfold_locales, goal_cases)
  case (2 xs ys) then show ?case by (simp add: ipc_blen_def)
next
  case (3 r) then show ?case by (rule ipc_extract)
qed simp

interpretation mgmt_frames: frame_reader rb_wf rb_contents rb_cap rb_readable rb_writable rb_peek
  rb_read rb_write 2 ipc_blen MgmtFraming_tryExtractFrame
proof (unfold_locales, goal_cases)
  case (1 r) then show ?case by (simp only: mgmt_extract ipc_extract)
qed

lemma store_produce:
  assumes "rb_wf r" "bs \<noteq> []" "length bs \<le> rb_writeLen r"
  obtains r1 r2 where "rb_store r bs = Some r1" "rb_produce r1 (length bs) = Some r2" "rb_wf r2"
    "rb_contents r2 = rb_contents r @ bs" "rb_cap r2 = rb_cap r"
proof -
  have "0 < rb_writeLen r" using assms(2,3) by (cases bs) auto
  then have "m_size r < rb_cap r" using rb_writeLen_pos[OF assms(1)] by simp
  from rb_put[OF assms(1,3) this] that show ?thesis by blast
qed

lemma tcp_absorb:
  assumes "rb_wf r" "bs \<noteq> []" "length bs \<le> rb_writeLen r"
  shows "\<exists>r'. absorb TcpFraming_tryExtractFrame r bs emit s =
      Some (r', fold emit (fst (split_frames 16 packet_blen (rb_contents r @ bs))) s, True) \<and>
    rb_wf r' \<and> rb_cap r' = rb_cap r \<and>
    rb_contents r' = snd (split_frames 16 packet_blen (rb_contents r @ bs))"
proof -
  obtain r1 r2 where r: "rb_store r bs = Some r1" "rb_produce r1 (length bs) = Some r2" "rb_wf r2"
    "rb_contents r2 = rb_contents r @ bs" "rb_cap r2 = rb_cap r" by (rule store_produce[OF assms])
  from tcp_frames.frame_loop_frames[OF r(3), of emit s] r show ?thesis by (simp add: absorb_def)
qed

lemma tls_absorb: "absorb TlsFraming_tryExtractFrame = absorb TcpFraming_tryExtractFrame"
  by (simp add: tls_extract)

lemma ipc_absorb:
  assumes "rb_wf r" "bs \<noteq> []" "length bs \<le> rb_writeLen r"
  shows "\<exists>r'. absorb IpcFraming_tryExtractFrame r bs emit s =
      Some (r', fold emit (fst (split_frames 2 ipc_blen (rb_contents r @ bs))) s, True) \<and>
    rb_wf r' \<and> rb_cap r' = rb_cap r \<and>
    rb_contents r' = snd (split_frames 2 ipc_blen (rb_contents r @ bs))"
proof -
  obtain r1 r2 where r: "rb_store r bs = Some r1" "rb_produce r1 (length bs) = Some r2" "rb_wf r2"
    "rb_contents r2 = rb_contents r @ bs" "rb_cap r2 = rb_cap r" by (rule store_produce[OF assms])
  from ipc_frames.frame_loop_frames[OF r(3), of emit s] r show ?thesis by (simp add: absorb_def)
qed

subsection \<open>Properties\<close>

lemma wire_packet_blen:
  "length body < 65536 \<Longrightarrow> packet_blen (wire_packet ver op sid flags body) = length body"
  by (simp add: packet_blen_def wire_packet_fields unat_of_nat)

lemma wire_packet_is_frame:
  "length body < 65536 \<Longrightarrow> tcp_frames.is_frame (wire_packet ver op sid flags body)"
  by (simp add: wire_packet_blen)

text \<open>
  C6. The receive loop of the TCP reactor ends on every well-formed ring, never closes the
  connection for a framing error, hands on exactly the complete frames in order, and leaves the
  unfinished rest in the ring.
\<close>

theorem tcp_frame_loop_exact:
  assumes "rb_wf r"
  shows "\<exists>r'. frame_loop TcpFraming_tryExtractFrame rb_read emit r s =
      Some (r', fold emit (fst (split_frames 16 packet_blen (rb_contents r))) s, True) \<and>
    rb_wf r' \<and> rb_cap r' = rb_cap r \<and>
    rb_contents r' = snd (split_frames 16 packet_blen (rb_contents r))"
  using assms by (rule tcp_frames.frame_loop_frames)

theorem tcp_frame_loop_exact_witness:
  "\<exists>r'. frame_loop TcpFraming_tryExtractFrame rb_read (#)
        (ring_of 64 (wire_packet 1 0x10 0 0 [7, 8] @ wire_packet 1 0x20 5 0 [] @ [9])) [] =
      Some (r', [wire_packet 1 0x20 5 0 [], wire_packet 1 0x10 0 0 [7, 8]], True) \<and>
    rb_contents r' = [9]"
proof -
  let ?r = "ring_of 64 (wire_packet 1 0x10 0 0 [7, 8] @ wire_packet 1 0x20 5 0 [] @ [9])"
  have "rb_wf ?r" by (rule rb_wf_ring_of) (simp_all add: SIZE_MOD_def)
  moreover have "split_frames 16 packet_blen (rb_contents ?r) =
      ([wire_packet 1 0x10 0 0 [7, 8], wire_packet 1 0x20 5 0 []], [9])"
    by (simp add: tcp_frames.split_frame_append wire_packet_blen tcp_frames.split_incomplete)
  ultimately show ?thesis using tcp_frame_loop_exact[of ?r "(#)" "[]"] by auto
qed

end
