(* ===== verification/Kernel.thy ===== *)
theory Kernel
  imports Framing Egress "HOL-Library.Sublist"
begin

text \<open>
  What the protocol servers have in common: the kernel's answers to \<open>recv\<close> and \<open>send\<close> as scripts,
  the epoll interest set (\<open>shared/io/Epoll\<close>), and the receive side of a worker, a queue with the
  number of wakeups its epoll was given.
\<close>

subsection \<open>System calls\<close>

datatype errno = EAGAIN | EINTR | EOTHER

text \<open>
  An answer to \<open>recv\<close> (or \<open>SSL_read\<close>): bytes (none at all: the peer has closed) or an error. Bytes
  for which the buffer has no room stay for the next call; a script at its end would block.
\<close>

datatype 'e read_res = RBytes bytes | RErr 'e

fun read_call :: "'e \<Rightarrow> nat \<Rightarrow> 'e read_res list \<Rightarrow> 'e read_res \<times> 'e read_res list" where
  "read_call blocked n [] = (RErr blocked, [])"
| "read_call blocked n (RBytes bs # rs) =
     (RBytes (take n bs), if length bs \<le> n then rs else RBytes (drop n bs) # rs)"
| "read_call blocked n (RErr e # rs) = (RErr e, rs)"

fun res_size :: "'e read_res \<Rightarrow> nat" where
  "res_size (RBytes bs) = Suc (length bs)"
| "res_size (RErr e) = 1"

type_synonym recv_res = "errno read_res"

abbreviation recv :: "nat \<Rightarrow> recv_res list \<Rightarrow> recv_res \<times> recv_res list" where
  "recv \<equiv> read_call EAGAIN"

text \<open>
  An answer to \<open>send\<close> (or \<open>SSL_write\<close>): how many of the offered bytes were taken, or an error.
\<close>

datatype 'e write_res = SSent nat | SErr 'e

type_synonym send_res = "errno write_res"

text \<open>An answer to \<open>accept\<close>; a script at its end would block.\<close>

datatype 'p accept_res = AConn fd 'p | AErr errno

definition EPOLLIN :: u32 where "EPOLLIN = 0x001"
definition EPOLLOUT :: u32 where "EPOLLOUT = 0x004"
definition EPOLLERR :: u32 where "EPOLLERR = 0x008"
definition EPOLLHUP :: u32 where "EPOLLHUP = 0x010"
definition EPOLLRDHUP :: u32 where "EPOLLRDHUP = 0x2000"

text \<open>The interest set; a failing \<open>epoll_ctl\<close> changes nothing and no caller looks at its result.\<close>

definition epoll_add :: "fd \<Rightarrow> u32 \<Rightarrow> (fd \<times> u32) list \<Rightarrow> (fd \<times> u32) list" where
  "epoll_add fd events m = emplace fd events m"

definition epoll_mod :: "fd \<Rightarrow> u32 \<Rightarrow> (fd \<times> u32) list \<Rightarrow> (fd \<times> u32) list" where
  "epoll_mod fd events m = (if map_of m fd = None then m else AList.update fd events m)"

definition epoll_del :: "fd \<Rightarrow> (fd \<times> u32) list \<Rightarrow> (fd \<times> u32) list" where
  "epoll_del fd m = AList.delete fd m"

subsection \<open>Workers\<close>

record RxWorker =
  wk_queue :: "Packet SpscQueue"
  wk_wakeups :: nat

definition TcpWorker_enqueueRx :: "RxWorker \<Rightarrow> Packet option \<Rightarrow> RxWorker option" where
  "TcpWorker_enqueueRx w pkt =
     (case pkt of
        None \<Rightarrow> Some w
      | Some p \<Rightarrow>
          do {
            (q, ok) \<leftarrow> spsc_enqueue (wk_queue w) p;
            Some (if ok then w\<lparr>wk_queue := q, wk_wakeups := wk_wakeups w + 1\<rparr> else w\<lparr>wk_queue := q\<rparr>)
          })"

definition TlsWorker_enqueueRx :: "RxWorker \<Rightarrow> Packet option \<Rightarrow> RxWorker option" where
  "TlsWorker_enqueueRx w pkt =
     (case pkt of
        None \<Rightarrow> Some w
      | Some p \<Rightarrow>
          do {
            (q, ok) \<leftarrow> spsc_enqueue (wk_queue w) p;
            Some (if ok then w\<lparr>wk_queue := q, wk_wakeups := wk_wakeups w + 1\<rparr> else w\<lparr>wk_queue := q\<rparr>)
          })"

definition UdpWorker_enqueueRx :: "RxWorker \<Rightarrow> Packet option \<Rightarrow> RxWorker option" where
  "UdpWorker_enqueueRx w pkt =
     (case pkt of
        None \<Rightarrow> Some w
      | Some p \<Rightarrow>
          do {
            (q, ok) \<leftarrow> spsc_enqueue (wk_queue w) p;
            Some (if ok then w\<lparr>wk_queue := q, wk_wakeups := wk_wakeups w + 1\<rparr> else w\<lparr>wk_queue := q\<rparr>)
          })"

text \<open>\<open>m_workers[fd % m_workers.size()]->enqueueRx\<close>: the descriptor, as \<open>size_t\<close>, picks the worker.\<close>

definition worker_index :: "fd \<Rightarrow> RxWorker list \<Rightarrow> nat option" where
  "worker_index fd ws = (if ws = [] then None else Some (nat (fd mod int SIZE_MOD) mod length ws))"

definition to_worker ::
  "(RxWorker \<Rightarrow> Packet option \<Rightarrow> RxWorker option) \<Rightarrow> Packet \<Rightarrow> RxWorker list \<Rightarrow> RxWorker list option" where
  "to_worker enq pkt ws =
     do { i \<leftarrow> worker_index (pk_fd pkt) ws; w \<leftarrow> enq (ws ! i) (Some pkt); Some (ws[i := w]) }"

definition worker_wf :: "RxWorker \<Rightarrow> bool" where
  "worker_wf w \<longleftrightarrow> spsc_wf (wk_queue w)"

definition worker_list :: "RxWorker \<Rightarrow> Packet list" where
  "worker_list w = spsc_list (wk_queue w)"

definition worker_room :: "RxWorker \<Rightarrow> nat" where
  "worker_room w = unat (sq_capacity (wk_queue w)) - length (worker_list w)"

definition workers_wf :: "RxWorker list \<Rightarrow> bool" where
  "workers_wf ws \<longleftrightarrow> ws \<noteq> [] \<and> list_all worker_wf ws"

lemma enqueueRx_same:
  "TlsWorker_enqueueRx = TcpWorker_enqueueRx" "UdpWorker_enqueueRx = TcpWorker_enqueueRx"
  by (simp_all add: TcpWorker_enqueueRx_def TlsWorker_enqueueRx_def UdpWorker_enqueueRx_def fun_eq_iff)

lemma read_size:
  assumes "read_call blocked n rs = (RBytes bs, rs')" "bs \<noteq> []"
  shows "sum_list (map res_size rs') < sum_list (map res_size rs)"
  using assms by (cases "(blocked, n, rs)" rule: read_call.cases) (auto split: if_splits)

lemma read_err_size:
  assumes "read_call blocked n rs = (RErr e, rs')" "e \<noteq> blocked"
  shows "sum_list (map res_size rs') < sum_list (map res_size rs)"
  using assms by (cases "(blocked, n, rs)" rule: read_call.cases) auto

lemma read_length: "read_call blocked n rs = (RBytes bs, rs') \<Longrightarrow> length bs \<le> n"
  by (cases "(blocked, n, rs)" rule: read_call.cases) auto

text \<open>The bytes of a script of pieces, whatever the room of the single calls.\<close>

lemma read_pieces:
  assumes "pieces \<noteq> []" "0 < n" "[] \<notin> set pieces"
  obtains bs pieces' where "read_call blocked n (map RBytes pieces) = (RBytes bs, map RBytes pieces')"
    "concat pieces = bs @ concat pieces'" "bs \<noteq> []" "[] \<notin> set pieces'"
proof -
  from assms(1) obtain p ps where Cons: "pieces = p # ps" by (cases pieces) auto
  show ?thesis
  proof (cases "length p \<le> n")
    case True
    then show ?thesis using that[of p ps] Cons assms(3) by auto
  next
    case False
    then show ?thesis using that[of "take n p" "drop n p # ps"] Cons assms(2,3) by auto
  qed
qed

subsection \<open>Reading a stream\<close>

text \<open>
  What the receive loops of the TCP, TLS and IPC reactors have in common. \<open>loop\<close> is the loop for
  one descriptor, \<open>ring\<close> its receive ring while the connection is open, \<open>delivered s s' fs\<close>
  says that between \<open>s\<close> and \<open>s'\<close> the frames \<open>fs\<close> were handed on, in order, and \<open>ends s s'\<close> that the
  loop may leave \<open>s'\<close> when it stops in \<open>s\<close>.
\<close>

locale stream_receiver = frame_codec hdr blen
  for hdr :: nat and blen +
  fixes blocked :: 'e
    and loop :: "'s \<Rightarrow> 'e read_res list \<Rightarrow> ('s \<times> 'e read_res list) option"
    and inv :: "'s \<Rightarrow> bool"
    and ring :: "'s \<Rightarrow> ByteRingBuffer option"
    and delivered :: "'s \<Rightarrow> 's \<Rightarrow> bytes list \<Rightarrow> bool"
    and ends :: "'s \<Rightarrow> 's \<Rightarrow> bool"
  assumes inv_ring: "inv s \<Longrightarrow> ring s = Some r \<Longrightarrow> rb_wf r \<and> hdr \<le> rb_cap r"
    and turn: "inv s \<Longrightarrow> ring s = Some r \<Longrightarrow> rb_writeLen r \<noteq> 0 \<Longrightarrow>
      read_call blocked (rb_writeLen r) rs = (RBytes bs, rs') \<Longrightarrow> bs \<noteq> [] \<Longrightarrow>
      \<exists>s' r'. loop s rs = loop s' rs' \<and> inv s' \<and> ring s' = Some r' \<and> rb_cap r' = rb_cap r \<and>
        rb_contents r' = snd (split_frames hdr blen (rb_contents r @ bs)) \<and>
        delivered s s' (fst (split_frames hdr blen (rb_contents r @ bs)))"
    and other: "inv s \<Longrightarrow> ring s = Some r \<Longrightarrow>
      rb_writeLen r = 0 \<or> (\<forall>bs. fst (read_call blocked (rb_writeLen r) rs) = RBytes bs \<longrightarrow> bs = []) \<Longrightarrow>
      (\<exists>s' rs'. loop s rs = Some (s', rs') \<and> ends s s') \<or>
      (\<exists>rs'. sum_list (map res_size rs') < sum_list (map res_size rs) \<and> loop s rs = loop s rs')"
    and idle: "inv s \<Longrightarrow> ring s = Some r \<Longrightarrow> rb_writeLen r \<noteq> 0 \<Longrightarrow> loop s [] = Some (s, [])"
    and delivered_none: "inv s \<Longrightarrow> ring s = Some r \<Longrightarrow> delivered s s []"
    and delivered_trans: "delivered s s' fs \<Longrightarrow> delivered s' s'' gs \<Longrightarrow> delivered s s'' (fs @ gs)"
begin

text \<open>Whatever the answers, the loop ends, after some frames were handed on.\<close>

lemma loop_total:
  assumes "inv s" "ring s = Some r"
  shows "\<exists>s' s'' fs rs'. loop s rs = Some (s'', rs') \<and> inv s' \<and> ring s' \<noteq> None \<and>
    delivered s s' fs \<and> ends s' s''"
  using assms
proof (induction "sum_list (map res_size rs)" arbitrary: s r rs rule: less_induct)
  case less
  show ?case
  proof (cases "rb_writeLen r = 0 \<or>
      (\<forall>bs. fst (read_call blocked (rb_writeLen r) rs) = RBytes bs \<longrightarrow> bs = [])")
    case True
    from other[OF less.prems True] show ?thesis
    proof
      assume "\<exists>s' rs'. loop s rs = Some (s', rs') \<and> ends s s'"
      with delivered_none[OF less.prems] less.prems show ?thesis by auto
    next
      assume "\<exists>rs'. sum_list (map res_size rs') < sum_list (map res_size rs) \<and> loop s rs = loop s rs'"
      then obtain rs' where rs': "sum_list (map res_size rs') < sum_list (map res_size rs)"
        "loop s rs = loop s rs'" by blast
      show ?thesis unfolding rs'(2) by (rule less.hyps[OF rs'(1) less.prems])
    qed
  next
    case False
    then obtain bs rs' where c: "rb_writeLen r \<noteq> 0"
      "read_call blocked (rb_writeLen r) rs = (RBytes bs, rs')" "bs \<noteq> []"
      by (metis prod.collapse)
    from turn[OF less.prems c] obtain s1 r1 fs where s1: "loop s rs = loop s1 rs'" "inv s1"
      "ring s1 = Some r1" "delivered s s1 fs" by blast
    from less.hyps[OF read_size[OF c(2,3)] s1(2,3)] obtain s' s'' gs rs'' where
      "loop s1 rs' = Some (s'', rs'')" "inv s'" "ring s' \<noteq> None" "delivered s1 s' gs" "ends s' s''"
      by blast
    with s1(1) delivered_trans[OF s1(4)] show ?thesis by auto
  qed
qed

text \<open>Bytes that arrive in any pieces: exactly the frames of the whole stream are handed on.\<close>

lemma pieces_delivered:
  assumes "inv s" "ring s = Some r" "[] \<notin> set pieces"
    "frames_fit hdr blen (rb_cap r) (rb_contents r @ concat pieces)"
    "\<not> complete (rb_contents r)"
  shows "\<exists>s' r'. loop s (map RBytes pieces) = Some (s', []) \<and> inv s' \<and> ring s' = Some r' \<and>
    rb_cap r' = rb_cap r \<and>
    rb_contents r' = snd (split_frames hdr blen (rb_contents r @ concat pieces)) \<and>
    delivered s s' (fst (split_frames hdr blen (rb_contents r @ concat pieces)))"
  using assms
proof (induction "sum_list (map res_size (map RBytes pieces :: 'e read_res list))"
    arbitrary: s r pieces rule: less_induct)
  case less
  have wf: "rb_wf r" "hdr \<le> rb_cap r" using inv_ring less.prems(1,2) by blast+
  have inc: "split_frames hdr blen (rb_contents r) = ([], rb_contents r)"
    by (rule split_incomplete) (rule less.prems(5))
  from frames_fit_rest[OF frames_fit_prefix[OF less.prems(4)] wf(2)] inc
  have "m_size r < rb_cap r" by simp
  then have room: "0 < rb_writeLen r" "rb_writeLen r \<noteq> 0" using rb_writeLen_pos[OF wf(1)] by auto
  show ?case
  proof (cases "pieces = []")
    case True
    then show ?thesis
      using idle[OF less.prems(1,2) room(2)] less.prems(1,2) inc delivered_none by simp
  next
    case False
    obtain bs rest where p:
      "read_call blocked (rb_writeLen r) (map RBytes pieces) = (RBytes bs, map RBytes rest)"
      "concat pieces = bs @ concat rest" "bs \<noteq> []" "[] \<notin> set rest"
      by (rule read_pieces[OF False room(1) less.prems(3)])
    from turn[OF less.prems(1,2) room(2) p(1,3)] obtain s1 r1 where s1:
      "loop s (map RBytes pieces) = loop s1 (map RBytes rest)" "inv s1" "ring s1 = Some r1"
      "rb_cap r1 = rb_cap r" "rb_contents r1 = snd (split_frames hdr blen (rb_contents r @ bs))"
      "delivered s s1 (fst (split_frames hdr blen (rb_contents r @ bs)))" by blast
    have whole: "split_frames hdr blen (rb_contents r @ concat pieces) =
        (fst (split_frames hdr blen (rb_contents r @ bs)) @
           fst (split_frames hdr blen (rb_contents r1 @ concat rest)),
         snd (split_frames hdr blen (rb_contents r1 @ concat rest)))"
      using split_append[of "rb_contents r @ bs" "concat rest"] s1(5) p(2) by simp
    have "frames_fit hdr blen (rb_cap r1) (rb_contents r1 @ concat rest)"
      using less.prems(4) whole s1(4) by (auto simp: frames_fit_def split_beta)
    moreover have "\<not> complete (rb_contents r1)"
      using split_rest_incomplete[of "rb_contents r @ bs"] s1(5) by simp
    ultimately obtain s2 r2 where
      "loop s1 (map RBytes rest) = Some (s2, [])" "inv s2" "ring s2 = Some r2" "rb_cap r2 = rb_cap r1"
      "rb_contents r2 = snd (split_frames hdr blen (rb_contents r1 @ concat rest))"
      "delivered s1 s2 (fst (split_frames hdr blen (rb_contents r1 @ concat rest)))"
      using less.hyps[OF read_size[OF p(1,3)] s1(2,3) p(4)] by blast
    with s1 whole show ?thesis using delivered_trans[OF s1(6)] by auto
  qed
qed

text \<open>On an idle connection, a list of frames that fit the ring arrives as this list, however it is cut.\<close>

lemma frames_delivered:
  assumes "inv s" "ring s = Some r" "rb_readable r = 0" "[] \<notin> set pieces" "concat pieces = concat fs"
    and fs: "\<forall>f \<in> set fs. is_frame f \<and> length f \<le> rb_cap r"
  shows "\<exists>s'. loop s (map RBytes pieces) = Some (s', []) \<and> inv s' \<and> ring s' \<noteq> None \<and> delivered s s' fs"
proof -
  have e: "rb_contents r = []" using assms(3) by (simp add: rb_readable_def)
  have split: "split_frames hdr blen (rb_contents r @ concat pieces) = (fs, [])"
    unfolding e assms(5) using split_of_frames[of fs] fs by simp
  have "frames_fit hdr blen (rb_cap r) (rb_contents r @ concat pieces)"
    unfolding frames_fit_def split using fs hdr_pos by (auto simp: list_all_iff)
  moreover have "\<not> complete (rb_contents r)" unfolding e using hdr_pos by simp
  ultimately show ?thesis using pieces_delivered[OF assms(1,2,4)] unfolding split fst_conv by blast
qed


text \<open>
  A frame that announces more bytes than the ring holds: the loop fills the ring, hands nothing on
  and comes to the point where no byte can be received.
\<close>

lemma pieces_fill:
  assumes "inv s" "ring s = Some r" "[] \<notin> set pieces"
    "hdr \<le> length (rb_contents r @ concat pieces)"
    "rb_cap r < hdr + blen (rb_contents r @ concat pieces)"
    "rb_cap r \<le> length (rb_contents r @ concat pieces)"
  shows "\<exists>s' r' rs'. loop s (map RBytes pieces) = loop s' rs' \<and> inv s' \<and> ring s' = Some r' \<and>
    rb_writeLen r' = 0 \<and> delivered s s' []"
  using assms
proof (induction "sum_list (map res_size (map RBytes pieces :: 'e read_res list))"
    arbitrary: s r pieces rule: less_induct)
  case less
  have wf: "rb_wf r" "hdr \<le> rb_cap r" using inv_ring less.prems(1,2) by blast+
  show ?case
  proof (cases "rb_writeLen r = 0")
    case True
    then show ?thesis using less.prems(1,2) delivered_none by blast
  next
    case False
    then have room: "0 < rb_writeLen r" "m_size r < rb_cap r" using rb_writeLen_pos[OF wf(1)] by auto
    then have ne: "pieces \<noteq> []" using less.prems(6) by auto
    obtain bs rest where p:
      "read_call blocked (rb_writeLen r) (map RBytes pieces) = (RBytes bs, map RBytes rest)"
      "concat pieces = bs @ concat rest" "bs \<noteq> []" "[] \<notin> set rest"
      by (rule read_pieces[OF ne room(1) less.prems(3)])
    have len: "length (rb_contents r @ bs) \<le> rb_cap r"
      using read_length[OF p(1)] rb_writeLen_wf[OF wf(1)] room(2) by auto
    have "\<not> complete (rb_contents r @ bs)"
      using blen_prefix[of "rb_contents r @ bs" "concat rest"] less.prems(5) len p(2) by auto
    then have inc: "split_frames hdr blen (rb_contents r @ bs) = ([], rb_contents r @ bs)"
      by (rule split_incomplete)
    from turn[OF less.prems(1,2) False p(1,3)] obtain s1 r1 where s1:
      "loop s (map RBytes pieces) = loop s1 (map RBytes rest)" "inv s1" "ring s1 = Some r1"
      "rb_cap r1 = rb_cap r" "rb_contents r1 = rb_contents r @ bs" "delivered s s1 []"
      unfolding inc by auto
    have "rb_contents r1 @ concat rest = rb_contents r @ concat pieces" using s1(5) p(2) by simp
    with less.hyps[OF read_size[OF p(1,3)] s1(2,3) p(4)] less.prems(4-6) s1(4)
    obtain s' r' rs' where "loop s1 (map RBytes rest) = loop s' rs'" "inv s'" "ring s' = Some r'"
      "rb_writeLen r' = 0" "delivered s1 s' []" by auto
    with s1(1) delivered_trans[OF s1(6)] show ?thesis by auto
  qed
qed

end

lemma enqueueRx_wf:
  assumes "worker_wf w"
  shows "\<exists>w'. TcpWorker_enqueueRx w (Some p) = Some w' \<and> worker_wf w' \<and>
    sq_capacity (wk_queue w') = sq_capacity (wk_queue w) \<and>
    worker_list w' = worker_list w @ take (worker_room w) [p]"
proof -
  from spsc_enqueue_wf[of "wk_queue w" p] assms obtain q where
    "spsc_enqueue (wk_queue w) p =
      Some (q, length (spsc_list (wk_queue w)) < unat (sq_capacity (wk_queue w)))"
    "spsc_wf q" "sq_capacity q = sq_capacity (wk_queue w)"
    "spsc_list q = (if length (spsc_list (wk_queue w)) < unat (sq_capacity (wk_queue w))
      then spsc_list (wk_queue w) @ [p] else spsc_list (wk_queue w))"
    unfolding worker_wf_def by blast
  then show ?thesis
    by (auto simp: TcpWorker_enqueueRx_def worker_wf_def worker_list_def worker_room_def)
qed

text \<open>Packets of one descriptor go to one worker, in order, as far as its queue has room.\<close>

lemma to_worker_packets:
  assumes "workers_wf ws" "worker_index fd ws = Some i" "\<forall>p \<in> set ps. pk_fd p = fd"
  shows "\<exists>w. ofold (to_worker TcpWorker_enqueueRx) ps ws = Some (ws[i := w]) \<and> worker_wf w \<and>
    sq_capacity (wk_queue w) = sq_capacity (wk_queue (ws ! i)) \<and>
    worker_list w = worker_list (ws ! i) @ take (worker_room (ws ! i)) ps"
  using assms
proof (induction ps arbitrary: ws)
  case Nil
  then have "i < length ws" by (auto simp: worker_index_def split: if_splits)
  with Nil(1) show ?case by (auto simp: workers_wf_def list_all_length intro: exI[of _ "ws ! i"])
next
  case (Cons p ps)
  have i: "i < length ws" using Cons.prems(2) by (auto simp: worker_index_def split: if_splits)
  with Cons.prems(1) have "worker_wf (ws ! i)" by (simp add: workers_wf_def list_all_length)
  from enqueueRx_wf[OF this, of p] obtain w1 where w1:
    "TcpWorker_enqueueRx (ws ! i) (Some p) = Some w1" "worker_wf w1"
    "sq_capacity (wk_queue w1) = sq_capacity (wk_queue (ws ! i))"
    "worker_list w1 = worker_list (ws ! i) @ take (worker_room (ws ! i)) [p]" by blast
  have t: "to_worker TcpWorker_enqueueRx p ws = Some (ws[i := w1])"
    using Cons.prems(2,3) w1(1) by (simp add: to_worker_def)
  have "workers_wf (ws[i := w1])" "worker_index fd (ws[i := w1]) = Some i"
    using Cons.prems(1,2) w1(2) i
    by (auto simp: workers_wf_def worker_index_def list_all_iff split: if_splits dest: set_update_subset_insert[THEN subsetD])
  from Cons.IH[OF this] Cons.prems(3) i obtain w where
    "ofold (to_worker TcpWorker_enqueueRx) ps (ws[i := w1]) = Some (ws[i := w])" "worker_wf w"
    "sq_capacity (wk_queue w) = sq_capacity (wk_queue w1)"
    "worker_list w = worker_list w1 @ take (worker_room w1) ps" by auto
  moreover have "worker_list w1 @ take (worker_room w1) ps =
      worker_list (ws ! i) @ take (worker_room (ws ! i)) (p # ps)"
  proof (cases "worker_room (ws ! i)")
    case (Suc k)
    then have "worker_room w1 = k" using w1(3,4) by (simp add: worker_room_def)
    with Suc w1(4) show ?thesis by simp
  qed (use w1(3,4) in \<open>simp add: worker_room_def\<close>)
  ultimately show ?case using t w1(3) by auto
qed

text \<open>Packets handed on to worker \<open>i\<close>.\<close>

definition rx_delivered :: "nat \<Rightarrow> Packet list \<Rightarrow> RxWorker list \<Rightarrow> RxWorker list \<Rightarrow> bool" where
  "rx_delivered i ps ws ws' \<longleftrightarrow>
     (\<exists>w. i < length ws \<and> ws' = ws[i := w] \<and> worker_wf w \<and>
        sq_capacity (wk_queue w) = sq_capacity (wk_queue (ws ! i)) \<and>
        worker_list w = worker_list (ws ! i) @ take (worker_room (ws ! i)) ps)"

lemma worker_index_bound: "worker_index fd ws = Some i \<Longrightarrow> i < length ws"
  by (auto simp: worker_index_def split: if_splits)

lemma rx_delivered_none: "workers_wf ws \<Longrightarrow> i < length ws \<Longrightarrow> rx_delivered i [] ws ws"
  by (auto simp: rx_delivered_def workers_wf_def list_all_length intro: exI[of _ "ws ! i"])

lemma rx_delivered_trans:
  assumes "rx_delivered i ps ws ws'" "rx_delivered i qs ws' ws''"
  shows "rx_delivered i (ps @ qs) ws ws''"
proof -
  from assms(1) obtain w where w: "i < length ws" "ws' = ws[i := w]"
    "sq_capacity (wk_queue w) = sq_capacity (wk_queue (ws ! i))"
    "worker_list w = worker_list (ws ! i) @ take (worker_room (ws ! i)) ps"
    by (auto simp: rx_delivered_def)
  then have "worker_room w = worker_room (ws ! i) - length ps" by (auto simp: worker_room_def)
  with assms(2) w show ?thesis by (auto simp: rx_delivered_def)
qed

lemma rx_delivered_wf: "workers_wf ws \<Longrightarrow> rx_delivered i ps ws ws' \<Longrightarrow> workers_wf ws'"
  by (auto simp: rx_delivered_def workers_wf_def list_all_iff dest: set_update_subset_insert[THEN subsetD])

lemma rx_delivered_index: "rx_delivered i ps ws ws' \<Longrightarrow> worker_index fd ws' = worker_index fd ws"
  by (auto simp: rx_delivered_def worker_index_def)

lemma worker_index_wf: "workers_wf ws \<Longrightarrow> \<exists>i. worker_index fd ws = Some i"
  by (simp add: workers_wf_def worker_index_def)

lemma to_worker_delivered:
  assumes "workers_wf ws" "worker_index fd ws = Some i" "\<forall>p \<in> set ps. pk_fd p = fd"
  obtains ws' where "ofold (to_worker TcpWorker_enqueueRx) ps ws = Some ws'" "rx_delivered i ps ws ws'"
  using to_worker_packets[OF assms] worker_index_bound[OF assms(2)] that
  unfolding rx_delivered_def by blast

subsection \<open>Sending from a ring\<close>

lemma enqueueTx_wf:
  assumes "port_wf port"
  shows "\<exists>port'. TcpReactor_enqueueTx port pkt = Some port' \<and> port_wf port' \<and>
    set (port_list port') \<subseteq> set (port_list port) \<union> set_option pkt"
proof (cases pkt)
  case None
  with assms show ?thesis by (simp add: TcpReactor_enqueueTx_def)
next
  case (Some p)
  show ?thesis
    using assms
  proof (cases rule: enqueueTx_cases[of port p])
    case (room port')
    with Some show ?thesis by auto
  next
    case (full port')
    with Some show ?thesis by auto
  qed
qed

text \<open>One call of \<open>send\<close> on the readable part of a transmit ring.\<close>

lemma ring_send:
  assumes "rb_wf r" "0 < m_size r"
  obtains n r' where "rb_load r (rb_readLen r) = Some (take n (rb_contents r))" "0 < n" "n \<le> m_size r"
    "rb_consume r (min k n) = Some r'" "rb_wf r'" "rb_cap r' = rb_cap r"
    "rb_contents r' = drop (min k n) (rb_contents r)"
proof -
  let ?n = "rb_readLen r"
  have n: "0 < ?n" "?n \<le> m_size r"
    using assms rb_readLen_wf[OF assms(1)] by (auto simp: rb_wf_def)
  have l: "rb_load r ?n = Some (take ?n (rb_contents r))" by (rule rb_load_wf[OF assms(1) order.refl assms(2)])
  have "min k ?n \<le> m_size r" using n by simp
  from rb_consume_wf[OF assms(1) this] l n that show ?thesis by metis
qed

text \<open>
  The accounting of a transmitter: \<open>out g\<close> are the bytes that wait on an open connection, \<open>sent g\<close>
  those the socket has taken. Bytes are sent in order or kept; those of a closed connection are
  cut off.
\<close>

definition bytes_moved ::
  "(fd \<Rightarrow> bytes option) \<Rightarrow> (fd \<Rightarrow> bytes) \<Rightarrow> (fd \<Rightarrow> bytes option) \<Rightarrow> (fd \<Rightarrow> bytes) \<Rightarrow> bool" where
  "bytes_moved out sent out' sent' \<longleftrightarrow>
     (\<forall>g. case out g of
            None \<Rightarrow> out' g = None \<and> sent' g = sent g
          | Some o1 \<Rightarrow>
              (case out' g of
                 None \<Rightarrow> prefix (sent' g) (sent g @ o1)
               | Some o2 \<Rightarrow> sent' g @ o2 = sent g @ o1))"

lemma bytes_moved_refl: "bytes_moved out sent out sent"
  by (simp add: bytes_moved_def split: option.splits)

lemma bytes_moved_trans:
  assumes "bytes_moved o1 s1 o2 s2" "bytes_moved o2 s2 o3 s3"
  shows "bytes_moved o1 s1 o3 s3"
  unfolding bytes_moved_def
proof
  fix g
  show "case o1 g of None \<Rightarrow> o3 g = None \<and> s3 g = s1 g
    | Some x \<Rightarrow> (case o3 g of None \<Rightarrow> prefix (s3 g) (s1 g @ x) | Some y \<Rightarrow> s3 g @ y = s1 g @ x)"
    using assms[unfolded bytes_moved_def, rule_format, of g]
    by (auto split: option.splits dest: prefix_order.trans simp: prefix_def)
qed

text \<open>A step that concerns one connection.\<close>

lemma bytes_moved_at:
  assumes "\<And>g. g \<noteq> fd \<Longrightarrow> out' g = out g \<and> sent' g = sent g" "out fd = Some bs"
    "case out' fd of None \<Rightarrow> prefix (sent' fd) (sent fd @ bs) | Some o2 \<Rightarrow> sent' fd @ o2 = sent fd @ bs"
  shows "bytes_moved out sent out' sent'"
  unfolding bytes_moved_def
proof
  fix g
  show "case out g of None \<Rightarrow> out' g = None \<and> sent' g = sent g
    | Some x \<Rightarrow> (case out' g of None \<Rightarrow> prefix (sent' g) (sent g @ x) | Some y \<Rightarrow> sent' g @ y = sent g @ x)"
    using assms by (cases "g = fd") (auto split: option.splits)
qed

text \<open>A small instance: a worker with four slots.\<close>

definition demo_worker :: RxWorker where
  "demo_worker = \<lparr>wk_queue = \<lparr>sq_capacity = 4, sq_mask = 3, sq_buffer = [None, None, None, None],
     sq_head = 0, sq_tail = 0\<rparr>, wk_wakeups = 0\<rparr>"

lemma demo_worker_wf: "worker_wf demo_worker" "worker_list demo_worker = []" "worker_room demo_worker = 4"
  by (simp_all add: demo_worker_def worker_wf_def worker_list_def worker_room_def spsc_wf_def
      spsc_list_def slots_ok_def pow2_def win_def)

end
