(* ===== verification/Tcp.thy ===== *)
theory Tcp
  imports Engine Kernel
begin

text \<open>
  \<open>serverd/protocol/tcp\<close>: \<open>TcpConnection\<close>, \<open>TcpReactor\<close> (accept, receive, TLS detection, transmit and
  the dispatch of epoll events) and \<open>TcpWorker\<close>. The reactor is one thread; a call of one of its
  handlers is one step, given the kernel's answers. The calls \<open>close\<close>, \<open>send\<close> and
  \<open>handleTlsConnection\<close> are recorded in \<open>tr_closed\<close>, \<open>tr_sent\<close> and \<open>tr_handover\<close>.
\<close>

subsection \<open>State\<close>

text \<open>
  In \<open>mk_TcpReactor\<close> \<open>None\<close> is \<open>abort\<close>; \<open>listenFd\<close> and \<open>wakeupFd\<close> stand for descriptors that are
  not set before \<open>start\<close>.
\<close>

record TcpConnection =
  tc_fd :: fd
  tc_peer :: sockaddr_in
  tc_rxRing :: ByteRingBuffer
  tc_txRing :: ByteRingBuffer

definition mk_TcpConnection :: "fd \<Rightarrow> sockaddr_in \<Rightarrow> nat \<Rightarrow> nat \<Rightarrow> TcpConnection" where
  "mk_TcpConnection fd peer rxCapacity txCapacity =
     \<lparr>tc_fd = fd, tc_peer = peer, tc_rxRing = rb_new rxCapacity, tc_txRing = rb_new txCapacity\<rparr>"

record TcpReactor =
  tr_conns :: "(fd \<times> TcpConnection) list"
  tr_workers :: "RxWorker list"
  tr_tlsServer :: bool
  tr_epoll :: "(fd \<times> u32) list"
  tr_port :: TxPort
  tr_portNo :: u16
  tr_listenFd :: fd
  tr_wakeupFd :: fd
  tr_serverAddr :: sockaddr_in
  tr_closed :: "fd list"
  tr_sent :: "(fd \<times> bytes) list"
  tr_handover :: "(fd \<times> sockaddr_in \<times> sockaddr_in) list"

definition TCP_MAX_RX_BUFFER_SIZE :: nat where "TCP_MAX_RX_BUFFER_SIZE = 65536"
definition TCP_MAX_TX_BUFFER_SIZE :: nat where "TCP_MAX_TX_BUFFER_SIZE = 65536"

definition mk_TcpReactor :: "u16 \<Rightarrow> RxWorker list \<Rightarrow> bool \<Rightarrow> fd \<Rightarrow> fd \<Rightarrow> TcpReactor option" where
  "mk_TcpReactor port workers tlsServer listenFd wakeupFd =
     (if workers = [] then None
      else do {
        q \<leftarrow> mpsc_new 65536;
        Some \<lparr>tr_conns = [], tr_workers = workers, tr_tlsServer = tlsServer, tr_epoll = [],
          tr_port = \<lparr>tp_queue = q, tp_wakeups = 0\<rparr>, tr_portNo = port, tr_listenFd = listenFd,
          tr_wakeupFd = wakeupFd, tr_serverAddr = \<lparr>sin_family = 0, sin_addr = 0, sin_port = 0\<rparr>,
          tr_closed = [], tr_sent = [], tr_handover = []\<rparr>
      })"

definition tcp_closeConnection :: "fd \<Rightarrow> TcpReactor \<Rightarrow> TcpReactor" where
  "tcp_closeConnection fd tr =
     tr\<lparr>tr_epoll := epoll_del fd (tr_epoll tr), tr_closed := tr_closed tr @ [fd],
        tr_conns := AList.delete fd (tr_conns tr)\<rparr>"

subsection \<open>Accepting\<close>

fun tcp_acceptConnection :: "sockaddr_in accept_res list \<Rightarrow> TcpReactor \<Rightarrow> TcpReactor" where
  "tcp_acceptConnection [] tr = tr"
| "tcp_acceptConnection (AErr e # as) tr = tr"
| "tcp_acceptConnection (AConn fd peer # as) tr =
     tcp_acceptConnection as
       (tr\<lparr>tr_conns := emplace fd
             (mk_TcpConnection fd peer TCP_MAX_RX_BUFFER_SIZE TCP_MAX_TX_BUFFER_SIZE) (tr_conns tr),
           tr_epoll := epoll_add fd (EPOLLIN OR EPOLLRDHUP) (tr_epoll tr)\<rparr>)"

subsection \<open>Receiving\<close>

text \<open>\<open>peeked\<close> is what \<open>recv(fd, buf, 5, MSG_PEEK)\<close> delivers, \<open>None\<close> for an error.\<close>

definition isTlsClientHello :: "bytes option \<Rightarrow> bool" where
  "isTlsClientHello peeked =
     (case peeked of
        None \<Rightarrow> False
      | Some buf \<Rightarrow> if length buf < 5 then False else buf ! 0 = 0x16 \<and> buf ! 1 = 0x03)"

definition handoverToTls :: "fd \<Rightarrow> TcpReactor \<Rightarrow> TcpReactor" where
  "handoverToTls fd tr =
     (case map_of (tr_conns tr) fd of
        None \<Rightarrow> tcp_closeConnection fd tr
      | Some conn \<Rightarrow>
          tr\<lparr>tr_epoll := epoll_del fd (tr_epoll tr), tr_conns := AList.delete fd (tr_conns tr),
             tr_handover := tr_handover tr @ [(fd, tr_serverAddr tr, tc_peer conn)]\<rparr>)"

definition tcp_packet :: "fd \<Rightarrow> TcpConnection \<Rightarrow> TcpReactor \<Rightarrow> bytes \<Rightarrow> Packet" where
  "tcp_packet fd conn tr payload = mk_Packet fd TCP payload (tc_peer conn) (tr_serverAddr tr)"

definition tcp_emit :: "fd \<Rightarrow> TcpConnection \<Rightarrow> bytes \<Rightarrow> TcpReactor option \<Rightarrow> TcpReactor option" where
  "tcp_emit fd conn payload s =
     do {
       tr \<leftarrow> s;
       ws \<leftarrow> to_worker TcpWorker_enqueueRx (tcp_packet fd conn tr payload) (tr_workers tr);
       Some (tr\<lparr>tr_workers := ws\<rparr>)
     }"

function tcp_receive_loop :: "fd \<Rightarrow> TcpReactor \<Rightarrow> recv_res list \<Rightarrow> (TcpReactor \<times> recv_res list) option" where
  "tcp_receive_loop fd tr rs =
     (case map_of (tr_conns tr) fd of
        None \<Rightarrow> Some (tr, rs)
      | Some conn \<Rightarrow>
          (let writeLen = rb_writeLen (tc_rxRing conn) in
           if writeLen = 0 then Some (tcp_closeConnection fd tr, rs)
           else
             (case recv writeLen rs of
                (RBytes bs, rs') \<Rightarrow>
                  (if bs = [] then Some (tcp_closeConnection fd tr, rs')
                   else
                     (case absorb TcpFraming_tryExtractFrame (tc_rxRing conn) bs (tcp_emit fd conn) (Some tr) of
                        Some (rx, Some tr', ok) \<Rightarrow>
                          (let tr' = tr'\<lparr>tr_conns := AList.update fd (conn\<lparr>tc_rxRing := rx\<rparr>) (tr_conns tr')\<rparr> in
                           if ok then tcp_receive_loop fd tr' rs'
                           else Some (tcp_closeConnection fd tr', rs'))
                      | _ \<Rightarrow> None))
              | (RErr e, rs') \<Rightarrow>
                  (if e = EINTR then tcp_receive_loop fd tr rs'
                   else if e = EAGAIN then Some (tr, rs')
                   else Some (tcp_closeConnection fd tr, rs')))))"
  by pat_completeness auto
termination
  by (relation "measure (\<lambda>(fd, tr, rs). sum_list (map res_size rs))")
    (auto dest!: sym[of _ "recv _ _"] intro: read_size read_err_size)

declare tcp_receive_loop.simps [simp del]

definition tcp_receive ::
  "fd \<Rightarrow> bytes option \<Rightarrow> recv_res list \<Rightarrow> TcpReactor \<Rightarrow> (TcpReactor \<times> recv_res list) option" where
  "tcp_receive fd peeked rs tr =
     (if tr_tlsServer tr \<and> isTlsClientHello peeked then Some (handoverToTls fd tr, rs)
      else tcp_receive_loop fd tr rs)"

subsection \<open>Transmitting\<close>

text \<open>The loop of \<open>flushTxBuffer\<close> over the answers to \<open>send\<close>; at their end the socket blocks.\<close>

fun tcp_flush_loop :: "fd \<Rightarrow> TcpConnection \<Rightarrow> send_res list \<Rightarrow> TcpReactor \<Rightarrow> TcpReactor option" where
  "tcp_flush_loop fd conn ss tr =
     (if rb_readable (tc_txRing conn) > 0 then
        do {
          data \<leftarrow> rb_load (tc_txRing conn) (rb_readLen (tc_txRing conn));
          case ss of
            SSent n # ss' \<Rightarrow>
              (let sent = min n (length data) in
               do {
                 tx \<leftarrow> rb_consume (tc_txRing conn) sent;
                 let conn' = conn\<lparr>tc_txRing := tx\<rparr>;
                 let tr' = tr\<lparr>tr_sent := tr_sent tr @ [(fd, take sent data)],
                     tr_conns := AList.update fd conn' (tr_conns tr)\<rparr>;
                 if sent < length data
                 then Some (tr'\<lparr>tr_epoll := epoll_mod fd (EPOLLIN OR EPOLLOUT OR EPOLLRDHUP) (tr_epoll tr')\<rparr>)
                 else tcp_flush_loop fd conn' ss' tr'
               })
          | SErr e # ss' \<Rightarrow>
              (if e = EAGAIN
               then Some (tr\<lparr>tr_epoll := epoll_mod fd (EPOLLIN OR EPOLLOUT OR EPOLLRDHUP) (tr_epoll tr)\<rparr>)
               else Some (tcp_closeConnection fd tr))
          | [] \<Rightarrow>
              Some (tr\<lparr>tr_epoll := epoll_mod fd (EPOLLIN OR EPOLLOUT OR EPOLLRDHUP) (tr_epoll tr)\<rparr>)
        }
      else Some (tr\<lparr>tr_epoll := epoll_mod fd (EPOLLIN OR EPOLLRDHUP) (tr_epoll tr)\<rparr>))"

declare tcp_flush_loop.simps [simp del]

definition tcp_flushTxBuffer :: "fd \<Rightarrow> send_res list \<Rightarrow> TcpReactor \<Rightarrow> TcpReactor option" where
  "tcp_flushTxBuffer fd ss tr =
     (case map_of (tr_conns tr) fd of
        None \<Rightarrow> Some tr
      | Some conn \<Rightarrow>
          if rb_readable (tc_txRing conn) = 0 then Some tr else tcp_flush_loop fd conn ss tr)"

text \<open>One packet of \<open>processTxQueue\<close>; the second result is the set of dirty descriptors.\<close>

definition tcp_buffer_packet :: "Packet \<Rightarrow> TcpReactor \<times> fd list \<Rightarrow> (TcpReactor \<times> fd list) option" where
  "tcp_buffer_packet pkt s =
     (case s of (tr, dirty) \<Rightarrow>
        (case map_of (tr_conns tr) (pk_fd pkt) of
           None \<Rightarrow> Some (tr, dirty)
         | Some conn \<Rightarrow>
             if rb_writable (tc_txRing conn) < length (pk_payload pkt) then Some (tr, dirty)
             else do {
               (tx, n) \<leftarrow> rb_write (tc_txRing conn) (pk_payload pkt);
               Some (tr\<lparr>tr_conns := AList.update (pk_fd pkt) (conn\<lparr>tc_txRing := tx\<rparr>) (tr_conns tr)\<rparr>,
                     List.insert (pk_fd pkt) dirty)
             }))"

text \<open>\<open>sends fd\<close> are the answers to the calls of \<open>send\<close> on \<open>fd\<close>.\<close>

definition tcp_processTxQueue :: "(fd \<Rightarrow> send_res list) \<Rightarrow> TcpReactor \<Rightarrow> TcpReactor option" where
  "tcp_processTxQueue sends tr =
     do {
       (q, packets) \<leftarrow> mpsc_items (tp_queue (tr_port tr));
       let tr = tr\<lparr>tr_port := (tr_port tr)\<lparr>tp_queue := q\<rparr>\<rparr>;
       if packets = [] then Some tr
       else do {
         (tr, dirty) \<leftarrow> ofold tcp_buffer_packet packets (tr, []);
         ofold (\<lambda>fd. tcp_flushTxBuffer fd (sends fd)) dirty tr
       }
     }"

subsection \<open>The event loop\<close>

text \<open>The kernel's answers while one event is handled.\<close>

record tcp_io =
  io_accepts :: "sockaddr_in accept_res list"
  io_peeked :: "bytes option"
  io_recvs :: "recv_res list"
  io_sends :: "fd \<Rightarrow> send_res list"

definition tcp_handleEvent :: "tcp_io \<Rightarrow> fd \<Rightarrow> u32 \<Rightarrow> TcpReactor \<Rightarrow> TcpReactor option" where
  "tcp_handleEvent io fd ev tr =
     (if fd = tr_wakeupFd tr then
        tcp_processTxQueue (io_sends io) (tr\<lparr>tr_port := (tr_port tr)\<lparr>tp_wakeups := 0\<rparr>\<rparr>)
      else if fd = tr_listenFd tr then Some (tcp_acceptConnection (io_accepts io) tr)
      else if ev AND (EPOLLERR OR EPOLLHUP OR EPOLLRDHUP) \<noteq> 0 then Some (tcp_closeConnection fd tr)
      else do {
        tr \<leftarrow> (if ev AND EPOLLIN \<noteq> 0
               then map_option fst (tcp_receive fd (io_peeked io) (io_recvs io) tr) else Some tr);
        if ev AND EPOLLOUT \<noteq> 0 then tcp_flushTxBuffer fd (io_sends io fd) tr else Some tr
      })"

text \<open>The kernel's answers while the server starts.\<close>

record start_io =
  st_socket :: fd
  st_nonblock :: bool
  st_sockopt :: bool
  st_bind :: bool
  st_listen :: bool
  st_epoll :: "fd option"

definition tcp_create :: "start_io \<Rightarrow> TcpReactor \<Rightarrow> TcpReactor \<times> bool" where
  "tcp_create st tr =
     (let tr = tr\<lparr>tr_listenFd := st_socket st\<rparr> in (tr, \<not> tr_listenFd tr < 0 \<and> st_nonblock st))"

definition tcp_bindAndListen :: "start_io \<Rightarrow> TcpReactor \<Rightarrow> TcpReactor \<times> bool" where
  "tcp_bindAndListen st tr =
     (tr\<lparr>tr_serverAddr := \<lparr>sin_family = AF_INET, sin_addr = 0, sin_port = htons (tr_portNo tr)\<rparr>\<rparr>,
      st_bind st \<and> st_listen st)"

definition tcp_init :: "start_io \<Rightarrow> TcpReactor \<Rightarrow> TcpReactor \<times> bool" where
  "tcp_init st tr =
     (case tcp_create st tr of (tr, ok) \<Rightarrow>
        if \<not> ok then (tr, False)
        else if \<not> st_sockopt st then (tr, False)
        else (case tcp_bindAndListen st tr of (tr, ok) \<Rightarrow> if \<not> ok then (tr, False) else (tr, True)))"

definition tcp_close :: "TcpReactor \<Rightarrow> TcpReactor" where
  "tcp_close tr =
     (if tr_listenFd tr \<ge> 0
      then tr\<lparr>tr_closed := tr_closed tr @ [tr_listenFd tr], tr_listenFd := - 1\<rparr> else tr)"

definition tcp_shutdown :: "TcpReactor \<Rightarrow> TcpReactor" where
  "tcp_shutdown tr =
     (let tr = tr\<lparr>tr_closed := tr_closed tr @ map fst (tr_conns tr), tr_conns := []\<rparr>;
          tr = tr\<lparr>tr_epoll := []\<rparr>
      in tcp_close tr)"

text \<open>
  What happens to a running reactor: the loop takes an event from epoll, or another thread queues a
  packet. \<open>Epoll::init\<close> registers the wakeup descriptor.
\<close>

datatype tcp_op = TcpEvent tcp_io fd u32 | TcpTx "Packet option"

fun tcp_step :: "tcp_op \<Rightarrow> TcpReactor \<Rightarrow> TcpReactor option" where
  "tcp_step (TcpEvent io fd ev) tr = tcp_handleEvent io fd ev tr"
| "tcp_step (TcpTx pkt) tr = do { port \<leftarrow> TcpReactor_enqueueTx (tr_port tr) pkt; Some (tr\<lparr>tr_port := port\<rparr>) }"

definition tcp_run :: "tcp_op list \<Rightarrow> TcpReactor \<Rightarrow> TcpReactor option" where
  "tcp_run ops tr = ofold tcp_step ops tr"

definition tcp_prepare :: "start_io \<Rightarrow> TcpReactor \<Rightarrow> TcpReactor \<times> bool" where
  "tcp_prepare st tr =
     (case tcp_init st tr of (tr, ok) \<Rightarrow>
        if \<not> ok then (tr, False)
        else
          (case st_epoll st of
             None \<Rightarrow> (tcp_close tr, False)
           | Some wakeup \<Rightarrow>
               (let tr = tr\<lparr>tr_wakeupFd := wakeup, tr_epoll := epoll_add wakeup EPOLLIN (tr_epoll tr)\<rparr>
                in (tr\<lparr>tr_epoll := epoll_add (tr_listenFd tr) EPOLLIN (tr_epoll tr)\<rparr>, True))))"

definition tcp_start :: "start_io \<Rightarrow> tcp_op list \<Rightarrow> TcpReactor \<Rightarrow> TcpReactor option" where
  "tcp_start st ops tr =
     (case tcp_prepare st tr of (tr, ok) \<Rightarrow>
        if ok then map_option tcp_shutdown (tcp_run ops tr) else Some tr)"

subsection \<open>TcpWorker\<close>

text \<open>A wakeup of the worker's thread: the queue is drained into the router.\<close>

definition TcpWorker_processPacket ::
  "RxWorker \<Rightarrow> Engine \<times> rand \<Rightarrow> (RxWorker \<times> (Engine \<times> rand)) option" where
  "TcpWorker_processPacket w s =
     (let w = w\<lparr>wk_wakeups := 0\<rparr> in
      map_option (\<lambda>(q, s'). (w\<lparr>wk_queue := q\<rparr>, s')) (drain_loop spsc_dequeue RxRouter_handlePacket (wk_queue w) s))"

subsection \<open>Invariant\<close>

definition conn_wf :: "fd \<Rightarrow> TcpConnection \<Rightarrow> bool" where
  "conn_wf fd c \<longleftrightarrow> tc_fd c = fd \<and> rb_wf (tc_rxRing c) \<and> rb_wf (tc_txRing c) \<and>
     rb_cap (tc_rxRing c) = TCP_MAX_RX_BUFFER_SIZE \<and> rb_cap (tc_txRing c) = TCP_MAX_TX_BUFFER_SIZE"

definition tcp_wf :: "TcpReactor \<Rightarrow> bool" where
  "tcp_wf tr \<longleftrightarrow> um_wf (tr_conns tr) \<and> (\<forall>fd c. map_of (tr_conns tr) fd = Some c \<longrightarrow> conn_wf fd c) \<and>
     workers_wf (tr_workers tr) \<and> port_wf (tr_port tr)"

lemma tcp_wf_conn: "tcp_wf tr \<Longrightarrow> map_of (tr_conns tr) fd = Some c \<Longrightarrow> conn_wf fd c"
  by (simp add: tcp_wf_def)

lemma tcp_wf_close [inv_intros]: "tcp_wf tr \<Longrightarrow> tcp_wf (tcp_closeConnection fd tr)"
  by (auto simp: tcp_wf_def tcp_closeConnection_def split: if_splits)

lemma tcp_wf_handover [inv_intros]: "tcp_wf tr \<Longrightarrow> tcp_wf (handoverToTls fd tr)"
  by (auto simp: handoverToTls_def intro: tcp_wf_close split: option.splits)
    (auto simp: tcp_wf_def split: if_splits)

lemma conn_wf_new: "conn_wf fd (mk_TcpConnection fd peer TCP_MAX_RX_BUFFER_SIZE TCP_MAX_TX_BUFFER_SIZE)"
  by (simp add: conn_wf_def mk_TcpConnection_def TCP_MAX_RX_BUFFER_SIZE_def TCP_MAX_TX_BUFFER_SIZE_def
      rb_wf_new rb_cap_new SIZE_MOD_def)

lemma tcp_wf_accept [inv_intros]: "tcp_wf tr \<Longrightarrow> tcp_wf (tcp_acceptConnection as tr)"
proof (induction as tr rule: tcp_acceptConnection.induct)
  case (3 fd peer as tr)
  from 3(2) have "tcp_wf (tr\<lparr>tr_conns := emplace fd
      (mk_TcpConnection fd peer TCP_MAX_RX_BUFFER_SIZE TCP_MAX_TX_BUFFER_SIZE) (tr_conns tr),
      tr_epoll := epoll_add fd (EPOLLIN OR EPOLLRDHUP) (tr_epoll tr)\<rparr>)"
    unfolding tcp_wf_def using conn_wf_new by (auto split: if_splits)
  from 3(1)[OF this] show ?case by simp
qed simp_all

lemma tcp_wf_update:
  "tcp_wf tr \<Longrightarrow> conn_wf fd c \<Longrightarrow> tcp_wf (tr\<lparr>tr_conns := AList.update fd c (tr_conns tr)\<rparr>)"
  by (auto simp: tcp_wf_def split: if_splits)

subsection \<open>Receiving is reading a stream\<close>

text \<open>The frames of a pass become packets for the descriptor's worker.\<close>

lemma tcp_emit_simps:
  "tcp_emit fd conn f None = None"
  "tcp_emit fd conn f (Some tr) = map_option (\<lambda>ws. tr\<lparr>tr_workers := ws\<rparr>)
     (to_worker TcpWorker_enqueueRx (tcp_packet fd conn tr f) (tr_workers tr))"
  by (simp_all add: tcp_emit_def map_conv_bind_option comp_def)

lemma tcp_emit_fold:
  "fold (tcp_emit fd conn) fs (Some tr) = map_option (\<lambda>ws. tr\<lparr>tr_workers := ws\<rparr>)
     (ofold (to_worker TcpWorker_enqueueRx) (map (tcp_packet fd conn tr) fs) (tr_workers tr))"
proof (induction fs arbitrary: tr)
  case (Cons f fs)
  show ?case
  proof (cases "to_worker TcpWorker_enqueueRx (tcp_packet fd conn tr f) (tr_workers tr)")
    case None
    have "fold (tcp_emit fd conn) fs None = None" by (induction fs) (simp_all add: tcp_emit_simps)
    with None show ?thesis by (simp add: tcp_emit_simps)
  next
    case (Some ws)
    have "tcp_packet fd conn (tr\<lparr>tr_workers := ws\<rparr>) = tcp_packet fd conn tr"
      by (simp add: tcp_packet_def fun_eq_iff)
    with Some Cons.IH[of "tr\<lparr>tr_workers := ws\<rparr>"] show ?thesis by (simp add: tcp_emit_simps)
  qed
qed simp

lemma pk_fd_tcp_packet [simp]: "pk_fd (tcp_packet fd conn tr pl) = fd"
  by (simp add: tcp_packet_def mk_Packet_def)

text \<open>What changes when the frames \<open>fs\<close> of a connection are handed on.\<close>

definition tcp_delivered :: "fd \<Rightarrow> TcpReactor \<Rightarrow> TcpReactor \<Rightarrow> bytes list \<Rightarrow> bool" where
  "tcp_delivered fd tr tr' fs \<longleftrightarrow>
     (\<exists>conn rx i ws. map_of (tr_conns tr) fd = Some conn \<and> worker_index fd (tr_workers tr) = Some i \<and>
        rx_delivered i (map (tcp_packet fd conn tr) fs) (tr_workers tr) ws \<and>
        tr' = tr\<lparr>tr_workers := ws, tr_conns := AList.update fd (conn\<lparr>tc_rxRing := rx\<rparr>) (tr_conns tr)\<rparr>)"

lemma tcp_delivered_none:
  assumes "tcp_wf tr" "map_of (tr_conns tr) fd = Some conn"
  shows "tcp_delivered fd tr tr []"
proof -
  have ws: "workers_wf (tr_workers tr)" using assms(1) by (simp add: tcp_wf_def)
  then obtain i where i: "worker_index fd (tr_workers tr) = Some i" using worker_index_wf by blast
  from rx_delivered_none[OF ws worker_index_bound[OF i]] i assms(2) show ?thesis
    unfolding tcp_delivered_def
    by (intro exI[of _ conn] exI[of _ "tc_rxRing conn"] exI[of _ i] exI[of _ "tr_workers tr"])
      (simp add: update_same)
qed

lemma tcp_delivered_trans:
  assumes "tcp_delivered fd tr tr' fs" "tcp_delivered fd tr' tr'' gs"
  shows "tcp_delivered fd tr tr'' (fs @ gs)"
proof -
  from assms(1) obtain conn rx i ws where 1: "map_of (tr_conns tr) fd = Some conn"
    "worker_index fd (tr_workers tr) = Some i"
    "rx_delivered i (map (tcp_packet fd conn tr) fs) (tr_workers tr) ws"
    "tr' = tr\<lparr>tr_workers := ws, tr_conns := AList.update fd (conn\<lparr>tc_rxRing := rx\<rparr>) (tr_conns tr)\<rparr>"
    unfolding tcp_delivered_def by blast
  have p: "tcp_packet fd (conn\<lparr>tc_rxRing := rx\<rparr>) tr' = tcp_packet fd conn tr"
    using 1(4) by (simp add: tcp_packet_def fun_eq_iff)
  from assms(2) 1(4) obtain rx' i' ws' where 2: "worker_index fd ws = Some i'"
    "rx_delivered i' (map (tcp_packet fd (conn\<lparr>tc_rxRing := rx\<rparr>) tr') gs) ws ws'"
    "tr'' = tr'\<lparr>tr_workers := ws', tr_conns := AList.update fd (conn\<lparr>tc_rxRing := rx'\<rparr>) (tr_conns tr')\<rparr>"
    unfolding tcp_delivered_def by auto
  have "i' = i" using 1(2) 2(1) rx_delivered_index[OF 1(3)] by simp
  with rx_delivered_trans[OF 1(3)] 2(2) p
  have "rx_delivered i (map (tcp_packet fd conn tr) (fs @ gs)) (tr_workers tr) ws'" by simp
  with 1 2(3) show ?thesis unfolding tcp_delivered_def by auto
qed

text \<open>The branches of one turn of the receive loop.\<close>

lemma tcp_loop_gone: "map_of (tr_conns tr) fd = None \<Longrightarrow> tcp_receive_loop fd tr rs = Some (tr, rs)"
  by (simp add: tcp_receive_loop.simps[of fd tr rs])

lemma tcp_loop_full:
  "map_of (tr_conns tr) fd = Some conn \<Longrightarrow> rb_writeLen (tc_rxRing conn) = 0 \<Longrightarrow>
    tcp_receive_loop fd tr rs = Some (tcp_closeConnection fd tr, rs)"
  by (simp add: tcp_receive_loop.simps[of fd tr rs])

lemma tcp_loop_err:
  "map_of (tr_conns tr) fd = Some conn \<Longrightarrow> rb_writeLen (tc_rxRing conn) \<noteq> 0 \<Longrightarrow>
    recv (rb_writeLen (tc_rxRing conn)) rs = (RErr e, rs') \<Longrightarrow>
    tcp_receive_loop fd tr rs =
      (if e = EINTR then tcp_receive_loop fd tr rs'
       else if e = EAGAIN then Some (tr, rs') else Some (tcp_closeConnection fd tr, rs'))"
  by (simp add: tcp_receive_loop.simps[of fd tr rs])

lemma tcp_loop_eof:
  "map_of (tr_conns tr) fd = Some conn \<Longrightarrow> rb_writeLen (tc_rxRing conn) \<noteq> 0 \<Longrightarrow>
    recv (rb_writeLen (tc_rxRing conn)) rs = (RBytes [], rs') \<Longrightarrow>
    tcp_receive_loop fd tr rs = Some (tcp_closeConnection fd tr, rs')"
  by (simp add: tcp_receive_loop.simps[of fd tr rs])

lemma tcp_loop_bytes:
  "map_of (tr_conns tr) fd = Some conn \<Longrightarrow> rb_writeLen (tc_rxRing conn) \<noteq> 0 \<Longrightarrow>
    recv (rb_writeLen (tc_rxRing conn)) rs = (RBytes bs, rs') \<Longrightarrow> bs \<noteq> [] \<Longrightarrow>
    absorb TcpFraming_tryExtractFrame (tc_rxRing conn) bs (tcp_emit fd conn) (Some tr) =
      Some (rx, Some tr', True) \<Longrightarrow>
    tcp_receive_loop fd tr rs = tcp_receive_loop fd
      (tr'\<lparr>tr_conns := AList.update fd (conn\<lparr>tc_rxRing := rx\<rparr>) (tr_conns tr')\<rparr>) rs'"
  by (simp add: tcp_receive_loop.simps[of fd tr rs])

text \<open>The receive ring of a connection.\<close>

definition tcp_ring :: "fd \<Rightarrow> TcpReactor \<Rightarrow> ByteRingBuffer option" where
  "tcp_ring fd tr = map_option tc_rxRing (map_of (tr_conns tr) fd)"

lemma tcp_turn:
  assumes wf: "tcp_wf tr" and ring: "tcp_ring fd tr = Some r" and room: "rb_writeLen r \<noteq> 0"
    and rd: "recv (rb_writeLen r) rs = (RBytes bs, rs')" "bs \<noteq> []"
  shows "\<exists>tr' r'. tcp_receive_loop fd tr rs = tcp_receive_loop fd tr' rs' \<and> tcp_wf tr' \<and>
    tcp_ring fd tr' = Some r' \<and> rb_cap r' = rb_cap r \<and>
    rb_contents r' = snd (split_frames 16 packet_blen (rb_contents r @ bs)) \<and>
    tcp_delivered fd tr tr' (fst (split_frames 16 packet_blen (rb_contents r @ bs)))"
proof -
  let ?fs = "fst (split_frames 16 packet_blen (rb_contents r @ bs))"
  from ring obtain conn where conn: "map_of (tr_conns tr) fd = Some conn" "r = tc_rxRing conn"
    by (auto simp: tcp_ring_def)
  have c: "conn_wf fd conn" by (rule tcp_wf_conn[OF wf conn(1)])
  then have "rb_wf r" by (simp add: conn_wf_def conn(2))
  from tcp_absorb[OF this rd(2) read_length[OF rd(1)], of "tcp_emit fd conn" "Some tr"]
  obtain rx where rx: "absorb TcpFraming_tryExtractFrame r bs (tcp_emit fd conn) (Some tr) =
      Some (rx, fold (tcp_emit fd conn) ?fs (Some tr), True)" "rb_wf rx" "rb_cap rx = rb_cap r"
    "rb_contents rx = snd (split_frames 16 packet_blen (rb_contents r @ bs))" by blast
  have ws: "workers_wf (tr_workers tr)" using wf by (simp add: tcp_wf_def)
  then obtain i where i: "worker_index fd (tr_workers tr) = Some i" using worker_index_wf by blast
  obtain ws' where ws': "ofold (to_worker TcpWorker_enqueueRx) (map (tcp_packet fd conn tr) ?fs)
      (tr_workers tr) = Some ws'" "rx_delivered i (map (tcp_packet fd conn tr) ?fs) (tr_workers tr) ws'"
    by (rule to_worker_delivered[OF ws i, of "map (tcp_packet fd conn tr) ?fs"]) auto
  define tr' where "tr' = tr\<lparr>tr_workers := ws',
    tr_conns := AList.update fd (conn\<lparr>tc_rxRing := rx\<rparr>) (tr_conns tr)\<rparr>"
  have "tcp_receive_loop fd tr rs = tcp_receive_loop fd tr' rs'"
    using tcp_loop_bytes[OF conn(1), of rs bs rs' rx "tr\<lparr>tr_workers := ws'\<rparr>"] room rd rx(1) ws'(1)
    by (simp add: conn(2) tcp_emit_fold tr'_def)
  moreover have "tcp_wf (tr\<lparr>tr_workers := ws'\<rparr>)"
    using wf rx_delivered_wf[OF ws ws'(2)] by (simp add: tcp_wf_def)
  then have "tcp_wf tr'"
    using tcp_wf_update[of "tr\<lparr>tr_workers := ws'\<rparr>" fd "conn\<lparr>tc_rxRing := rx\<rparr>"] c rx(2,3)
    by (simp add: tr'_def conn_wf_def conn(2))
  moreover have "tcp_delivered fd tr tr' ?fs"
    unfolding tcp_delivered_def tr'_def using conn(1) i ws'(2) by blast
  ultimately show ?thesis using rx(3,4)
    by (intro exI[of _ tr'] exI[of _ rx]) (simp add: tr'_def tcp_ring_def)
qed

text \<open>The loop stops with the connection as it is or closed.\<close>

definition tcp_ends :: "fd \<Rightarrow> TcpReactor \<Rightarrow> TcpReactor \<Rightarrow> bool" where
  "tcp_ends fd tr tr' \<longleftrightarrow> tr' = tr \<or> tr' = tcp_closeConnection fd tr"

lemma tcp_other:
  assumes ring: "tcp_ring fd tr = Some r"
    and no: "rb_writeLen r = 0 \<or> (\<forall>bs. fst (recv (rb_writeLen r) rs) = RBytes bs \<longrightarrow> bs = [])"
  shows "(\<exists>tr' rs'. tcp_receive_loop fd tr rs = Some (tr', rs') \<and> tcp_ends fd tr tr') \<or>
    (\<exists>rs'. sum_list (map res_size rs') < sum_list (map res_size rs) \<and>
      tcp_receive_loop fd tr rs = tcp_receive_loop fd tr rs')"
proof -
  from ring obtain conn where conn: "map_of (tr_conns tr) fd = Some conn" "r = tc_rxRing conn"
    by (auto simp: tcp_ring_def)
  show ?thesis
  proof (cases "rb_writeLen r = 0")
    case True
    with conn show ?thesis by (auto simp: tcp_loop_full tcp_ends_def)
  next
    case False
    obtain res rs' where r: "recv (rb_writeLen r) rs = (res, rs')" by fastforce
    show ?thesis
    proof (cases res)
      case (RErr e)
      with r read_err_size[of EAGAIN "rb_writeLen r" rs e rs'] tcp_loop_err[OF conn(1), of rs e rs'] False conn(2)
      show ?thesis by (cases e) (auto simp: tcp_ends_def)
    next
      case (RBytes bs)
      with no False r have "bs = []" by simp
      with r RBytes tcp_loop_eof[OF conn(1), of rs rs'] False conn(2) show ?thesis
        by (auto simp: tcp_ends_def)
    qed
  qed
qed

interpretation tcp_rx: stream_receiver 16 packet_blen EAGAIN "tcp_receive_loop fd" tcp_wf "tcp_ring fd"
  "tcp_delivered fd" "tcp_ends fd" for fd
proof (unfold_locales, goal_cases)
  case (1 s r)
  then show ?case
    by (auto simp: tcp_ring_def conn_wf_def TCP_MAX_RX_BUFFER_SIZE_def dest!: tcp_wf_conn)
next
  case (2 s r rs bs rs')
  then show ?case by (rule tcp_turn)
next
  case (3 s r rs)
  then show ?case by (intro tcp_other)
next
  case (4 s r)
  then show ?case by (auto simp: tcp_ring_def tcp_loop_err)
next
  case (5 s r)
  then show ?case by (auto simp: tcp_ring_def intro: tcp_delivered_none)
next
  case (6 s s' fs s'' gs)
  then show ?case by (rule tcp_delivered_trans)
qed

text \<open>Receiving ends; it hands frames on and possibly closes the connection.\<close>

lemma tcp_receive_loop_cases:
  assumes "tcp_wf tr"
  obtains rs' where "tcp_receive_loop fd tr rs = Some (tr, rs')"
  | tr' tr'' fs rs' where "tcp_receive_loop fd tr rs = Some (tr'', rs')" "tcp_wf tr'"
      "tcp_delivered fd tr tr' fs" "tcp_ends fd tr' tr''"
proof (cases "map_of (tr_conns tr) fd")
  case None
  then show ?thesis using that(1) by (simp add: tcp_loop_gone)
next
  case (Some conn)
  then have "tcp_ring fd tr = Some (tc_rxRing conn)" by (simp add: tcp_ring_def)
  from tcp_rx.loop_total[OF assms this, of rs] that(2) show ?thesis by blast
qed

end
