(* ===== verification/Tls.thy ===== *)
theory Tls
  imports Tcp
begin

text \<open>
  \<open>serverd/protocol/tls\<close>: \<open>TlsConnection\<close>, \<open>TlsHandshake\<close>, \<open>TlsReactor\<close>, \<open>TlsWorker\<close> and the entry of
  \<open>TlsServer\<close> through which the TCP reactor hands connections over. OpenSSL is known by its answers:
  the results of \<open>SSL_new\<close>, \<open>SSL_accept\<close>, \<open>SSL_read\<close> and \<open>SSL_write\<close> are scripts, and \<open>tl_init\<close> is
  what \<open>SSL_is_init_finished\<close> returns, which an \<open>SSL_accept\<close> with result 1 or a successful
  \<open>SSL_write\<close> sets.
\<close>

subsection \<open>State\<close>

record TlsConnection =
  tl_fd :: fd
  tl_addr :: "sockaddr_in \<times> sockaddr_in"
  tl_rxRing :: ByteRingBuffer
  tl_txQueue :: "Packet list"
  tl_init :: bool

definition mk_TlsConnection :: "fd \<Rightarrow> sockaddr_in \<times> sockaddr_in \<Rightarrow> nat \<Rightarrow> TlsConnection" where
  "mk_TlsConnection fd addr rxCapacity =
     \<lparr>tl_fd = fd, tl_addr = addr, tl_rxRing = rb_new rxCapacity, tl_txQueue = [], tl_init = False\<rparr>"

record TlsHandoverItem =
  hi_fd :: fd
  hi_connInfo :: "sockaddr_in \<times> sockaddr_in"

record TlsReactor =
  lr_conns :: "(fd \<times> TlsConnection) list"
  lr_workers :: "RxWorker list"
  lr_epoll :: "(fd \<times> u32) list"
  lr_port :: TxPort
  lr_handoverQueue :: "TlsHandoverItem LockQueue"
  lr_wakeupFd :: fd
  lr_closed :: "fd list"
  lr_sent :: "(fd \<times> bytes) list"

definition TLS_MAX_RX_BUFFER_SIZE :: nat where "TLS_MAX_RX_BUFFER_SIZE = 65536"

definition mk_TlsReactor :: "RxWorker list \<Rightarrow> TlsReactor option" where
  "mk_TlsReactor workers =
     do {
       q \<leftarrow> mpsc_new 65536;
       Some \<lparr>lr_conns = [], lr_workers = workers, lr_epoll = [], lr_port = \<lparr>tp_queue = q, tp_wakeups = 0\<rparr>,
         lr_handoverQueue = lq_new 4096, lr_wakeupFd = - 1, lr_closed = [], lr_sent = []\<rparr>
     }"

definition tls_closeConnection :: "fd \<Rightarrow> TlsReactor \<Rightarrow> TlsReactor" where
  "tls_closeConnection fd tr =
     tr\<lparr>lr_epoll := epoll_del fd (lr_epoll tr), lr_closed := lr_closed tr @ [fd],
        lr_conns := AList.delete fd (lr_conns tr)\<rparr>"

subsection \<open>Handshake\<close>

datatype ssl_error = WANT_READ | WANT_WRITE | SSL_OTHER

text \<open>\<open>None\<close> is the result 1 of \<open>SSL_accept\<close>, otherwise the value of \<open>SSL_get_error\<close>.\<close>

type_synonym ssl_accept = "ssl_error option"

datatype TlsHandshakeStep = Done | WantRead | WantWrite | Fail

definition TlsHandshake_drive :: "ssl_accept \<Rightarrow> TlsHandshakeStep" where
  "TlsHandshake_drive ret =
     (case ret of
        None \<Rightarrow> Done
      | Some err \<Rightarrow> if err = WANT_READ then WantRead else if err = WANT_WRITE then WantWrite else Fail)"

definition isHandshakeDone :: "fd \<Rightarrow> TlsReactor \<Rightarrow> bool" where
  "isHandshakeDone fd tr = (case map_of (lr_conns tr) fd of None \<Rightarrow> False | Some conn \<Rightarrow> tl_init conn)"

definition tls_updateInterest :: "fd \<Rightarrow> TlsReactor \<Rightarrow> TlsReactor" where
  "tls_updateInterest fd tr =
     (case map_of (lr_conns tr) fd of
        None \<Rightarrow> tr
      | Some conn \<Rightarrow>
          (let ev = EPOLLIN OR EPOLLRDHUP in
           if \<not> isHandshakeDone fd tr then tr\<lparr>lr_epoll := epoll_mod fd (ev OR EPOLLOUT) (lr_epoll tr)\<rparr>
           else (let ev = (if tl_txQueue conn \<noteq> [] then ev OR EPOLLOUT else ev)
                 in tr\<lparr>lr_epoll := epoll_mod fd ev (lr_epoll tr)\<rparr>)))"

subsection \<open>Receiving\<close>

definition tls_packet :: "fd \<Rightarrow> TlsConnection \<Rightarrow> bytes \<Rightarrow> Packet" where
  "tls_packet fd conn payload = mk_Packet fd TLS payload (snd (tl_addr conn)) (fst (tl_addr conn))"

definition tls_emit :: "fd \<Rightarrow> TlsConnection \<Rightarrow> bytes \<Rightarrow> TlsReactor option \<Rightarrow> TlsReactor option" where
  "tls_emit fd conn payload s =
     do {
       tr \<leftarrow> s;
       ws \<leftarrow> to_worker TlsWorker_enqueueRx (tls_packet fd conn payload) (lr_workers tr);
       Some (tr\<lparr>lr_workers := ws\<rparr>)
     }"

abbreviation SSL_read :: "nat \<Rightarrow> ssl_error read_res list \<Rightarrow> ssl_error read_res \<times> ssl_error read_res list" where
  "SSL_read \<equiv> read_call WANT_READ"

function tls_receive_loop ::
  "fd \<Rightarrow> TlsReactor \<Rightarrow> ssl_error read_res list \<Rightarrow> (TlsReactor \<times> ssl_error read_res list) option" where
  "tls_receive_loop fd tr rs =
     (case map_of (lr_conns tr) fd of
        None \<Rightarrow> Some (tr, rs)
      | Some conn \<Rightarrow>
          (let wlen = rb_writeLen (tl_rxRing conn) in
           if wlen = 0 then Some (tls_closeConnection fd tr, rs)
           else
             (case SSL_read wlen rs of
                (RBytes bs, rs') \<Rightarrow>
                  (if bs = [] then Some (tls_closeConnection fd tr, rs')
                   else
                     (case absorb TlsFraming_tryExtractFrame (tl_rxRing conn) bs (tls_emit fd conn) (Some tr) of
                        Some (rx, Some tr', ok) \<Rightarrow>
                          (let tr' = tr'\<lparr>lr_conns := AList.update fd (conn\<lparr>tl_rxRing := rx\<rparr>) (lr_conns tr')\<rparr> in
                           if ok then tls_receive_loop fd tr' rs'
                           else Some (tls_closeConnection fd tr', rs'))
                      | _ \<Rightarrow> None))
              | (RErr err, rs') \<Rightarrow>
                  (if err = WANT_READ then Some (tr, rs')
                   else if err = WANT_WRITE
                   then Some (tr\<lparr>lr_epoll := epoll_mod fd (EPOLLIN OR EPOLLOUT OR EPOLLRDHUP) (lr_epoll tr)\<rparr>, rs')
                   else Some (tls_closeConnection fd tr, rs')))))"
  by pat_completeness auto
termination
  by (relation "measure (\<lambda>(fd, tr, rs). sum_list (map res_size rs))")
    (auto dest!: sym[of _ "SSL_read _ _"] intro: read_size)

declare tls_receive_loop.simps [simp del]

definition tls_receive :: "fd \<Rightarrow> ssl_error read_res list \<Rightarrow> TlsReactor \<Rightarrow> TlsReactor option" where
  "tls_receive fd rs tr = map_option fst (tls_receive_loop fd tr rs)"

definition driveHandshake ::
  "fd \<Rightarrow> ssl_accept \<Rightarrow> ssl_error read_res list \<Rightarrow> TlsReactor \<Rightarrow> (TlsReactor \<times> bool) option" where
  "driveHandshake fd ret rs tr =
     (case map_of (lr_conns tr) fd of
        None \<Rightarrow> Some (tr, False)
      | Some conn \<Rightarrow>
          (case TlsHandshake_drive ret of
             Done \<Rightarrow>
               (let tr = tr\<lparr>lr_conns := AList.update fd (conn\<lparr>tl_init := True\<rparr>) (lr_conns tr)\<rparr>
                in do { tr \<leftarrow> tls_receive fd rs (tls_updateInterest fd tr); Some (tr, True) })
           | WantRead \<Rightarrow> Some (tr\<lparr>lr_epoll := epoll_mod fd (EPOLLIN OR EPOLLRDHUP) (lr_epoll tr)\<rparr>, True)
           | WantWrite \<Rightarrow>
               Some (tr\<lparr>lr_epoll := epoll_mod fd (EPOLLIN OR EPOLLOUT OR EPOLLRDHUP) (lr_epoll tr)\<rparr>, True)
           | Fail \<Rightarrow> Some (tls_closeConnection fd tr, False)))"

definition onReadable :: "fd \<Rightarrow> ssl_accept \<Rightarrow> ssl_error read_res list \<Rightarrow> TlsReactor \<Rightarrow> TlsReactor option" where
  "onReadable fd ret rs tr =
     (case map_of (lr_conns tr) fd of
        None \<Rightarrow> Some tr
      | Some conn \<Rightarrow>
          if \<not> isHandshakeDone fd tr then map_option fst (driveHandshake fd ret rs tr)
          else tls_receive fd rs tr)"

subsection \<open>Transmitting\<close>

text \<open>
  The inner loop of \<open>flushTx\<close>: \<open>SSL_write\<close> until the packet is out. The last result tells whether
  the outer loop goes on. A script at its end would block.
\<close>

fun tls_write_loop ::
  "fd \<Rightarrow> Packet \<Rightarrow> ssl_error write_res list \<Rightarrow> TlsReactor \<Rightarrow> TlsReactor \<times> ssl_error write_res list \<times> bool" where
  "tls_write_loop fd pkt ss tr =
     (if pk_txOffset pkt < length (pk_payload pkt) then
        (let p = drop (pk_txOffset pkt) (pk_payload pkt);
             blocked = (\<lambda>tr. case map_of (lr_conns tr) fd of
               None \<Rightarrow> tr
             | Some conn \<Rightarrow>
                 tr\<lparr>lr_conns := AList.update fd (conn\<lparr>tl_txQueue := pkt # tl_txQueue conn\<rparr>) (lr_conns tr),
                    lr_epoll := epoll_mod fd (EPOLLIN OR EPOLLOUT OR EPOLLRDHUP) (lr_epoll tr)\<rparr>)
         in case ss of
              [] \<Rightarrow> (blocked tr, [], False)
            | SSent n # ss' \<Rightarrow>
                (let ret = min n (length p) in
                 if ret > 0
                 then tls_write_loop fd (updateTxOffset pkt ret) ss'
                   (tr\<lparr>lr_sent := lr_sent tr @ [(fd, take ret p)],
                       lr_conns := (case map_of (lr_conns tr) fd of None \<Rightarrow> lr_conns tr
                         | Some conn \<Rightarrow> AList.update fd (conn\<lparr>tl_init := True\<rparr>) (lr_conns tr))\<rparr>)
                 else (tls_closeConnection fd tr, ss', False))
            | SErr err # ss' \<Rightarrow>
                (if err = WANT_WRITE \<or> err = WANT_READ then (blocked tr, ss', False)
                 else (tls_closeConnection fd tr, ss', False)))
      else (tr, ss, True))"

declare tls_write_loop.simps [simp del]

fun tls_flush_loop :: "nat \<Rightarrow> fd \<Rightarrow> ssl_error write_res list \<Rightarrow> TlsReactor \<Rightarrow> TlsReactor" where
  "tls_flush_loop 0 fd ss tr = tr"
| "tls_flush_loop (Suc budget) fd ss tr =
     (case map_of (lr_conns tr) fd of
        None \<Rightarrow> tr
      | Some conn \<Rightarrow>
          (case tl_txQueue conn of
             [] \<Rightarrow> tr
           | pkt # q \<Rightarrow>
               (case tls_write_loop fd pkt ss
                   (tr\<lparr>lr_conns := AList.update fd (conn\<lparr>tl_txQueue := q\<rparr>) (lr_conns tr)\<rparr>) of
                  (tr', ss', True) \<Rightarrow> tls_flush_loop budget fd ss' tr'
                | (tr', ss', False) \<Rightarrow> tr')))"

definition flushTx :: "fd \<Rightarrow> nat \<Rightarrow> ssl_error write_res list \<Rightarrow> TlsReactor \<Rightarrow> TlsReactor" where
  "flushTx fd budget ss tr =
     (case map_of (lr_conns tr) fd of None \<Rightarrow> tr | Some conn \<Rightarrow> tls_flush_loop budget fd ss tr)"

definition onWritable ::
  "fd \<Rightarrow> ssl_accept \<Rightarrow> ssl_error read_res list \<Rightarrow> ssl_error write_res list \<Rightarrow> TlsReactor \<Rightarrow> TlsReactor option" where
  "onWritable fd ret rs ss tr =
     (case map_of (lr_conns tr) fd of
        None \<Rightarrow> Some tr
      | Some conn \<Rightarrow>
          if \<not> isHandshakeDone fd tr then map_option fst (driveHandshake fd ret rs tr)
          else Some (tls_updateInterest fd (flushTx fd 256 ss tr)))"

definition tls_queue_packet :: "Packet \<Rightarrow> TlsReactor \<times> fd list \<Rightarrow> TlsReactor \<times> fd list" where
  "tls_queue_packet pkt s =
     (case s of (tr, dirty) \<Rightarrow>
        (case map_of (lr_conns tr) (pk_fd pkt) of
           None \<Rightarrow> (tr, dirty)
         | Some conn \<Rightarrow>
             (tr\<lparr>lr_conns := AList.update (pk_fd pkt) (conn\<lparr>tl_txQueue := tl_txQueue conn @ [pkt]\<rparr>) (lr_conns tr)\<rparr>,
              List.insert (pk_fd pkt) dirty)))"

definition tls_processTxQueue :: "(fd \<Rightarrow> ssl_error write_res list) \<Rightarrow> TlsReactor \<Rightarrow> TlsReactor option" where
  "tls_processTxQueue writes tr =
     do {
       (q, packets) \<leftarrow> mpsc_items (tp_queue (lr_port tr));
       let tr = tr\<lparr>lr_port := (lr_port tr)\<lparr>tp_queue := q\<rparr>\<rparr>;
       if packets = [] then Some tr
       else (case fold tls_queue_packet packets (tr, []) of (tr, dirty) \<Rightarrow>
         Some (fold (\<lambda>fd tr. flushTx fd 256 (writes fd) (tls_updateInterest fd tr)) dirty tr))
     }"

subsection \<open>Handover\<close>

definition tls_handover :: "bool \<Rightarrow> fd \<Rightarrow> sockaddr_in \<times> sockaddr_in \<Rightarrow> TlsReactor \<Rightarrow> TlsReactor" where
  "tls_handover nonBlocking fd connInfo tr =
     (if \<not> nonBlocking then tr\<lparr>lr_closed := lr_closed tr @ [fd]\<rparr>
      else
        (case lq_enqueue (lr_handoverQueue tr) \<lparr>hi_fd = fd, hi_connInfo = connInfo\<rparr> of
           (q, ok) \<Rightarrow>
             if \<not> ok then tr\<lparr>lr_handoverQueue := q, lr_closed := lr_closed tr @ [fd]\<rparr>
             else tr\<lparr>lr_handoverQueue := q, lr_port := (lr_port tr)\<lparr>tp_wakeups := tp_wakeups (lr_port tr) + 1\<rparr>\<rparr>))"

definition TlsServer_handleTlsConnection ::
  "bool \<Rightarrow> fd \<Rightarrow> sockaddr_in \<times> sockaddr_in \<Rightarrow> TlsReactor option \<Rightarrow> TlsReactor option" where
  "TlsServer_handleTlsConnection nonBlocking fd connInfo reactor =
     map_option (tls_handover nonBlocking fd connInfo) reactor"

text \<open>\<open>sslNew fd\<close> tells whether \<open>SSL_new\<close> succeeds for the descriptor.\<close>

definition tls_open :: "(fd \<Rightarrow> bool) \<Rightarrow> TlsHandoverItem \<Rightarrow> TlsReactor \<Rightarrow> TlsReactor" where
  "tls_open sslNew item tr =
     (let fd = hi_fd item in
      if \<not> sslNew fd then tr\<lparr>lr_closed := lr_closed tr @ [fd]\<rparr>
      else tr\<lparr>lr_conns := emplace fd (mk_TlsConnection fd (hi_connInfo item) TLS_MAX_RX_BUFFER_SIZE) (lr_conns tr),
              lr_epoll := epoll_add fd (EPOLLIN OR EPOLLRDHUP) (lr_epoll tr)\<rparr>)"

definition processHandover :: "(fd \<Rightarrow> bool) \<Rightarrow> TlsReactor \<Rightarrow> TlsReactor" where
  "processHandover sslNew tr =
     (case lq_dequeueAll (lr_handoverQueue tr) of
        (q, items) \<Rightarrow> fold (tls_open sslNew) items (tr\<lparr>lr_handoverQueue := q\<rparr>))"

subsection \<open>The event loop\<close>

text \<open>OpenSSL's answers while one event is handled; reading and writing may both drive the handshake.\<close>

record tls_io =
  ti_new :: "fd \<Rightarrow> bool"
  ti_acceptIn :: ssl_accept
  ti_readsIn :: "ssl_error read_res list"
  ti_acceptOut :: ssl_accept
  ti_readsOut :: "ssl_error read_res list"
  ti_writes :: "fd \<Rightarrow> ssl_error write_res list"

definition processWakeup :: "tls_io \<Rightarrow> TlsReactor \<Rightarrow> TlsReactor option" where
  "processWakeup io tr = tls_processTxQueue (ti_writes io) (processHandover (ti_new io) tr)"

definition tls_handleEvent :: "tls_io \<Rightarrow> fd \<Rightarrow> u32 \<Rightarrow> TlsReactor \<Rightarrow> TlsReactor option" where
  "tls_handleEvent io fd ev tr =
     (if fd = lr_wakeupFd tr then processWakeup io (tr\<lparr>lr_port := (lr_port tr)\<lparr>tp_wakeups := 0\<rparr>\<rparr>)
      else if ev AND (EPOLLERR OR EPOLLHUP OR EPOLLRDHUP) \<noteq> 0 then Some (tls_closeConnection fd tr)
      else do {
        tr \<leftarrow> (if ev AND EPOLLIN \<noteq> 0 then onReadable fd (ti_acceptIn io) (ti_readsIn io) tr else Some tr);
        if ev AND EPOLLOUT \<noteq> 0
        then onWritable fd (ti_acceptOut io) (ti_readsOut io) (ti_writes io fd) tr else Some tr
      })"

text \<open>
  What happens to a running reactor: its loop takes an event from epoll, the TCP reactor hands a
  connection over, or a shard queues a packet.
\<close>

datatype tls_op =
    TlsEvent tls_io fd u32
  | TlsHandover bool fd "sockaddr_in \<times> sockaddr_in"
  | TlsTx "Packet option"

fun tls_step :: "tls_op \<Rightarrow> TlsReactor \<Rightarrow> TlsReactor option" where
  "tls_step (TlsEvent io fd ev) tr = tls_handleEvent io fd ev tr"
| "tls_step (TlsHandover nonBlocking fd connInfo) tr = Some (tls_handover nonBlocking fd connInfo tr)"
| "tls_step (TlsTx pkt) tr = do { port \<leftarrow> TlsReactor_enqueueTx (lr_port tr) pkt; Some (tr\<lparr>lr_port := port\<rparr>) }"

definition tls_run :: "tls_op list \<Rightarrow> TlsReactor \<Rightarrow> TlsReactor option" where
  "tls_run ops tr = ofold tls_step ops tr"

definition tls_shutdown :: "TlsReactor \<Rightarrow> TlsReactor" where
  "tls_shutdown tr = tr\<lparr>lr_closed := lr_closed tr @ map fst (lr_conns tr), lr_conns := [], lr_epoll := []\<rparr>"

definition tls_start :: "fd option \<Rightarrow> tls_op list \<Rightarrow> TlsReactor \<Rightarrow> TlsReactor option" where
  "tls_start wakeupFd ops tr =
     (case wakeupFd of
        None \<Rightarrow> Some tr
      | Some w \<Rightarrow>
          map_option tls_shutdown
            (tls_run ops (tr\<lparr>lr_wakeupFd := w, lr_epoll := epoll_add w EPOLLIN (lr_epoll tr)\<rparr>)))"

subsection \<open>TlsWorker\<close>

definition TlsWorker_processPacket ::
  "RxWorker \<Rightarrow> Engine \<times> rand \<Rightarrow> (RxWorker \<times> (Engine \<times> rand)) option" where
  "TlsWorker_processPacket w s =
     (let w = w\<lparr>wk_wakeups := 0\<rparr> in
      map_option (\<lambda>(q, s'). (w\<lparr>wk_queue := q\<rparr>, s')) (drain_loop spsc_dequeue RxRouter_handlePacket (wk_queue w) s))"

end
