(* ===== verification/Simulator.thy ===== *)
theory Simulator
  imports Tls
begin

text \<open>
  \<open>serverd/simulator\<close>: the client the server starts inside itself, with its TCP, TLS and UDP
  connections. The requests it builds are in \<open>Messages\<close>. Answers of the kernel and of OpenSSL are
  arguments; a loop whose script runs out goes on forever, \<open>None\<close>.
\<close>

subsection \<open>TcpClient\<close>

record sock_io =
  si_socket :: fd
  si_pton :: bool
  si_connect :: bool
  si_getfl :: bool
  si_setfl :: bool

record TcpClient =
  tk_port :: u16
  tk_sock :: fd
  tk_closed :: "fd list"

definition mk_TcpClient :: "u16 \<Rightarrow> TcpClient" where
  "mk_TcpClient serverPort = \<lparr>tk_port = serverPort, tk_sock = - 1, tk_closed = []\<rparr>"

definition TcpClient_stop :: "TcpClient \<Rightarrow> TcpClient" where
  "TcpClient_stop c = (if tk_sock c < 0 then c else c\<lparr>tk_closed := tk_closed c @ [tk_sock c], tk_sock := - 1\<rparr>)"

definition TcpClient_connectServer :: "sock_io \<Rightarrow> bool" where
  "TcpClient_connectServer io = (if \<not> si_pton io then False else if \<not> si_connect io then False else True)"

definition TcpClient_connect :: "sock_io \<Rightarrow> TcpClient \<Rightarrow> TcpClient \<times> bool" where
  "TcpClient_connect io c =
     (if tk_sock c \<ge> 0 then (c, True)
      else let c = c\<lparr>tk_sock := si_socket io\<rparr> in
        if \<not> tk_sock c \<ge> 0 then (c, False)
        else if \<not> TcpClient_connectServer io then (TcpClient_stop c, False)
        else if \<not> si_getfl io then (c, False)
        else if \<not> si_setfl io then (c, False)
        else (c, True))"

text \<open>A short write counts as success.\<close>

definition TcpClient_send :: "send_res \<Rightarrow> bool" where
  "TcpClient_send w = (case w of SSent n \<Rightarrow> n > 0 | SErr e \<Rightarrow> False)"

text \<open>No data yet and the end of the stream both give 0.\<close>

definition TcpClient_recv :: "nat \<Rightarrow> recv_res \<Rightarrow> int \<times> bytes" where
  "TcpClient_recv len r =
     (case r of RBytes bs \<Rightarrow> (int (length (take len bs)), take len bs) | RErr e \<Rightarrow> if e = EAGAIN then (0, []) else (- 1, []))"

subsection \<open>TlsClient\<close>

record tls_client_io =
  tci_sock :: sock_io
  tci_ctx :: bool
  tci_ssl :: bool
  tci_fd :: bool
  tci_connect :: "ssl_error option list"

record TlsClient =
  tlk_tcp :: TcpClient
  tlk_ctx :: bool
  tlk_ssl :: bool

definition mk_TlsClient :: "u16 \<Rightarrow> TlsClient" where
  "mk_TlsClient port = \<lparr>tlk_tcp = mk_TcpClient port, tlk_ctx = False, tlk_ssl = False\<rparr>"

definition TlsClient_stop :: "TlsClient \<Rightarrow> TlsClient" where
  "TlsClient_stop c =
     (if \<not> tlk_ssl c \<and> \<not> tlk_ctx c then c
      else c\<lparr>tlk_ssl := False, tlk_ctx := False, tlk_tcp := TcpClient_stop (tlk_tcp c)\<rparr>)"

definition initSsl :: "tls_client_io \<Rightarrow> TlsClient \<Rightarrow> TlsClient \<times> bool" where
  "initSsl io c =
     (let c = c\<lparr>tlk_ctx := tci_ctx io\<rparr> in
      if \<not> tlk_ctx c then (c, False)
      else let c = c\<lparr>tlk_ssl := tci_ssl io\<rparr> in
        if \<not> tlk_ssl c then (c, False) else (c, tci_fd io))"

text \<open>The loop around \<open>SSL_connect\<close>; \<open>None\<close> in the script is the result 1.\<close>

fun ssl_connect_loop :: "ssl_error option list \<Rightarrow> TlsClient \<Rightarrow> (TlsClient \<times> bool) option" where
  "ssl_connect_loop [] c = None"
| "ssl_connect_loop (None # rs) c = Some (c, True)"
| "ssl_connect_loop (Some e # rs) c =
     (if e = WANT_READ \<or> e = WANT_WRITE then ssl_connect_loop rs c else Some (TlsClient_stop c, False))"

definition TlsClient_connect :: "tls_client_io \<Rightarrow> TlsClient \<Rightarrow> (TlsClient \<times> bool) option" where
  "TlsClient_connect io c =
     (let (tcp, ok) = TcpClient_connect (tci_sock io) (tlk_tcp c); c = c\<lparr>tlk_tcp := tcp\<rparr> in
      if \<not> ok then Some (c, False)
      else let (c, ok) = initSsl io c in
        if \<not> ok then Some (TlsClient_stop c, False) else ssl_connect_loop (tci_connect io) c)"

definition TlsClient_send :: "ssl_error write_res \<Rightarrow> bool" where
  "TlsClient_send w = (case w of SSent n \<Rightarrow> n > 0 | SErr e \<Rightarrow> False)"

definition TlsClient_recv :: "nat \<Rightarrow> ssl_error read_res \<Rightarrow> int \<times> bytes" where
  "TlsClient_recv len r =
     (case r of
        RBytes bs \<Rightarrow> if take len bs = [] then (- 1, []) else (int (length (take len bs)), take len bs)
      | RErr e \<Rightarrow> if e = WANT_READ then (0, []) else (- 1, []))"

subsection \<open>UdpClient\<close>

record UdpClient =
  uk_port :: u16
  uk_sock :: fd
  uk_closed :: "fd list"

definition mk_UdpClient :: "u16 \<Rightarrow> UdpClient" where
  "mk_UdpClient serverPort = \<lparr>uk_port = serverPort, uk_sock = - 1, uk_closed = []\<rparr>"

definition UdpClient_stop :: "UdpClient \<Rightarrow> UdpClient" where
  "UdpClient_stop c = (if uk_sock c < 0 then c else c\<lparr>uk_closed := uk_closed c @ [uk_sock c], uk_sock := - 1\<rparr>)"

definition UdpClient_open :: "sock_io \<Rightarrow> UdpClient \<Rightarrow> UdpClient \<times> bool" where
  "UdpClient_open io c =
     (if uk_sock c \<ge> 0 then (c, True)
      else let c = c\<lparr>uk_sock := si_socket io\<rparr> in
        if \<not> uk_sock c \<ge> 0 then (c, False)
        else if \<not> si_pton io then (UdpClient_stop c, False)
        else if \<not> si_getfl io \<or> \<not> si_setfl io then (UdpClient_stop c, False)
        else (c, True))"

definition UdpClient_send :: "send_res \<Rightarrow> bool" where
  "UdpClient_send w = (case w of SSent n \<Rightarrow> True | SErr e \<Rightarrow> False)"

text \<open>\<open>poll\<close> tells whether the wait ended with a datagram.\<close>

definition UdpClient_recv :: "nat \<Rightarrow> bool \<Rightarrow> recv_res \<Rightarrow> int \<times> bytes" where
  "UdpClient_recv len poll r =
     (if \<not> poll then (0, [])
      else case r of RBytes bs \<Rightarrow> (int (length (take len bs)), take len bs) | RErr e \<Rightarrow> if e = EAGAIN then (0, []) else (- 1, []))"

subsection \<open>Client\<close>

text \<open>
  Times are nanoseconds of the steady clock. \<open>cl_pings\<close> are the measurements it logged: sequence
  number, round trip, server minus client time. \<open>cl_sessionId\<close> starts with whatever the memory held.
\<close>

record Client =
  cl_tls :: TlsClient
  cl_tcp :: TcpClient
  cl_udp :: UdpClient
  cl_running :: bool
  cl_sessionId :: u64
  cl_lastPingTs :: nat
  cl_pingSeq :: u64
  cl_pings :: "(u64 \<times> u64 \<times> u64) list"

definition mk_Client :: "u16 \<Rightarrow> u16 \<Rightarrow> u64 \<Rightarrow> Client" where
  "mk_Client udpServerPort tcpServerPort garbage =
     \<lparr>cl_tls = mk_TlsClient tcpServerPort, cl_tcp = mk_TcpClient tcpServerPort, cl_udp = mk_UdpClient udpServerPort,
      cl_running = False, cl_sessionId = garbage, cl_lastPingTs = 0, cl_pingSeq = 0, cl_pings = []\<rparr>"

text \<open>The loop that waits for data: bytes, \<open>Some None\<close> for an error, \<open>None\<close> when it never ends.\<close>

fun recv_wait :: "(int \<times> bytes) list \<Rightarrow> bytes option option" where
  "recv_wait [] = None"
| "recv_wait ((n, bs) # rs) = (if n > 0 then Some (Some bs) else if n < 0 then Some None else recv_wait rs)"

text \<open>\<open>stack\<close> is what the 1024 bytes of the buffer held before the call.\<close>

definition read_session :: "bytes \<Rightarrow> bytes \<Rightarrow> u64" where
  "read_session stack bs = be64toh (of_mem (take 8 (drop 4 (blit stack 0 bs))))"

definition loginPhase :: "ssl_error write_res \<Rightarrow> ssl_error read_res list \<Rightarrow> bytes \<Rightarrow> Client \<Rightarrow> Client option" where
  "loginPhase w rs stack c =
     do {
       pkt \<leftarrow> Client_buildLoginReq;
       if \<not> TlsClient_send w then Some c
       else do {
         r \<leftarrow> recv_wait (map (TlsClient_recv 1024) rs);
         Some (case r of None \<Rightarrow> c | Some bs \<Rightarrow> c\<lparr>cl_sessionId := read_session stack bs\<rparr>)
       }
     }"

definition lobbyPhase :: "send_res \<Rightarrow> recv_res list \<Rightarrow> Client \<Rightarrow> Client option" where
  "lobbyPhase w rs c =
     do {
       pkt \<leftarrow> Client_buildLobbyEntryReq (cl_sessionId c);
       if \<not> TcpClient_send w then Some c
       else do {
         r \<leftarrow> recv_wait (map (TcpClient_recv 1024) rs);
         Some c
       }
     }"

record ping_io =
  pg_now :: nat
  pg_send :: send_res
  pg_ts :: u64
  pg_poll :: bool
  pg_recv :: recv_res
  pg_nowNs :: u64

definition pingPhase :: "ping_io \<Rightarrow> Client \<Rightarrow> Client option" where
  "pingPhase io c =
     (if pg_now io - cl_lastPingTs c < 5000000000 then Some c
      else let c = c\<lparr>cl_lastPingTs := pg_now io\<rparr> in
        do {
          (pkt, seq) \<leftarrow> Client_buildPingReq (cl_sessionId c) (cl_pingSeq c) (pg_ts io);
          let c = c\<lparr>cl_pingSeq := seq\<rparr>;
          if \<not> UdpClient_send (pg_send io) then Some c
          else let (received, buf) = UdpClient_recv 1024 (pg_poll io) (pg_recv io) in
            if received < 40 then Some c
            else let body = drop 16 buf;
                     nonce = be64toh (of_mem (take 8 body)) :: u64;
                     clientTs = be64toh (of_mem (take 8 (drop 8 body))) :: u64;
                     serverTs = be64toh (of_mem (take 8 (drop 16 body))) :: u64
                 in if pg_nowNs io < clientTs then Some c
                    else Some (c\<lparr>cl_pings := cl_pings c @ [(nonce, pg_nowNs io - clientTs, serverTs - clientTs)]\<rparr>)
        })"

definition Client_stop :: "Client \<Rightarrow> Client" where
  "Client_stop c = c\<lparr>cl_running := False, cl_tls := TlsClient_stop (cl_tls c), cl_tcp := TcpClient_stop (cl_tcp c),
     cl_udp := UdpClient_stop (cl_udp c)\<rparr>"

text \<open>A round of the main loop, and what the world answers during it.\<close>

record round_io =
  ro_ping :: ping_io
  ro_lobbySend :: send_res
  ro_lobbyRecvs :: "recv_res list"

fun client_rounds :: "round_io list \<Rightarrow> Client \<Rightarrow> Client option" where
  "client_rounds [] c = Some c"
| "client_rounds (io # ios) c =
     (if \<not> cl_running c then Some c
      else do {
        c \<leftarrow> pingPhase (ro_ping io) c;
        c \<leftarrow> lobbyPhase (ro_lobbySend io) (ro_lobbyRecvs io) c;
        client_rounds ios c
      })"

record client_start_io =
  cs_tls :: tls_client_io
  cs_tcp :: sock_io
  cs_udp :: sock_io
  cs_loginSend :: "ssl_error write_res"
  cs_loginRecvs :: "ssl_error read_res list"
  cs_stack :: bytes
  cs_rounds :: "round_io list"

definition Client_start :: "client_start_io \<Rightarrow> Client \<Rightarrow> Client option" where
  "Client_start io c =
     do {
       (tls, ok) \<leftarrow> TlsClient_connect (cs_tls io) (cl_tls c);
       let c = c\<lparr>cl_tls := tls\<rparr>;
       if \<not> ok then Some c
       else let (tcp, ok) = TcpClient_connect (cs_tcp io) (cl_tcp c); c = c\<lparr>cl_tcp := tcp\<rparr> in
         if \<not> ok then Some c
         else let (udp, ok) = UdpClient_open (cs_udp io) (cl_udp c); c = c\<lparr>cl_udp := udp\<rparr> in
           if \<not> ok then Some c
           else do {
             c \<leftarrow> loginPhase (cs_loginSend io) (cs_loginRecvs io) (cs_stack io) c;
             client_rounds (cs_rounds io) (c\<lparr>cl_running := True\<rparr>)
           }
     }"

subsection \<open>What the phases achieve\<close>

text \<open>The first bytes of the server's reply, if they reach past the session id, tell the client its session.\<close>

lemma loginPhase_session:
  assumes "TlsClient_send w" "rs = replicate k (RErr WANT_READ) @ RBytes (wire_packet ver op sid flags body) # rs'"
    and "length (wire_packet ver op sid flags body) \<le> 1024" "length stack = 1024"
  shows "loginPhase w rs stack c = Some (c\<lparr>cl_sessionId := sid\<rparr>)"
proof -
  let ?p = "wire_packet ver op sid flags body"
  have r: "TlsClient_recv 1024 (RErr WANT_READ) = (0, [])" "TlsClient_recv 1024 (RBytes ?p) = (int (length ?p), ?p)"
    using assms(3) by (auto simp: TlsClient_recv_def wire_packet_def wire_header_def)
  have "0 < length ?p" by simp
  then have w: "recv_wait (map (TlsClient_recv 1024) rs) = Some (Some ?p)"
    unfolding assms(2) using r by (induction k) (simp_all del: length_wire_packet)
  have "take 8 (drop 4 (blit stack 0 ?p)) = take 8 (drop 4 ?p)"
    using assms(3,4) by (simp add: blit_def)
  then have "read_session stack ?p = sid" by (simp add: read_session_def wire_packet_fields mem_simps)
  then show ?thesis using assms(1) w by (simp add: loginPhase_def Client_buildLoginReq_eq)
qed

text \<open>A reply to a ping is measured against the time the client put into it.\<close>

lemma pingPhase_measures:
  assumes "5000000000 \<le> pg_now io - cl_lastPingTs c" "UdpClient_send (pg_send io)" "pg_poll io"
    and "pg_recv io = RBytes (wire_packet ver op sid flags (pong_body nonce ts serverTs))" "ts \<le> pg_nowNs io"
  shows "\<exists>c'. pingPhase io c = Some c' \<and> cl_pingSeq c' = cl_pingSeq c + 1 \<and> cl_sessionId c' = cl_sessionId c \<and>
    cl_pings c' = cl_pings c @ [(nonce, pg_nowNs io - ts, serverTs - ts)]"
proof -
  let ?p = "wire_packet ver op sid flags (pong_body nonce ts serverTs)"
  have r: "UdpClient_recv 1024 True (RBytes ?p) = (40, ?p)" by (simp add: UdpClient_recv_def pong_body_def ping_body_def)
  have b: "take 8 (drop 16 ?p) = be_bytes 8 nonce" "take 8 (drop 24 ?p) = be_bytes 8 ts" "take 8 (drop 32 ?p) = be_bytes 8 serverTs"
    by (simp_all add: wire_packet_def wire_header_def pong_body_def ping_body_def)
  have "\<not> pg_nowNs io < ts" "\<not> pg_now io - cl_lastPingTs c < 5000000000" using assms(1,5) by auto
  then show ?thesis using assms(2,3,4)
    by (simp add: pingPhase_def Client_buildPingReq_eq r b mem_simps Let_def)
qed

text \<open>A stopped client has closed every socket it holds, unless the TLS context was never created.\<close>

lemma Client_stop_closes:
  "tk_sock (cl_tcp (Client_stop c)) < 0 \<and> uk_sock (cl_udp (Client_stop c)) < 0 \<and>
    (tlk_ctx (cl_tls c) \<longrightarrow> tk_sock (tlk_tcp (cl_tls (Client_stop c))) < 0)"
  by (auto simp: Client_stop_def TcpClient_stop_def UdpClient_stop_def TlsClient_stop_def)

text \<open>When the first SSL call fails, the TCP socket underneath stays open after the failed connect.\<close>

lemma TlsClient_connect_leaks:
  assumes "tk_sock (tlk_tcp c) < 0" "0 \<le> si_socket (tci_sock io)" "si_pton (tci_sock io)" "si_connect (tci_sock io)"
    "si_getfl (tci_sock io)" "si_setfl (tci_sock io)" "\<not> tci_ctx io" "\<not> tlk_ssl c"
  shows "\<exists>c'. TlsClient_connect io c = Some (c', False) \<and> tk_sock (tlk_tcp (TlsClient_stop c')) = si_socket (tci_sock io)"
  using assms
  by (simp add: TlsClient_connect_def TcpClient_connect_def TcpClient_connectServer_def initSsl_def TlsClient_stop_def)

end
