(* ===== verification/TcpProps.thy ===== *)
theory TcpProps
  imports Tcp
begin

text \<open>
  Properties of the TCP server: its event loop never fails, output that is waiting is always
  registered with epoll, bytes leave a connection in the order in which they were queued, frames
  reach the engine however the stream is cut, and a frame that does not fit the receive ring ends
  the connection.
\<close>

subsection \<open>Transmitting\<close>

definition tx_out :: "TcpReactor \<Rightarrow> fd \<Rightarrow> bytes option" where
  "tx_out tr fd = map_option (\<lambda>c. rb_contents (tc_txRing c)) (map_of (tr_conns tr) fd)"

definition sent_on :: "TcpReactor \<Rightarrow> fd \<Rightarrow> bytes" where
  "sent_on tr fd = concat (map snd (filter (\<lambda>(g, bs). g = fd) (tr_sent tr)))"

definition tcp_interest :: "bytes \<Rightarrow> u32" where
  "tcp_interest out =
     (if out = [] then EPOLLIN OR EPOLLRDHUP else EPOLLIN OR EPOLLOUT OR EPOLLRDHUP)"

definition own_fds :: "TcpReactor \<Rightarrow> fd list" where
  "own_fds tr = [tr_listenFd tr, tr_wakeupFd tr]"

lemma own_fds_close [simp]: "own_fds (tcp_closeConnection fd tr) = own_fds tr"
  by (simp add: own_fds_def tcp_closeConnection_def)

definition tx_moved :: "TcpReactor \<Rightarrow> TcpReactor \<Rightarrow> bool" where
  "tx_moved tr tr' \<longleftrightarrow> own_fds tr' = own_fds tr \<and>
     bytes_moved (tx_out tr) (sent_on tr) (tx_out tr') (sent_on tr')"

lemma tx_moved_refl: "tx_moved tr tr"
  by (simp add: tx_moved_def bytes_moved_refl)

lemma tx_moved_trans: "tx_moved s t \<Longrightarrow> tx_moved t u \<Longrightarrow> tx_moved s u"
  by (auto simp: tx_moved_def intro: bytes_moved_trans)

text \<open>\<open>tx_only fd\<close>: a handler that sends on \<open>fd\<close>.\<close>

definition tx_only :: "fd \<Rightarrow> TcpReactor \<Rightarrow> TcpReactor \<Rightarrow> bool" where
  "tx_only fd tr tr' \<longleftrightarrow>
     (\<forall>g. g \<noteq> fd \<longrightarrow> tx_out tr' g = tx_out tr g \<and> sent_on tr' g = sent_on tr g \<and>
        map_of (tr_epoll tr') g = map_of (tr_epoll tr) g) \<and>
     tr_listenFd tr' = tr_listenFd tr \<and> tr_wakeupFd tr' = tr_wakeupFd tr \<and> tr_port tr' = tr_port tr"

lemma tx_only_refl [simp]: "tx_only fd tr tr"
  by (simp add: tx_only_def)

lemma tx_only_trans: "tx_only fd s t \<Longrightarrow> tx_only fd t u \<Longrightarrow> tx_only fd s u"
  by (simp add: tx_only_def)

lemma tx_close:
  "tx_out (tcp_closeConnection fd tr) = (tx_out tr)(fd := None)"
  "sent_on (tcp_closeConnection fd tr) = sent_on tr"
  "map_of (tr_epoll (tcp_closeConnection fd tr)) = (map_of (tr_epoll tr))(fd := None)"
  by (simp_all add: tcp_closeConnection_def tx_out_def sent_on_def epoll_del_def fun_eq_iff)

lemma tx_only_close: "tx_only fd tr (tcp_closeConnection fd tr)"
  by (simp add: tx_only_def tx_close) (simp add: tcp_closeConnection_def)

lemma map_of_epoll_mod:
  "map_of (epoll_mod fd ev m) = (if map_of m fd = None then map_of m else (map_of m)(fd \<mapsto> ev))"
  by (simp add: epoll_mod_def)

lemma tx_mod:
  "tx_out (tr\<lparr>tr_epoll := e\<rparr>) = tx_out tr" "sent_on (tr\<lparr>tr_epoll := e\<rparr>) = sent_on tr"
  by (simp_all add: tx_out_def sent_on_def fun_eq_iff)

text \<open>
  What a flush of \<open>fd\<close> does: bytes move from the ring to the socket in order; afterwards the
  connection is registered for what is left in its ring, or closed.
\<close>

definition tx_flushed :: "fd \<Rightarrow> TcpReactor \<Rightarrow> TcpReactor \<Rightarrow> bool" where
  "tx_flushed fd tr tr' \<longleftrightarrow> tx_only fd tr tr' \<and>
     (case tx_out tr' fd of
        None \<Rightarrow> map_of (tr_epoll tr') fd = None \<and>
          prefix (sent_on tr' fd) (sent_on tr fd @ the (tx_out tr fd))
      | Some out \<Rightarrow> sent_on tr' fd @ out = sent_on tr fd @ the (tx_out tr fd) \<and>
          (map_of (tr_epoll tr) fd \<noteq> None \<longrightarrow> map_of (tr_epoll tr') fd = Some (tcp_interest out)))"

lemma tx_flushed_moved:
  assumes "tx_flushed fd tr tr'" "tx_out tr fd \<noteq> None"
  shows "tx_moved tr tr'"
proof -
  from assms(2) obtain out where out: "tx_out tr fd = Some out" by blast
  have "bytes_moved (tx_out tr) (sent_on tr) (tx_out tr') (sent_on tr')"
    by (rule bytes_moved_at[of fd _ "tx_out tr" _ _ out])
      (use assms(1) out in \<open>auto simp: tx_flushed_def tx_only_def split: option.splits\<close>)
  with assms(1) show ?thesis by (simp add: tx_moved_def tx_flushed_def tx_only_def own_fds_def)
qed

lemma tx_flushed_close: "tx_out tr fd = Some out \<Longrightarrow> tx_flushed fd tr (tcp_closeConnection fd tr)"
  by (simp add: tx_flushed_def tx_only_close) (simp add: tx_close)

lemma tx_flushed_mod:
  "tx_out tr fd = Some out \<Longrightarrow> ev = tcp_interest out \<Longrightarrow>
    tx_flushed fd tr (tr\<lparr>tr_epoll := epoll_mod fd ev (tr_epoll tr)\<rparr>)"
  by (simp add: tx_flushed_def tx_only_def tx_mod map_of_epoll_mod)

text \<open>One call of \<open>send\<close> that takes \<open>n\<close> bytes.\<close>

definition after_send :: "fd \<Rightarrow> TcpConnection \<Rightarrow> bytes \<Rightarrow> TcpReactor \<Rightarrow> TcpReactor" where
  "after_send fd conn bs tr = tr\<lparr>tr_sent := tr_sent tr @ [(fd, bs)],
     tr_conns := AList.update fd conn (tr_conns tr)\<rparr>"

lemma tx_after_send:
  "tx_out (after_send fd conn bs tr) = (tx_out tr)(fd \<mapsto> rb_contents (tc_txRing conn))"
  "sent_on (after_send fd conn bs tr) = (sent_on tr)(fd := sent_on tr fd @ bs)"
  "tr_epoll (after_send fd conn bs tr) = tr_epoll tr"
  "map_of (tr_conns (after_send fd conn bs tr)) = (map_of (tr_conns tr))(fd \<mapsto> conn)"
  by (simp_all add: after_send_def tx_out_def sent_on_def fun_eq_iff)

lemma tx_flushed_send:
  assumes "tx_flushed fd (after_send fd conn bs tr) tr'"
    "tx_out tr fd = Some (bs @ rb_contents (tc_txRing conn))"
  shows "tx_flushed fd tr tr'"
  using assms by (auto simp: tx_flushed_def tx_only_def tx_after_send split: option.splits)
    (simp_all add: after_send_def)

lemma tcp_wf_after_send:
  assumes "tcp_wf tr" "conn_wf fd conn"
  shows "tcp_wf (after_send fd conn bs tr)"
  using tcp_wf_update[OF assms] by (simp add: after_send_def tcp_wf_def)

lemma tcp_wf_mod: "tcp_wf tr \<Longrightarrow> tcp_wf (tr\<lparr>tr_epoll := e\<rparr>)"
  by (simp add: tcp_wf_def)

abbreviation tcp_mod :: "fd \<Rightarrow> u32 \<Rightarrow> TcpReactor \<Rightarrow> TcpReactor" where
  "tcp_mod fd ev tr \<equiv> tr\<lparr>tr_epoll := epoll_mod fd ev (tr_epoll tr)\<rparr>"

text \<open>The branches of the flush loop.\<close>

lemma tcp_flush_empty:
  "m_size (tc_txRing conn) = 0 \<Longrightarrow>
    tcp_flush_loop fd conn ss tr = Some (tcp_mod fd (EPOLLIN OR EPOLLRDHUP) tr)"
  by (simp add: tcp_flush_loop.simps[of _ _ ss] rb_readable_def)

lemma tcp_flush_err:
  assumes "rb_wf (tc_txRing conn)" "0 < m_size (tc_txRing conn)"
  shows "tcp_flush_loop fd conn [] tr = Some (tcp_mod fd (EPOLLIN OR EPOLLOUT OR EPOLLRDHUP) tr)"
    "tcp_flush_loop fd conn (SErr e # ss) tr =
      Some (if e = EAGAIN then tcp_mod fd (EPOLLIN OR EPOLLOUT OR EPOLLRDHUP) tr
        else tcp_closeConnection fd tr)"
proof -
  obtain n where "rb_load (tc_txRing conn) (rb_readLen (tc_txRing conn)) =
      Some (take n (rb_contents (tc_txRing conn)))" using ring_send[OF assms, of 0] by metis
  with assms(2) show "tcp_flush_loop fd conn [] tr = Some (tcp_mod fd (EPOLLIN OR EPOLLOUT OR EPOLLRDHUP) tr)"
    "tcp_flush_loop fd conn (SErr e # ss) tr =
      Some (if e = EAGAIN then tcp_mod fd (EPOLLIN OR EPOLLOUT OR EPOLLRDHUP) tr
        else tcp_closeConnection fd tr)"
    by (simp_all add: tcp_flush_loop.simps[of _ _ "[]"] tcp_flush_loop.simps[of _ _ "SErr e # ss"]
        rb_readable_def)
qed

lemma tcp_flush_sent:
  assumes "tcp_wf tr" "map_of (tr_conns tr) fd = Some conn" "0 < m_size (tc_txRing conn)"
  obtains conn' bs where "tcp_wf (after_send fd conn' bs tr)"
    "rb_contents (tc_txRing conn) = bs @ rb_contents (tc_txRing conn')"
    "tcp_flush_loop fd conn (SSent k # ss) tr = tcp_flush_loop fd conn' ss (after_send fd conn' bs tr) \<or>
     rb_contents (tc_txRing conn') \<noteq> [] \<and> tcp_flush_loop fd conn (SSent k # ss) tr =
       Some (tcp_mod fd (EPOLLIN OR EPOLLOUT OR EPOLLRDHUP) (after_send fd conn' bs tr))"
proof -
  let ?tx = "tc_txRing conn"
  have c: "conn_wf fd conn" by (rule tcp_wf_conn[OF assms(1,2)])
  then have wf: "rb_wf ?tx" by (simp add: conn_wf_def)
  obtain n tx' where s: "rb_load ?tx (rb_readLen ?tx) = Some (take n (rb_contents ?tx))"
    "n \<le> m_size ?tx" "rb_consume ?tx (min k n) = Some tx'" "rb_wf tx'" "rb_cap tx' = rb_cap ?tx"
    "rb_contents tx' = drop (min k n) (rb_contents ?tx)" using ring_send[OF wf assms(3), of k] by metis
  define conn' where "conn' = conn\<lparr>tc_txRing := tx'\<rparr>"
  define tr1 where "tr1 = after_send fd conn' (take (min k n) (rb_contents ?tx)) tr"
  have wf1: "tcp_wf tr1" unfolding tr1_def
    by (rule tcp_wf_after_send[OF assms(1)]) (use c s(4,5) in \<open>simp add: conn_wf_def conn'_def\<close>)
  have len: "length (take n (rb_contents ?tx)) = n"
    and t: "take (min k n) (take n (rb_contents ?tx)) = take (min k n) (rb_contents ?tx)"
    using s(2) by simp_all
  have "tcp_flush_loop fd conn (SSent k # ss) tr =
      (if min k n < n then Some (tcp_mod fd (EPOLLIN OR EPOLLOUT OR EPOLLRDHUP) tr1)
       else tcp_flush_loop fd conn' ss tr1)"
    using assms(3) s(1,3)
    by (simp add: tcp_flush_loop.simps[of _ _ "SSent k # ss"] rb_readable_def Let_def tr1_def conn'_def
        after_send_def len t del: length_take)
  moreover have "min k n < n \<Longrightarrow> rb_contents (tc_txRing conn') \<noteq> []"
    using s(2,6) by (simp add: conn'_def)
  ultimately show ?thesis
    using that[of conn' "take (min k n) (rb_contents ?tx)"] wf1 s(6)
    by (simp add: tr1_def conn'_def split: if_splits)
qed

lemma tcp_flush_loop_spec:
  assumes "tcp_wf tr" "map_of (tr_conns tr) fd = Some conn"
  shows "\<exists>tr'. tcp_flush_loop fd conn ss tr = Some tr' \<and> tcp_wf tr' \<and> tx_flushed fd tr tr'"
  using assms
proof (induction ss arbitrary: conn tr)
  case Nil
  have out: "tx_out tr fd = Some (rb_contents (tc_txRing conn))" using Nil.prems(2) by (simp add: tx_out_def)
  have "rb_wf (tc_txRing conn)" using tcp_wf_conn[OF Nil.prems] by (simp add: conn_wf_def)
  with out Nil.prems(1) show ?case
    by (cases "m_size (tc_txRing conn) = 0")
      (simp_all add: tcp_flush_empty tcp_flush_err tcp_wf_mod tx_flushed_mod tcp_interest_def)
next
  case (Cons a ss)
  have out: "tx_out tr fd = Some (rb_contents (tc_txRing conn))" using Cons.prems(2) by (simp add: tx_out_def)
  have wf: "rb_wf (tc_txRing conn)" using tcp_wf_conn[OF Cons.prems] by (simp add: conn_wf_def)
  show ?case
  proof (cases "m_size (tc_txRing conn) = 0")
    case True
    then show ?thesis using Cons.prems(1) out
      by (simp add: tcp_flush_empty tcp_wf_mod tx_flushed_mod tcp_interest_def)
  next
    case False
    then have pos: "0 < m_size (tc_txRing conn)" by simp
    show ?thesis
    proof (cases a)
      case (SErr e)
      then show ?thesis using Cons.prems(1) out pos wf
        by (simp add: tcp_flush_err tcp_wf_mod tx_flushed_mod tcp_interest_def tcp_wf_close tx_flushed_close)
    next
      case (SSent k)
      obtain conn' bs where s: "tcp_wf (after_send fd conn' bs tr)"
        "rb_contents (tc_txRing conn) = bs @ rb_contents (tc_txRing conn')"
        "tcp_flush_loop fd conn (a # ss) tr = tcp_flush_loop fd conn' ss (after_send fd conn' bs tr) \<or>
         rb_contents (tc_txRing conn') \<noteq> [] \<and> tcp_flush_loop fd conn (a # ss) tr =
           Some (tcp_mod fd (EPOLLIN OR EPOLLOUT OR EPOLLRDHUP) (after_send fd conn' bs tr))"
        using tcp_flush_sent[OF Cons.prems pos, of k ss] unfolding SSent by metis
      have m: "map_of (tr_conns (after_send fd conn' bs tr)) fd = Some conn'"
        "tx_out (after_send fd conn' bs tr) fd = Some (rb_contents (tc_txRing conn'))"
        by (simp_all add: tx_after_send)
      have "\<exists>tr'. tcp_flush_loop fd conn (a # ss) tr = Some tr' \<and> tcp_wf tr' \<and>
          tx_flushed fd (after_send fd conn' bs tr) tr'"
        using s(3)
      proof
        assume "tcp_flush_loop fd conn (a # ss) tr = tcp_flush_loop fd conn' ss (after_send fd conn' bs tr)"
        with Cons.IH[OF s(1) m(1)] show ?thesis by simp
      next
        assume "rb_contents (tc_txRing conn') \<noteq> [] \<and> tcp_flush_loop fd conn (a # ss) tr =
           Some (tcp_mod fd (EPOLLIN OR EPOLLOUT OR EPOLLRDHUP) (after_send fd conn' bs tr))"
        with tcp_wf_mod[OF s(1)] tx_flushed_mod[OF m(2) refl] show ?thesis
          by (simp add: tcp_interest_def)
      qed
      then show ?thesis using tx_flushed_send[of fd conn' bs tr] out s(2) by metis
    qed
  qed
qed

lemma tcp_flush_spec:
  assumes "tcp_wf tr"
  obtains "tcp_flushTxBuffer fd ss tr = Some tr" "tx_out tr fd = None \<or> tx_out tr fd = Some []"
  | tr' where "tcp_flushTxBuffer fd ss tr = Some tr'" "tcp_wf tr'" "tx_flushed fd tr tr'"
      "tx_out tr fd \<noteq> None"
proof (cases "map_of (tr_conns tr) fd")
  case None
  then show ?thesis using that(1) by (simp add: tcp_flushTxBuffer_def tx_out_def)
next
  case (Some conn)
  show ?thesis
  proof (cases "rb_readable (tc_txRing conn) = 0")
    case True
    with Some show ?thesis using that(1) by (simp add: tcp_flushTxBuffer_def tx_out_def rb_readable_def)
  next
    case False
    with tcp_flush_loop_spec[OF assms Some, of ss] Some show ?thesis
      using that(2) by (auto simp: tcp_flushTxBuffer_def tx_out_def)
  qed
qed

text \<open>
  The transmit ring takes a payload whole or not at all; \<open>tx_accept\<close> is what it holds after a list
  of payloads.
\<close>

fun tx_accept :: "nat \<Rightarrow> bytes \<Rightarrow> bytes list \<Rightarrow> bytes" where
  "tx_accept cap out [] = out"
| "tx_accept cap out (p # ps) = tx_accept cap (if length out + length p \<le> cap then out @ p else out) ps"

definition payloads_for :: "fd \<Rightarrow> Packet list \<Rightarrow> bytes list" where
  "payloads_for fd ps = map pk_payload (filter (\<lambda>p. pk_fd p = fd) ps)"

lemma tx_accept_fits: "length out + length (concat ps) \<le> cap \<Longrightarrow> tx_accept cap out ps = out @ concat ps"
  by (induction ps arbitrary: out) auto

lemma tx_accept_empty: "tx_accept cap out ps = [] \<Longrightarrow> out = []"
  by (induction ps arbitrary: out) (auto split: if_splits)

lemma tcp_buffer_spec:
  assumes "tcp_wf tr"
  shows "\<exists>m d'. tcp_buffer_packet pkt (tr, d) = Some (tr\<lparr>tr_conns := m\<rparr>, d') \<and>
    tcp_wf (tr\<lparr>tr_conns := m\<rparr>) \<and> set d \<subseteq> set d' \<and>
    (\<forall>g. tx_out (tr\<lparr>tr_conns := m\<rparr>) g =
      map_option (\<lambda>out. tx_accept TCP_MAX_TX_BUFFER_SIZE out (payloads_for g [pkt])) (tx_out tr g)) \<and>
    (\<forall>g. g \<notin> set d' \<longrightarrow> tx_out (tr\<lparr>tr_conns := m\<rparr>) g = tx_out tr g)"
proof (cases "map_of (tr_conns tr) (pk_fd pkt)")
  case None
  then have "tx_out tr g = map_option (\<lambda>out. tx_accept TCP_MAX_TX_BUFFER_SIZE out (payloads_for g [pkt])) (tx_out tr g)"
    for g by (cases "g = pk_fd pkt") (simp_all add: tx_out_def payloads_for_def option.map_comp comp_def)
  moreover have "tcp_buffer_packet pkt (tr, d) = Some (tr\<lparr>tr_conns := tr_conns tr\<rparr>, d)"
    using None by (simp add: tcp_buffer_packet_def)
  ultimately show ?thesis using assms by (intro exI[of _ "tr_conns tr"] exI[of _ d]) simp
next
  case (Some conn)
  let ?tx = "tc_txRing conn" and ?pl = "pk_payload pkt"
  have c: "conn_wf (pk_fd pkt) conn" by (rule tcp_wf_conn[OF assms Some])
  then have wf: "rb_wf ?tx" "rb_cap ?tx = TCP_MAX_TX_BUFFER_SIZE" by (simp_all add: conn_wf_def)
  then have le: "m_size ?tx \<le> TCP_MAX_TX_BUFFER_SIZE" by (simp add: rb_wf_def)
  show ?thesis
  proof (cases "rb_writable ?tx < length ?pl")
    case True
    then have "\<not> m_size ?tx + length ?pl \<le> TCP_MAX_TX_BUFFER_SIZE"
      using rb_writable_wf[OF wf(1)] wf(2) le by simp
    then have "tx_out tr g = map_option (\<lambda>out. tx_accept TCP_MAX_TX_BUFFER_SIZE out (payloads_for g [pkt])) (tx_out tr g)"
      for g using Some by (cases "g = pk_fd pkt")
        (simp_all add: tx_out_def payloads_for_def option.map_comp comp_def)
    moreover have "tcp_buffer_packet pkt (tr, d) = Some (tr\<lparr>tr_conns := tr_conns tr\<rparr>, d)"
      using True Some by (simp add: tcp_buffer_packet_def)
    ultimately show ?thesis using assms by (intro exI[of _ "tr_conns tr"] exI[of _ d]) simp
  next
    case False
    then have fit: "m_size ?tx + length ?pl \<le> TCP_MAX_TX_BUFFER_SIZE" "length ?pl \<le> rb_writable ?tx"
      using rb_writable_wf[OF wf(1)] wf(2) le by simp_all
    obtain tx' where tx: "rb_write ?tx ?pl = Some (tx', length ?pl)" "rb_wf tx'"
      "rb_cap tx' = rb_cap ?tx" "rb_contents tx' = rb_contents ?tx @ ?pl"
      by (rule ring.write_fits[OF wf(1) fit(2)])
    define m where "m = AList.update (pk_fd pkt) (conn\<lparr>tc_txRing := tx'\<rparr>) (tr_conns tr)"
    have "tcp_wf (tr\<lparr>tr_conns := m\<rparr>)" unfolding m_def
      by (rule tcp_wf_update[OF assms]) (use c tx in \<open>simp add: conn_wf_def\<close>)
    moreover have "tcp_buffer_packet pkt (tr, d) = Some (tr\<lparr>tr_conns := m\<rparr>, List.insert (pk_fd pkt) d)"
      using False Some tx(1) by (simp add: tcp_buffer_packet_def m_def)
    moreover have "tx_out (tr\<lparr>tr_conns := m\<rparr>) g =
        map_option (\<lambda>out. tx_accept TCP_MAX_TX_BUFFER_SIZE out (payloads_for g [pkt])) (tx_out tr g)" for g
      using Some tx(4) fit(1) by (cases "g = pk_fd pkt")
        (simp_all add: tx_out_def payloads_for_def m_def option.map_comp comp_def)
    moreover have "tx_out (tr\<lparr>tr_conns := m\<rparr>) g = tx_out tr g" if "g \<noteq> pk_fd pkt" for g
      using that by (simp add: tx_out_def m_def)
    ultimately show ?thesis by (intro exI[of _ m] exI[of _ "List.insert (pk_fd pkt) d"]) auto
  qed
qed

lemma tx_accept_append: "tx_accept cap out (ps @ qs) = tx_accept cap (tx_accept cap out ps) qs"
  by (induction ps arbitrary: out) simp_all

lemma tcp_buffer_all:
  assumes "tcp_wf tr"
  shows "\<exists>m d'. ofold tcp_buffer_packet ps (tr, d) = Some (tr\<lparr>tr_conns := m\<rparr>, d') \<and>
    tcp_wf (tr\<lparr>tr_conns := m\<rparr>) \<and> set d \<subseteq> set d' \<and>
    (\<forall>g. tx_out (tr\<lparr>tr_conns := m\<rparr>) g =
      map_option (\<lambda>out. tx_accept TCP_MAX_TX_BUFFER_SIZE out (payloads_for g ps)) (tx_out tr g)) \<and>
    (\<forall>g. g \<notin> set d' \<longrightarrow> tx_out (tr\<lparr>tr_conns := m\<rparr>) g = tx_out tr g)"
  using assms
proof (induction ps arbitrary: tr d)
  case Nil
  then show ?case
    by (intro exI[of _ "tr_conns tr"] exI[of _ d]) (simp add: payloads_for_def option.map_ident)
next
  case (Cons p ps)
  from tcp_buffer_spec[OF Cons.prems, of p d] obtain m d1 where 1:
    "tcp_buffer_packet p (tr, d) = Some (tr\<lparr>tr_conns := m\<rparr>, d1)" "tcp_wf (tr\<lparr>tr_conns := m\<rparr>)"
    "set d \<subseteq> set d1" "\<And>g. tx_out (tr\<lparr>tr_conns := m\<rparr>) g =
      map_option (\<lambda>out. tx_accept TCP_MAX_TX_BUFFER_SIZE out (payloads_for g [p])) (tx_out tr g)"
    "\<And>g. g \<notin> set d1 \<Longrightarrow> tx_out (tr\<lparr>tr_conns := m\<rparr>) g = tx_out tr g" by blast
  from Cons.IH[OF 1(2), of d1] obtain m2 d2 where 2:
    "ofold tcp_buffer_packet ps (tr\<lparr>tr_conns := m\<rparr>, d1) = Some (tr\<lparr>tr_conns := m2\<rparr>, d2)"
    "tcp_wf (tr\<lparr>tr_conns := m2\<rparr>)" "set d1 \<subseteq> set d2" "\<And>g. tx_out (tr\<lparr>tr_conns := m2\<rparr>) g =
      map_option (\<lambda>out. tx_accept TCP_MAX_TX_BUFFER_SIZE out (payloads_for g ps)) (tx_out (tr\<lparr>tr_conns := m\<rparr>) g)"
    "\<And>g. g \<notin> set d2 \<Longrightarrow> tx_out (tr\<lparr>tr_conns := m2\<rparr>) g = tx_out (tr\<lparr>tr_conns := m\<rparr>) g" by auto
  have "payloads_for g (p # ps) = payloads_for g [p] @ payloads_for g ps" for g
    by (simp add: payloads_for_def)
  then have "tx_out (tr\<lparr>tr_conns := m2\<rparr>) g =
      map_option (\<lambda>out. tx_accept TCP_MAX_TX_BUFFER_SIZE out (payloads_for g (p # ps))) (tx_out tr g)" for g
    by (simp add: 2(4) 1(4) tx_accept_append option.map_comp comp_def)
  moreover have "g \<notin> set d2 \<Longrightarrow> tx_out (tr\<lparr>tr_conns := m2\<rparr>) g = tx_out tr g" for g
    using 1(5) 2(3,5) by (metis subsetD)
  ultimately show ?case using 1(1,3) 2(1,2,3) by (intro exI[of _ m2] exI[of _ d2]) auto
qed

subsection \<open>Waiting output is registered\<close>

text \<open>
  \<open>tx_registered D\<close>: every connection is registered with epoll, and with the interest its transmit
  ring calls for, except for the descriptors in \<open>D\<close>; nothing else but the two descriptors of the
  reactor is registered.
\<close>

definition tx_registered :: "fd set \<Rightarrow> TcpReactor \<Rightarrow> bool" where
  "tx_registered D tr \<longleftrightarrow>
     (\<forall>g out. tx_out tr g = Some out \<longrightarrow> map_of (tr_epoll tr) g \<noteq> None \<and>
        (g \<notin> D \<or> out = [] \<longrightarrow> map_of (tr_epoll tr) g = Some (tcp_interest out))) \<and>
     (\<forall>g. tx_out tr g = None \<longrightarrow> g \<noteq> tr_listenFd tr \<longrightarrow> g \<noteq> tr_wakeupFd tr \<longrightarrow> map_of (tr_epoll tr) g = None)"

definition tcp_inv :: "TcpReactor \<Rightarrow> bool" where
  "tcp_inv tr \<longleftrightarrow> tcp_wf tr \<and> tx_registered {} tr"

lemma tx_registered_flushed:
  assumes "tx_registered D tr" "tx_flushed fd tr tr'" "tx_out tr fd \<noteq> None"
  shows "tx_registered (D - {fd}) tr'"
proof -
  from assms(1,3) have e: "map_of (tr_epoll tr) fd \<noteq> None" by (auto simp: tx_registered_def)
  have o: "tx_out tr' g = tx_out tr g" "map_of (tr_epoll tr') g = map_of (tr_epoll tr) g" if "g \<noteq> fd" for g
    using assms(2) that by (simp_all add: tx_flushed_def tx_only_def)
  have f: "tx_out tr' fd = None \<Longrightarrow> map_of (tr_epoll tr') fd = None"
    "tx_out tr' fd = Some out \<Longrightarrow> map_of (tr_epoll tr') fd = Some (tcp_interest out)" for out
    using assms(2) e by (simp_all add: tx_flushed_def)
  have l: "tr_listenFd tr' = tr_listenFd tr" "tr_wakeupFd tr' = tr_wakeupFd tr"
    using assms(2) by (simp_all add: tx_flushed_def tx_only_def)
  have 1: "map_of (tr_epoll tr') g \<noteq> None \<and>
      (g \<notin> D - {fd} \<or> out = [] \<longrightarrow> map_of (tr_epoll tr') g = Some (tcp_interest out))"
    if "tx_out tr' g = Some out" for g out
    using that assms(1) f(2)[of out] o[of g] by (cases "g = fd") (auto simp: tx_registered_def)
  have 2: "map_of (tr_epoll tr') g = None"
    if "tx_out tr' g = None" "g \<noteq> tr_listenFd tr'" "g \<noteq> tr_wakeupFd tr'" for g
    using that assms(1) f(1) o[of g] l by (cases "g = fd") (auto simp: tx_registered_def)
  from 1 2 show ?thesis unfolding tx_registered_def by blast
qed

lemma tcp_flush_registered:
  assumes "tcp_wf tr" "tx_registered D tr"
  shows "\<exists>tr'. tcp_flushTxBuffer fd ss tr = Some tr' \<and> tcp_wf tr' \<and> tx_registered (D - {fd}) tr' \<and>
    tx_moved tr tr'"
  using assms(1)
proof (cases rule: tcp_flush_spec[of tr fd ss])
  case 1
  with assms tx_moved_refl show ?thesis by (fastforce simp: tx_registered_def)
next
  case (2 tr')
  with tx_registered_flushed[OF assms(2)] tx_flushed_moved show ?thesis by blast
qed

lemma tcp_flush_all:
  assumes "tcp_wf tr" "tx_registered D tr"
  shows "\<exists>tr'. ofold (\<lambda>fd. tcp_flushTxBuffer fd (sends fd)) ds tr = Some tr' \<and> tcp_wf tr' \<and>
    tx_registered (D - set ds) tr' \<and> tx_moved tr tr'"
  using assms
proof (induction ds arbitrary: D tr)
  case Nil
  then show ?case by (simp add: tx_moved_refl)
next
  case (Cons d ds)
  from tcp_flush_registered[OF Cons.prems, of d "sends d"] obtain t where
    "tcp_flushTxBuffer d (sends d) tr = Some t" "tcp_wf t" "tx_registered (D - {d}) t" "tx_moved tr t"
    by blast
  moreover from Cons.IH[OF this(2,3)] obtain u where
    "ofold (\<lambda>fd. tcp_flushTxBuffer fd (sends fd)) ds t = Some u" "tcp_wf u"
    "tx_registered (D - {d} - set ds) u" "tx_moved t u" by blast
  moreover have "D - {d} - set ds = D - set (d # ds)" by auto
  ultimately show ?case using tx_moved_trans by auto
qed

text \<open>A pass over the transmit queue, byte for byte.\<close>

definition tx_sends :: "Packet list \<Rightarrow> TcpReactor \<Rightarrow> TcpReactor \<Rightarrow> bool" where
  "tx_sends ps tr tr' \<longleftrightarrow> own_fds tr' = own_fds tr \<and>
     (\<forall>g. case tx_out tr g of
            None \<Rightarrow> tx_out tr' g = None \<and> sent_on tr' g = sent_on tr g
          | Some out \<Rightarrow>
              (let out1 = tx_accept TCP_MAX_TX_BUFFER_SIZE out (payloads_for g ps)
               in case tx_out tr' g of
                    None \<Rightarrow> prefix (sent_on tr' g) (sent_on tr g @ out1)
                  | Some out' \<Rightarrow> sent_on tr' g @ out' = sent_on tr g @ out1))"

lemma tx_sends_moved:
  assumes "\<And>g. tx_out t g = map_option (\<lambda>out. tx_accept TCP_MAX_TX_BUFFER_SIZE out (payloads_for g ps)) (tx_out tr g)"
    "sent_on t = sent_on tr" "own_fds t = own_fds tr" "tx_moved t u"
  shows "tx_sends ps tr u"
  using assms(4)
  unfolding tx_sends_def tx_moved_def bytes_moved_def assms(1,2,3) Let_def case_map_option comp_def .

lemma tcp_port_drained:
  assumes "tcp_wf tr"
  obtains q where "mpsc_items (tp_queue (tr_port tr)) = Some (q, port_list (tr_port tr))" "mpsc_wf q"
    "mpsc_list q = []"
  using mpsc.deqAll_law[of "tp_queue (tr_port tr)"] assms that
  by (auto simp: tcp_wf_def port_wf_def port_list_def)

lemma tcp_processTxQueue_spec:
  assumes "tcp_inv tr"
  shows "\<exists>tr'. tcp_processTxQueue sends tr = Some tr' \<and> tcp_inv tr' \<and> tx_sends (port_list (tr_port tr)) tr tr'"
proof -
  have wf: "tcp_wf tr" using assms by (simp add: tcp_inv_def)
  let ?ps = "port_list (tr_port tr)"
  obtain q where q: "mpsc_items (tp_queue (tr_port tr)) = Some (q, ?ps)" "mpsc_wf q"
    by (rule tcp_port_drained[OF wf])
  define t0 where "t0 = tr\<lparr>tr_port := (tr_port tr)\<lparr>tp_queue := q\<rparr>\<rparr>"
  have t0: "tcp_wf t0" "tx_out t0 = tx_out tr" "sent_on t0 = sent_on tr"
    using wf q(2) by (simp_all add: t0_def tcp_wf_def port_wf_def tx_out_def sent_on_def fun_eq_iff)
  have reg: "tx_registered {} t0" using assms t0(2) by (simp add: tcp_inv_def tx_registered_def t0_def)
  from tcp_buffer_all[OF t0(1), of ?ps "[]"] obtain m d where b:
    "ofold tcp_buffer_packet ?ps (t0, []) = Some (t0\<lparr>tr_conns := m\<rparr>, d)" "tcp_wf (t0\<lparr>tr_conns := m\<rparr>)"
    "\<And>g. tx_out (t0\<lparr>tr_conns := m\<rparr>) g =
      map_option (\<lambda>out. tx_accept TCP_MAX_TX_BUFFER_SIZE out (payloads_for g ?ps)) (tx_out t0 g)"
    "\<And>g. g \<notin> set d \<Longrightarrow> tx_out (t0\<lparr>tr_conns := m\<rparr>) g = tx_out t0 g" by blast
  have "tx_registered (set d) (t0\<lparr>tr_conns := m\<rparr>)" unfolding tx_registered_def
    using reg b(3,4) by (fastforce simp: tx_registered_def dest: tx_accept_empty)
  from tcp_flush_all[OF b(2) this, of sends d] obtain t where t:
    "ofold (\<lambda>fd. tcp_flushTxBuffer fd (sends fd)) d (t0\<lparr>tr_conns := m\<rparr>) = Some t" "tcp_inv t"
    "tx_moved (t0\<lparr>tr_conns := m\<rparr>) t" by (auto simp: tcp_inv_def)
  have sends: "tx_sends ?ps tr t"
    by (rule tx_sends_moved[OF _ _ _ t(3)])
      (use b(3) t0(2,3) in \<open>simp_all add: sent_on_def fun_eq_iff own_fds_def t0_def\<close>)
  show ?thesis
  proof (cases "?ps = []")
    case True
    then have "tcp_processTxQueue sends tr = Some t0"
      using q(1) by (simp add: tcp_processTxQueue_def t0_def)
    moreover have "tx_sends ?ps tr t0" using t0 True
      by (simp add: tx_sends_def payloads_for_def own_fds_def t0_def split: option.splits)
    ultimately show ?thesis using t0(1) reg by (simp add: tcp_inv_def)
  next
    case False
    then have "tcp_processTxQueue sends tr = Some t"
      using q(1) b(1) t(1) by (simp add: tcp_processTxQueue_def t0_def)
    with t(2) sends show ?thesis by blast
  qed
qed

subsection \<open>The other handlers\<close>

lemma tcp_inv_close:
  assumes "tcp_inv tr"
  shows "tcp_inv (tcp_closeConnection fd tr)"
proof -
  have "tx_registered {} (tcp_closeConnection fd tr)"
    using assms unfolding tcp_inv_def tx_registered_def tx_close
    by (auto simp: tcp_closeConnection_def)
  with assms show ?thesis by (simp add: tcp_inv_def tcp_wf_close)
qed

lemma tcp_inv_handover:
  assumes "tcp_inv tr"
  shows "tcp_inv (handoverToTls fd tr)"
proof (cases "map_of (tr_conns tr) fd")
  case None
  with tcp_inv_close[OF assms] show ?thesis by (simp add: handoverToTls_def)
next
  case (Some conn)
  have "tx_out (handoverToTls fd tr) = (tx_out tr)(fd := None)"
    "map_of (tr_epoll (handoverToTls fd tr)) = (map_of (tr_epoll tr))(fd := None)"
    "tr_listenFd (handoverToTls fd tr) = tr_listenFd tr" "tr_wakeupFd (handoverToTls fd tr) = tr_wakeupFd tr"
    using Some by (simp_all add: handoverToTls_def tx_out_def epoll_del_def fun_eq_iff)
  then have "tx_registered {} (handoverToTls fd tr)"
    using assms by (auto simp: tcp_inv_def tx_registered_def)
  with assms show ?thesis by (simp add: tcp_inv_def tcp_wf_handover)
qed

lemma tcp_inv_delivered:
  assumes "tcp_inv tr" "tcp_delivered fd tr tr' fs" "tcp_wf tr'"
  shows "tcp_inv tr' \<and> own_fds tr' = own_fds tr"
proof -
  from assms(2) have "tx_out tr' = tx_out tr" "tr_epoll tr' = tr_epoll tr"
    "tr_listenFd tr' = tr_listenFd tr" "tr_wakeupFd tr' = tr_wakeupFd tr"
    by (auto simp: tcp_delivered_def tx_out_def fun_eq_iff)
  with assms(1,3) show ?thesis by (simp add: tcp_inv_def tx_registered_def own_fds_def)
qed

lemma tcp_inv_receive:
  assumes "tcp_inv tr"
  shows "\<exists>tr' rs'. tcp_receive fd peeked rs tr = Some (tr', rs') \<and> tcp_inv tr' \<and> own_fds tr' = own_fds tr"
proof (cases "tr_tlsServer tr \<and> isTlsClientHello peeked")
  case True
  have "own_fds (handoverToTls fd tr) = own_fds tr"
    by (simp add: handoverToTls_def own_fds_def tcp_closeConnection_def split: option.splits)
  with True tcp_inv_handover[OF assms] show ?thesis by (simp add: tcp_receive_def)
next
  case False
  have wf: "tcp_wf tr" using assms by (simp add: tcp_inv_def)
  show ?thesis
  proof (cases rule: tcp_receive_loop_cases[OF wf, of fd rs])
    case (1 rs')
    with False assms show ?thesis by (auto simp: tcp_receive_def)
  next
    case (2 tr' tr'' fs rs')
    have "tcp_inv tr'' \<and> own_fds tr'' = own_fds tr"
      using tcp_inv_delivered[OF assms 2(3,2)] tcp_inv_close 2(4)
      by (auto simp: tcp_ends_def)
    with False 2(1) show ?thesis by (auto simp: tcp_receive_def)
  qed
qed

text \<open>What \<open>accept\<close> returns is not one of the reactor's own descriptors.\<close>

definition accepts_new :: "fd list \<Rightarrow> 'p accept_res list \<Rightarrow> bool" where
  "accepts_new own = list_all (\<lambda>a. case a of AConn fd peer \<Rightarrow> fd \<notin> set own | AErr e \<Rightarrow> True)"

lemma own_fds_accept [simp]: "own_fds (tcp_acceptConnection as tr) = own_fds tr"
  by (induction as tr rule: tcp_acceptConnection.induct) (simp_all add: own_fds_def)

lemma tcp_inv_accept: "tcp_inv tr \<Longrightarrow> accepts_new (own_fds tr) as \<Longrightarrow> tcp_inv (tcp_acceptConnection as tr)"
proof (induction as tr rule: tcp_acceptConnection.induct)
  case (3 fd peer as tr)
  define t where "t = tr\<lparr>tr_conns := emplace fd
      (mk_TcpConnection fd peer TCP_MAX_RX_BUFFER_SIZE TCP_MAX_TX_BUFFER_SIZE) (tr_conns tr),
      tr_epoll := epoll_add fd (EPOLLIN OR EPOLLRDHUP) (tr_epoll tr)\<rparr>"
  have new: "fd \<noteq> tr_listenFd tr" "fd \<noteq> tr_wakeupFd tr" "accepts_new (own_fds t) as"
    using 3(3) by (simp_all add: accepts_new_def own_fds_def t_def cong: accept_res.case_cong)
  have out: "tx_out t = (if tx_out tr fd = None then (tx_out tr)(fd \<mapsto> []) else tx_out tr)"
    by (simp add: tx_out_def t_def fun_eq_iff mk_TcpConnection_def)
  have "tcp_wf t" using tcp_wf_accept[of tr "[AConn fd peer]"] 3(2) by (simp add: tcp_inv_def t_def)
  moreover have "tx_registered {} t"
  proof (cases "tx_out tr fd")
    case None
    then have "map_of (tr_epoll tr) fd = None" using 3(2) new(1,2) by (simp add: tcp_inv_def tx_registered_def)
    with None 3(2) show ?thesis unfolding tcp_inv_def tx_registered_def out
      by (simp add: t_def epoll_add_def tcp_interest_def)
  next
    case (Some o)
    then have "map_of (tr_epoll tr) fd \<noteq> None" using 3(2) by (simp add: tcp_inv_def tx_registered_def)
    then have "map_of (tr_epoll t) = map_of (tr_epoll tr)" by (auto simp: t_def epoll_add_def)
    moreover have "tr_listenFd t = tr_listenFd tr" "tr_wakeupFd t = tr_wakeupFd tr" by (simp_all add: t_def)
    ultimately show ?thesis using Some 3(2) by (simp add: tcp_inv_def tx_registered_def out)
  qed
  ultimately have "tcp_inv t" by (simp add: tcp_inv_def)
  with 3(1)[folded t_def] new(3) show ?case by (simp add: t_def)
qed simp_all

lemma tcp_inv_event:
  assumes "tcp_inv tr" "accepts_new (own_fds tr) (io_accepts io)"
  shows "\<exists>tr'. tcp_handleEvent io fd ev tr = Some tr' \<and> tcp_inv tr' \<and> own_fds tr' = own_fds tr"
proof -
  let ?w = "tr\<lparr>tr_port := (tr_port tr)\<lparr>tp_wakeups := 0\<rparr>\<rparr>"
  have w: "tcp_inv ?w" "own_fds ?w = own_fds tr"
    using assms(1) by (simp_all add: tcp_inv_def tcp_wf_def tx_registered_def tx_out_def port_wf_def own_fds_def)
  have p: "\<exists>t. tcp_processTxQueue sends ?w = Some t \<and> tcp_inv t \<and> own_fds t = own_fds tr" for sends
    using tcp_processTxQueue_spec[OF w(1), of sends] w(2) by (auto simp: tx_sends_def)
  obtain t rs' where r: "tcp_receive fd (io_peeked io) (io_recvs io) tr = Some (t, rs')" "tcp_inv t"
    "own_fds t = own_fds tr" using tcp_inv_receive[OF assms(1)] by blast
  have fl: "\<exists>u. tcp_flushTxBuffer fd ss s = Some u \<and> tcp_inv u \<and> own_fds u = own_fds s" if "tcp_inv s" for s ss
    using tcp_flush_registered[of s "{}" fd ss] that by (auto simp: tcp_inv_def tx_moved_def)
  show ?thesis
    using p[of "io_sends io"] tcp_inv_accept[OF assms] tcp_inv_close[OF assms(1)]
      r fl[OF assms(1), of "io_sends io fd"] fl[OF r(2), of "io_sends io fd"] assms(1)
    by (auto simp: tcp_handleEvent_def)
qed

text \<open>What the kernel does not do: return one of the reactor's own descriptors from \<open>accept\<close>.\<close>

fun tcp_op_ok :: "fd list \<Rightarrow> tcp_op \<Rightarrow> bool" where
  "tcp_op_ok own (TcpEvent io fd ev) = accepts_new own (io_accepts io)"
| "tcp_op_ok own (TcpTx pkt) = True"

lemma tcp_inv_step:
  assumes "tcp_inv tr" "tcp_op_ok (own_fds tr) x"
  shows "\<exists>tr'. tcp_step x tr = Some tr' \<and> tcp_inv tr' \<and> own_fds tr' = own_fds tr"
proof (cases x)
  case (TcpEvent io fd ev)
  with assms tcp_inv_event show ?thesis by simp
next
  case (TcpTx pkt)
  have "port_wf (tr_port tr)" using assms(1) by (simp add: tcp_inv_def tcp_wf_def)
  then obtain port where "TcpReactor_enqueueTx (tr_port tr) pkt = Some port" "port_wf port"
    using enqueueTx_wf by blast
  with assms(1) TcpTx show ?thesis
    by (simp add: tcp_inv_def tcp_wf_def tx_registered_def tx_out_def own_fds_def)
qed

lemma tcp_inv_run:
  assumes "tcp_inv tr" "list_all (tcp_op_ok (own_fds tr)) ops"
  shows "\<exists>tr'. tcp_run ops tr = Some tr' \<and> tcp_inv tr'"
proof -
  have "\<exists>t. ofold tcp_step ops tr = Some t \<and> (tcp_inv t \<and> own_fds t = own_fds tr)"
  proof (rule ofold_inv, goal_cases)
    case (2 x s)
    then have "tcp_op_ok (own_fds s) x" using assms(2) by (simp add: list_all_iff)
    with tcp_inv_step[of s x] 2(2) show ?case by simp
  qed (simp add: assms(1))
  then show ?thesis by (auto simp: tcp_run_def)
qed

text \<open>A started reactor satisfies the invariant.\<close>

lemma tcp_inv_prepare:
  assumes "mk_TcpReactor port ws tls lfd wfd = Some tr0" "workers_wf ws"
    "tcp_prepare st tr0 = (tr, True)"
  shows "tcp_inv tr \<and> tr_listenFd tr = st_socket st \<and> st_epoll st = Some (tr_wakeupFd tr)"
proof -
  obtain q :: "Packet MpscQueue" where q: "mpsc_new 65536 = Some q" "mpsc_wf q"
    by (rule mpsc_new_wf[of 65536]) (simp_all add: pow2_def)
  with assms show ?thesis
    by (auto simp: mk_TcpReactor_def tcp_prepare_def tcp_init_def tcp_create_def tcp_bindAndListen_def
        tcp_inv_def tcp_wf_def port_wf_def tx_registered_def tx_out_def epoll_add_def emplace_def
        Let_def split: if_splits option.splits prod.splits)
qed

subsection \<open>From the stream to the engine\<close>

lemma TcpWorker_processPacket_eq:
  assumes "worker_wf w"
  shows "\<exists>w'. TcpWorker_processPacket w s =
      map_option (Pair w') (ofold RxRouter_handlePacket (worker_list w) s) \<and>
    worker_wf w' \<and> worker_list w' = []"
proof -
  from spsc.drain_loop_eq[of "wk_queue w" RxRouter_handlePacket s] assms obtain q where
    "drain_loop spsc_dequeue RxRouter_handlePacket (wk_queue w) s =
      map_option (Pair q) (ofold RxRouter_handlePacket (worker_list w) s)" "spsc_wf q" "spsc_list q = []"
    by (auto simp: worker_wf_def worker_list_def)
  then show ?thesis
    by (intro exI[of _ "w\<lparr>wk_wakeups := 0, wk_queue := q\<rparr>"])
      (simp add: TcpWorker_processPacket_def Let_def worker_wf_def worker_list_def option.map_comp comp_def)
qed

text \<open>
  Frames that arrive on a connection with an empty ring, cut into pieces of any size, are in the
  queue of the descriptor's worker.
\<close>

lemma tcp_frames_queued:
  assumes wf: "tcp_wf tr" and conn: "map_of (tr_conns tr) fd = Some conn" "rb_readable (tc_rxRing conn) = 0"
    and i: "worker_index fd (tr_workers tr) = Some i" "length fs \<le> worker_room (tr_workers tr ! i)"
    and fs: "\<forall>f \<in> set fs. tcp_frames.is_frame f \<and> length f \<le> 65536"
    and pieces: "[] \<notin> set pieces" "concat pieces = concat fs"
  obtains tr' where "tcp_receive_loop fd tr (map RBytes pieces) = Some (tr', [])" "tcp_wf tr'"
    "worker_list (tr_workers tr' ! i) = worker_list (tr_workers tr ! i) @ map (tcp_packet fd conn tr) fs"
    "map_of (tr_conns tr') fd \<noteq> None" "i < length (tr_workers tr')"
proof -
  have ring: "tcp_ring fd tr = Some (tc_rxRing conn)" using conn(1) by (simp add: tcp_ring_def)
  have cap: "rb_cap (tc_rxRing conn) = 65536"
    using tcp_wf_conn[OF wf conn(1)] by (simp add: conn_wf_def TCP_MAX_RX_BUFFER_SIZE_def)
  from tcp_rx.frames_delivered[OF wf ring conn(2) pieces, unfolded cap, OF fs] obtain tr' where
    "tcp_receive_loop fd tr (map RBytes pieces) = Some (tr', [])" "tcp_wf tr'" "tcp_ring fd tr' \<noteq> None"
    "tcp_delivered fd tr tr' fs" by blast
  with that i conn(1) show ?thesis by (auto simp: tcp_delivered_def rx_delivered_def)
qed

subsection \<open>Properties\<close>

text \<open>
  C21. The event loop of the TCP server never fails: after a successful start, whatever events come,
  whatever packets other threads queue and whatever the kernel answers, every handler returns, rings stay inside their buffers and every
  connection keeps a ring pair of the configured sizes. Moreover a connection with unsent bytes is
  always registered for EPOLLOUT, one without never is, so no output is stuck and no event spins.
  The only hypothesis on the kernel is that \<open>accept\<close> does not return the reactor's own descriptors.
\<close>

theorem tcp_server_invariant:
  assumes "mk_TcpReactor port ws tls lfd wfd = Some tr0" "workers_wf ws" "tcp_prepare st tr0 = (tr, True)"
    and "list_all (tcp_op_ok [tr_listenFd tr, tr_wakeupFd tr]) ops"
  shows "\<exists>tr'. tcp_run ops tr = Some tr' \<and> tcp_wf tr' \<and>
    (\<forall>fd conn. map_of (tr_conns tr') fd = Some conn \<longrightarrow> map_of (tr_epoll tr') fd =
      Some (if rb_readable (tc_txRing conn) = 0 then EPOLLIN OR EPOLLRDHUP
        else EPOLLIN OR EPOLLOUT OR EPOLLRDHUP))"
proof -
  have "tcp_inv tr" using tcp_inv_prepare[OF assms(1-3)] by simp
  from tcp_inv_run[OF this, of ops] assms(4) obtain tr' where "tcp_run ops tr = Some tr'" "tcp_inv tr'"
    by (auto simp: own_fds_def)
  moreover from this(2) have "map_of (tr_epoll tr') fd = Some (tcp_interest (rb_contents (tc_txRing conn)))"
    if "map_of (tr_conns tr') fd = Some conn" for fd conn
    using that by (simp add: tcp_inv_def tx_registered_def tx_out_def)
  ultimately show ?thesis by (auto simp: tcp_inv_def tcp_interest_def rb_readable_def)
qed

definition demo_start :: start_io where
  "demo_start = \<lparr>st_socket = 3, st_nonblock = True, st_sockopt = True, st_bind = True, st_listen = True,
     st_epoll = Some 4\<rparr>"

definition demo_peer :: sockaddr_in where
  "demo_peer = \<lparr>sin_family = 2, sin_addr = 1, sin_port = 2\<rparr>"

definition demo_reply :: Packet where
  "demo_reply = mk_Packet 5 TCP [1, 2, 3] demo_peer demo_peer"

definition demo_io :: tcp_io where
  "demo_io = \<lparr>io_accepts = [AConn 5 demo_peer], io_peeked = None, io_recvs = [RBytes [1, 2]], io_sends = \<lambda>_. []\<rparr>"

lemma demo_tcp:
  obtains tr0 tr where "mk_TcpReactor 9000 [demo_worker] False 0 0 = Some tr0"
    "tcp_prepare demo_start tr0 = (tr, True)" "workers_wf [demo_worker]" "tr_workers tr = [demo_worker]"
    "tr_listenFd tr = 3" "tr_wakeupFd tr = 4" "tr_conns tr = []" "tcp_inv tr" "tr_tlsServer tr = False"
proof -
  obtain q :: "Packet MpscQueue" where q: "mpsc_new 65536 = Some q" "mpsc_wf q"
    by (rule mpsc_new_wf[of 65536]) (simp_all add: pow2_def)
  define tr0 where "tr0 = the (mk_TcpReactor 9000 [demo_worker] False 0 0)"
  define tr where "tr = fst (tcp_prepare demo_start tr0)"
  have 0: "mk_TcpReactor 9000 [demo_worker] False 0 0 = Some tr0"
    using q(1) by (simp add: mk_TcpReactor_def tr0_def)
  have 1: "tcp_prepare demo_start tr0 = (tr, True)" "tr_workers tr = [demo_worker]"
    "tr_listenFd tr = 3" "tr_wakeupFd tr = 4" "tr_conns tr = []" "tr_tlsServer tr = False"
    using q(1) by (simp_all add: tr_def tr0_def mk_TcpReactor_def tcp_prepare_def tcp_init_def
        tcp_create_def tcp_bindAndListen_def demo_start_def Let_def)
  have 2: "workers_wf [demo_worker]" using demo_worker_wf(1) by (simp add: workers_wf_def)
  from that[OF 0 1(1) 2 1(2-5) _ 1(6)] tcp_inv_prepare[OF 0 2 1(1)] show ?thesis by simp
qed

theorem tcp_server_invariant_witness:
  "\<exists>tr0 tr tr'. mk_TcpReactor 9000 [demo_worker] False 0 0 = Some tr0 \<and>
    tcp_prepare demo_start tr0 = (tr, True) \<and>
    tcp_run [TcpEvent demo_io 3 EPOLLIN, TcpTx (Some demo_reply), TcpEvent demo_io 5 EPOLLIN, TcpEvent demo_io 4 EPOLLIN] tr = Some tr' \<and> tcp_wf tr'"
proof -
  obtain tr0 tr where d: "mk_TcpReactor 9000 [demo_worker] False 0 0 = Some tr0"
    "tcp_prepare demo_start tr0 = (tr, True)" "workers_wf [demo_worker]" "tr_listenFd tr = 3" "tr_wakeupFd tr = 4"
    by (rule demo_tcp)
  with tcp_server_invariant[OF d(1,3,2), of "[TcpEvent demo_io 3 EPOLLIN, TcpTx (Some demo_reply), TcpEvent demo_io 5 EPOLLIN, TcpEvent demo_io 4 EPOLLIN]"]
  show ?thesis by (auto simp: accepts_new_def demo_io_def)
qed

text \<open>
  C22. Replies leave a TCP connection byte for byte in the order in which they were queued: after a
  pass over the transmit queue, what has been sent on a connection that is still open, together with
  what its ring still holds, is what was there before followed by the payloads of the pass, each of
  them whole or, when it does not fit the 64 KiB ring at its turn, not at all. On a connection that
  was closed meanwhile the peer has received a prefix of it.
\<close>

theorem tcp_tx_exact:
  assumes "tcp_inv tr" "map_of (tr_conns tr) fd = Some conn"
  defines "queued \<equiv> tx_accept 65536 (rb_contents (tc_txRing conn)) (payloads_for fd (port_list (tr_port tr)))"
  shows "\<exists>tr'. tcp_processTxQueue sends tr = Some tr' \<and> tcp_inv tr' \<and>
    (case map_of (tr_conns tr') fd of
       None \<Rightarrow> prefix (sent_on tr' fd) (sent_on tr fd @ queued)
     | Some conn' \<Rightarrow> sent_on tr' fd @ rb_contents (tc_txRing conn') = sent_on tr fd @ queued)"
proof -
  from tcp_processTxQueue_spec[OF assms(1), of sends] obtain tr' where t:
    "tcp_processTxQueue sends tr = Some tr'" "tcp_inv tr'" "tx_sends (port_list (tr_port tr)) tr tr'" by blast
  have "tx_out tr fd = Some (rb_contents (tc_txRing conn))" using assms(2) by (simp add: tx_out_def)
  with t(3)[unfolded tx_sends_def, THEN conjunct2, rule_format, of fd]
  have "case map_of (tr_conns tr') fd of
       None \<Rightarrow> prefix (sent_on tr' fd) (sent_on tr fd @ queued)
     | Some conn' \<Rightarrow> sent_on tr' fd @ rb_contents (tc_txRing conn') = sent_on tr fd @ queued"
    by (auto simp: queued_def TCP_MAX_TX_BUFFER_SIZE_def tx_out_def Let_def split: option.splits)
  with t show ?thesis by blast
qed

text \<open>A connection on descriptor 5 and a reply waiting in the transmit queue.\<close>

lemma demo_conn:
  obtains tr conn where "tcp_inv tr" "map_of (tr_conns tr) 5 = Some conn" "rb_contents (tc_txRing conn) = []"
    "rb_readable (tc_rxRing conn) = 0" "tr_workers tr = [demo_worker]" "port_list (tr_port tr) = [demo_reply]"
    "sent_on tr 5 = []" "tc_peer conn = demo_peer"
proof -
  obtain tr0 where d: "tr_workers tr0 = [demo_worker]" "tr_listenFd tr0 = 3" "tr_wakeupFd tr0 = 4"
    "tr_conns tr0 = []" "tcp_inv tr0" by (rule demo_tcp)
  obtain port where p: "port_wf port" "port_list port = [demo_reply]"
    using enqueueTx_cases[OF demo_port_wf(1), of demo_reply] demo_port_wf(2,3) by (metis append_Nil)
  define tr where "tr = (tcp_acceptConnection [AConn 5 demo_peer] tr0)\<lparr>tr_port := port, tr_sent := []\<rparr>"
  have "tcp_inv (tcp_acceptConnection [AConn 5 demo_peer] tr0)"
    using d by (intro tcp_inv_accept) (simp_all add: accepts_new_def own_fds_def)
  then have "tcp_inv tr" using p(1) by (simp add: tr_def tcp_inv_def tcp_wf_def tx_registered_def tx_out_def)
  moreover have "map_of (tr_conns tr) 5 =
      Some (mk_TcpConnection 5 demo_peer TCP_MAX_RX_BUFFER_SIZE TCP_MAX_TX_BUFFER_SIZE)"
    using d(4) by (simp add: tr_def)
  ultimately show ?thesis using that d(1) p(2)
    by (simp add: mk_TcpConnection_def rb_readable_def rb_new_def sent_on_def tr_def)
qed

theorem tcp_tx_exact_witness:
  "\<exists>tr tr'. port_list (tr_port tr) = [demo_reply] \<and> tcp_processTxQueue (\<lambda>_. [SSent 2]) tr = Some tr' \<and>
    (case map_of (tr_conns tr') 5 of None \<Rightarrow> prefix (sent_on tr' 5) [1, 2, 3]
     | Some conn' \<Rightarrow> sent_on tr' 5 @ rb_contents (tc_txRing conn') = [1, 2, 3])"
proof -
  obtain tr conn where d: "tcp_inv tr" "map_of (tr_conns tr) 5 = Some conn" "rb_contents (tc_txRing conn) = []"
    "port_list (tr_port tr) = [demo_reply]" "sent_on tr 5 = []" by (rule demo_conn)
  have q: "[] @ tx_accept 65536 [] (payloads_for 5 [demo_reply]) = [1, 2, 3]"
    by (simp add: payloads_for_def demo_reply_def mk_Packet_def)
  from tcp_tx_exact[OF d(1,2), of "\<lambda>_. [SSent 2]", unfolded d(3,4,5) q] d(4) show ?thesis by blast
qed

text \<open>
  C23. Messages reach the engine however the TCP stream is cut: when the bytes of a list of messages
  arrive on an idle connection in pieces of any sizes, the reactor takes them all and keeps the
  connection open, and the next pass of the descriptor's worker runs the router over exactly these
  messages, in order, after what was queued there, each tagged with the connection's peer.
\<close>

theorem tcp_messages_reach_engine:
  assumes "tcp_wf tr" "map_of (tr_conns tr) fd = Some conn" "rb_readable (tc_rxRing conn) = 0"
    and "worker_index fd (tr_workers tr) = Some i" "length msgs \<le> worker_room (tr_workers tr ! i)"
    and "\<forall>f \<in> set msgs. (16 \<le> length f \<and> length f = 16 + packet_blen f) \<and> length f \<le> 65536"
    and "[] \<notin> set pieces" "concat pieces = concat msgs"
  shows "\<exists>tr' w'. tcp_receive_loop fd tr (map RBytes pieces) = Some (tr', []) \<and>
    map_of (tr_conns tr') fd \<noteq> None \<and> worker_list w' = [] \<and>
    TcpWorker_processPacket (tr_workers tr' ! i) s = map_option (Pair w') (ofold RxRouter_handlePacket
      (worker_list (tr_workers tr ! i) @ map (tcp_packet fd conn tr) msgs) s)"
proof -
  obtain tr' where t: "tcp_receive_loop fd tr (map RBytes pieces) = Some (tr', [])" "tcp_wf tr'"
    "worker_list (tr_workers tr' ! i) = worker_list (tr_workers tr ! i) @ map (tcp_packet fd conn tr) msgs"
    "map_of (tr_conns tr') fd \<noteq> None" "i < length (tr_workers tr')"
    by (rule tcp_frames_queued[OF assms])
  have "worker_wf (tr_workers tr' ! i)" using t(2,5) by (simp add: tcp_wf_def workers_wf_def list_all_length)
  from TcpWorker_processPacket_eq[OF this, of s] t show ?thesis by auto
qed

theorem tcp_messages_reach_engine_witness:
  "\<exists>tr conn tr' w'. tcp_receive_loop 5 tr [RBytes [1, 0x20, 0], RBytes ([0, 0, 0, 0, 0, 0, 0, 0, 7] @ [0, 0, 0, 0])] =
      Some (tr', []) \<and> map_of (tr_conns tr) 5 = Some conn \<and>
    TcpWorker_processPacket (tr_workers tr' ! 0) (demo_engine, []) = map_option (Pair w')
      (RxRouter_handlePacket (tcp_packet 5 conn tr (wire_packet 1 0x20 7 0 [])) (demo_engine, []))"
proof -
  obtain tr conn where d: "tcp_inv tr" "map_of (tr_conns tr) 5 = Some conn" "rb_readable (tc_rxRing conn) = 0"
    "tr_workers tr = [demo_worker]" by (rule demo_conn)
  let ?m = "wire_packet 1 0x20 7 0 [] :: bytes"
  let ?ps = "[[1, 0x20, 0], [0, 0, 0, 0, 0, 0, 0, 0, 7] @ [0, 0, 0, 0]] :: bytes list"
  have i: "worker_index 5 (tr_workers tr) = Some 0" by (simp add: d(4) worker_index_def)
  have m: "?m = concat ?ps" by code_simp
  have f: "\<forall>f \<in> set [?m]. (16 \<le> length f \<and> length f = 16 + packet_blen f) \<and> length f \<le> 65536"
    using wire_packet_is_frame[of "[]" 1 "0x20" 7 0] by simp
  have "tcp_wf tr" using d(1) by (simp add: tcp_inv_def)
  from tcp_messages_reach_engine[OF this d(2,3) i _ f, of ?ps "(demo_engine, [])"] m d(4) demo_worker_wf(2,3)
  obtain tr' w' where "tcp_receive_loop 5 tr (map RBytes ?ps) = Some (tr', [])"
    "TcpWorker_processPacket (tr_workers tr' ! 0) (demo_engine, []) = map_option (Pair w')
      (ofold RxRouter_handlePacket [tcp_packet 5 conn tr ?m] (demo_engine, []))" by auto
  with d(2) show ?thesis by (intro exI[of _ tr] exI[of _ conn] exI[of _ tr'] exI[of _ w']) simp
qed

text \<open>
  C24. The ring limits the frames: a frame that announces a body of more than 65520 bytes, which the
  16-bit length field allows and the framing's own limit does not exclude, never completes. Once
  65536 bytes have arrived the connection is closed, and none of its bytes reach a worker.
\<close>

theorem tcp_oversized_closes:
  assumes "tcp_wf tr" "map_of (tr_conns tr) fd = Some conn" "[] \<notin> set pieces"
  defines "stream \<equiv> rb_contents (tc_rxRing conn) @ concat pieces"
  assumes "65536 \<le> length stream" "65520 < packet_blen stream"
  shows "\<exists>tr' rs'. tcp_receive_loop fd tr (map RBytes pieces) = Some (tr', rs') \<and>
    map_of (tr_conns tr') fd = None \<and> fd \<in> set (tr_closed tr') \<and>
    map worker_list (tr_workers tr') = map worker_list (tr_workers tr)"
proof -
  have ring: "tcp_ring fd tr = Some (tc_rxRing conn)" using assms(2) by (simp add: tcp_ring_def)
  have cap: "rb_cap (tc_rxRing conn) = 65536"
    using tcp_wf_conn[OF assms(1,2)] by (simp add: conn_wf_def TCP_MAX_RX_BUFFER_SIZE_def)
  from tcp_rx.pieces_fill[OF assms(1) ring assms(3)] assms(5,6) cap obtain t r rs' where t:
    "tcp_receive_loop fd tr (map RBytes pieces) = tcp_receive_loop fd t rs'" "tcp_ring fd t = Some r"
    "rb_writeLen r = 0" "tcp_delivered fd tr t []" unfolding stream_def by auto
  from t(2) obtain c where c: "map_of (tr_conns t) fd = Some c" "r = tc_rxRing c" by (auto simp: tcp_ring_def)
  from t(4) have "map worker_list (tr_workers t) = map worker_list (tr_workers tr)"
    by (auto simp: tcp_delivered_def rx_delivered_def map_update) (metis list_update_id nth_map)
  with t(1,3) c show ?thesis
    by (simp add: tcp_loop_full tcp_closeConnection_def)
qed

theorem tcp_oversized_closes_witness:
  "\<exists>tr tr' rs'. tcp_receive_loop 5 tr [RBytes ([1, 0x10, 0xFF, 0xFF] @ replicate 65532 0)] = Some (tr', rs') \<and>
    map_of (tr_conns tr) 5 \<noteq> None \<and> map_of (tr_conns tr') 5 = None"
proof -
  obtain tr conn where d: "tcp_inv tr" "map_of (tr_conns tr) 5 = Some conn" "rb_readable (tc_rxRing conn) = 0"
    by (rule demo_conn)
  have e: "rb_contents (tc_rxRing conn) = []" using d(3) by (simp add: rb_readable_def)
  define p :: bytes where "p = [1, 0x10, 0xFF, 0xFF] @ replicate 65532 0"
  have wf: "tcp_wf tr" using d(1) by (simp add: tcp_inv_def)
  have p: "length p = 65536" "p \<noteq> []" by (simp_all add: p_def)
  have h: "take 2 (drop 2 p) = [0xFF, 0xFF]" by (simp add: p_def)
  have "unat (be_val [0xFF, 0xFF] :: u16) = 65535" by (simp add: be_val_def)
  then have "packet_blen p = 65535" unfolding packet_blen_def h .
  with tcp_oversized_closes[OF wf d(2), of "[p]"] p d(2) show ?thesis
    unfolding e p_def[symmetric] by auto
qed

end
