(* ===== verification/Ipc.thy ===== *)
theory Ipc
  imports TcpProps
begin

text \<open>
  \<open>serverd/ipc\<close>: the server through which the management daemon asks for statistics. Messages
  (\<open>IpcMessage\<close>) are byte strings with a two-byte length; \<open>IpcReactor\<close> reads them from a Unix socket
  and deals them out to the \<open>IpcWorker\<close>s in turn; a worker lets the command handler answer and queues
  the reply. The handler is an argument here; \<open>IpcCommandHandler\<close> is in theory \<open>Control\<close>.
\<close>

subsection \<open>IpcMessage\<close>

record IpcMessage =
  im_fd :: fd
  im_payload :: bytes

definition im_bodyLen :: "bytes \<Rightarrow> u16" where
  "im_bodyLen payload =
     (if length payload < IPC_HEADER_SIZE then 0
      else push_bit 8 (ucast (payload ! 0)) OR ucast (payload ! 1))"

text \<open>\<open>False\<close> stands for the exception.\<close>

definition im_validate :: "bytes \<Rightarrow> bool" where
  "im_validate payload =
     (if length payload < IPC_HEADER_SIZE then False
      else if length payload \<noteq> unat (im_bodyLen payload) + IPC_HEADER_SIZE then False else True)"

text \<open>No caller catches the exception: in the reactor's and the workers' threads it ends the process.\<close>

definition mk_IpcMessage :: "fd \<Rightarrow> bytes \<Rightarrow> IpcMessage option" where
  "mk_IpcMessage fd frame = (if im_validate frame then Some \<lparr>im_fd = fd, im_payload = frame\<rparr> else None)"

definition im_body :: "IpcMessage \<Rightarrow> bytes" where
  "im_body msg = (if length (im_payload msg) \<le> IPC_HEADER_SIZE then [] else drop IPC_HEADER_SIZE (im_payload msg))"

definition buildFrame :: "bytes \<Rightarrow> bytes" where
  "buildFrame body =
     (let body = (if length body > 0xFFFF then take 0xFFFF body else body);
          len = (of_nat (length body) :: u16)
      in [ucast (drop_bit 8 len AND 0xFF), ucast (len AND 0xFF)] @ take (unat len) body)"

subsection \<open>Transmit queue and workers\<close>

record IpcPort =
  ip_queue :: "IpcMessage MpscQueue"
  ip_wakeups :: nat

definition IpcReactor_enqueueTx :: "IpcPort \<Rightarrow> IpcMessage option \<Rightarrow> IpcPort option" where
  "IpcReactor_enqueueTx port msg =
     (case msg of
        None \<Rightarrow> Some port
      | Some m \<Rightarrow>
          do {
            (q, ok) \<leftarrow> mpsc_enqueue (ip_queue port) m;
            Some (if ok then port\<lparr>ip_queue := q, ip_wakeups := ip_wakeups port + 1\<rparr> else port\<lparr>ip_queue := q\<rparr>)
          })"

record IpcWorker =
  iw_queue :: "IpcMessage SpscQueue"
  iw_wakeups :: nat

definition mk_IpcWorker :: "IpcWorker option" where
  "mk_IpcWorker = map_option (\<lambda>q. \<lparr>iw_queue = q, iw_wakeups = 0\<rparr>) (spsc_new 65536)"

definition IpcWorker_enqueueRx :: "IpcWorker \<Rightarrow> IpcMessage option \<Rightarrow> IpcWorker option" where
  "IpcWorker_enqueueRx w msg =
     (case msg of
        None \<Rightarrow> Some w
      | Some m \<Rightarrow>
          do {
            (q, ok) \<leftarrow> spsc_enqueue (iw_queue w) m;
            Some (if ok then w\<lparr>iw_queue := q, iw_wakeups := iw_wakeups w + 1\<rparr> else w\<lparr>iw_queue := q\<rparr>)
          })"

text \<open>The body of the loop of \<open>drainRxQueue\<close>; the state belongs to the handler.\<close>

definition ipc_answer ::
  "(bytes \<Rightarrow> 's \<Rightarrow> ('s \<times> bytes) option) \<Rightarrow> IpcMessage \<Rightarrow> 's \<times> IpcPort \<Rightarrow> ('s \<times> IpcPort) option" where
  "ipc_answer handle msg st =
     (case st of (s, port) \<Rightarrow>
        do {
          (s, respBody) \<leftarrow> handle (im_body msg) s;
          reply \<leftarrow> mk_IpcMessage (im_fd msg) (buildFrame respBody);
          port \<leftarrow> IpcReactor_enqueueTx port (Some reply);
          Some (s, port)
        })"

definition drainRxQueue ::
  "(bytes \<Rightarrow> 's \<Rightarrow> ('s \<times> bytes) option) \<Rightarrow> IpcWorker \<Rightarrow> 's \<times> IpcPort \<Rightarrow> (IpcWorker \<times> ('s \<times> IpcPort)) option" where
  "drainRxQueue handle w st =
     map_option (\<lambda>(q, st'). (w\<lparr>iw_queue := q\<rparr>, st')) (drain_loop spsc_dequeue (ipc_answer handle) (iw_queue w) st)"

definition processMessage ::
  "(bytes \<Rightarrow> 's \<Rightarrow> ('s \<times> bytes) option) \<Rightarrow> IpcWorker \<Rightarrow> 's \<times> IpcPort \<Rightarrow> (IpcWorker \<times> ('s \<times> IpcPort)) option" where
  "processMessage handle w st = drainRxQueue handle (w\<lparr>iw_wakeups := 0\<rparr>) st"

subsection \<open>The reactor's state\<close>

record IpcConn =
  ic_rxRing :: ByteRingBuffer
  ic_txRing :: ByteRingBuffer

definition mk_IpcConn :: "nat \<Rightarrow> nat \<Rightarrow> IpcConn" where
  "mk_IpcConn rxCap txCap = \<lparr>ic_rxRing = rb_new rxCap, ic_txRing = rb_new txCap\<rparr>"

record IpcReactor =
  ir_socketPath :: bytes
  ir_listenFd :: fd
  ir_epoll :: "(fd \<times> u32) list"
  ir_wakeupFd :: fd
  ir_port :: IpcPort
  ir_workers :: "IpcWorker list"
  ir_conns :: "(fd \<times> IpcConn) list"
  ir_rr :: u64
  ir_closed :: "fd list"
  ir_sent :: "(fd \<times> bytes) list"
  ir_unlinked :: nat

definition IPC_MAX_RX_BUFFER_SIZE :: nat where "IPC_MAX_RX_BUFFER_SIZE = 65536"
definition IPC_MAX_TX_BUFFER_SIZE :: nat where "IPC_MAX_TX_BUFFER_SIZE = 65536"

definition mk_IpcReactor :: "bytes \<Rightarrow> IpcWorker list \<Rightarrow> IpcReactor option" where
  "mk_IpcReactor socketPath workers =
     do {
       q \<leftarrow> mpsc_new 65536;
       if workers = [] then None
       else Some \<lparr>ir_socketPath = socketPath, ir_listenFd = - 1, ir_epoll = [], ir_wakeupFd = - 1,
         ir_port = \<lparr>ip_queue = q, ip_wakeups = 0\<rparr>, ir_workers = workers, ir_conns = [], ir_rr = 0,
         ir_closed = [], ir_sent = [], ir_unlinked = 0\<rparr>
     }"

definition ipc_closeConnection :: "fd \<Rightarrow> IpcReactor \<Rightarrow> IpcReactor" where
  "ipc_closeConnection fd r =
     r\<lparr>ir_epoll := epoll_del fd (ir_epoll r), ir_closed := ir_closed r @ [fd],
       ir_conns := AList.delete fd (ir_conns r)\<rparr>"

fun ipc_acceptConnection :: "unit accept_res list \<Rightarrow> IpcReactor \<Rightarrow> IpcReactor" where
  "ipc_acceptConnection [] r = r"
| "ipc_acceptConnection (AErr e # as) r = r"
| "ipc_acceptConnection (AConn fd u # as) r =
     ipc_acceptConnection as
       (r\<lparr>ir_conns := emplace fd (mk_IpcConn IPC_MAX_RX_BUFFER_SIZE IPC_MAX_TX_BUFFER_SIZE) (ir_conns r),
          ir_epoll := epoll_add fd (EPOLLIN OR EPOLLRDHUP) (ir_epoll r)\<rparr>)"

subsection \<open>Receiving\<close>

text \<open>A frame becomes a message for the next worker in turn; the counter wraps.\<close>

definition ipc_emit :: "fd \<Rightarrow> bytes \<Rightarrow> IpcReactor option \<Rightarrow> IpcReactor option" where
  "ipc_emit fd payload s =
     do {
       r \<leftarrow> s;
       if ir_workers r = [] then None
       else do {
         let idx = unat (ir_rr r) mod length (ir_workers r);
         let r = r\<lparr>ir_rr := ir_rr r + 1\<rparr>;
         msg \<leftarrow> mk_IpcMessage fd payload;
         w \<leftarrow> IpcWorker_enqueueRx (ir_workers r ! idx) (Some msg);
         Some (r\<lparr>ir_workers := (ir_workers r)[idx := w]\<rparr>)
       }
     }"

function ipc_receive_loop :: "fd \<Rightarrow> IpcReactor \<Rightarrow> recv_res list \<Rightarrow> (IpcReactor \<times> recv_res list) option" where
  "ipc_receive_loop fd r rs =
     (case map_of (ir_conns r) fd of
        None \<Rightarrow> Some (r, rs)
      | Some conn \<Rightarrow>
          (let writeLen = rb_writeLen (ic_rxRing conn) in
           if writeLen = 0 then Some (ipc_closeConnection fd r, rs)
           else
             (case recv writeLen rs of
                (RBytes bs, rs') \<Rightarrow>
                  (if bs = [] then Some (ipc_closeConnection fd r, rs')
                   else
                     (case absorb IpcFraming_tryExtractFrame (ic_rxRing conn) bs (ipc_emit fd) (Some r) of
                        Some (rx, Some r', ok) \<Rightarrow>
                          (let r' = r'\<lparr>ir_conns := AList.update fd (conn\<lparr>ic_rxRing := rx\<rparr>) (ir_conns r')\<rparr> in
                           if ok then ipc_receive_loop fd r' rs'
                           else Some (ipc_closeConnection fd r', rs'))
                      | _ \<Rightarrow> None))
              | (RErr e, rs') \<Rightarrow>
                  (if e = EINTR then ipc_receive_loop fd r rs'
                   else if e = EAGAIN then Some (r, rs')
                   else Some (ipc_closeConnection fd r, rs')))))"
  by pat_completeness auto
termination
  by (relation "measure (\<lambda>(fd, r, rs). sum_list (map res_size rs))")
    (auto dest!: sym[of _ "recv _ _"] intro: read_size read_err_size)

declare ipc_receive_loop.simps [simp del]

definition ipc_receive :: "fd \<Rightarrow> recv_res list \<Rightarrow> IpcReactor \<Rightarrow> IpcReactor option" where
  "ipc_receive fd rs r = map_option fst (ipc_receive_loop fd r rs)"

subsection \<open>Transmitting\<close>

text \<open>A connection is closed as soon as its ring is empty: one request, one reply.\<close>

fun ipc_flush_loop :: "fd \<Rightarrow> IpcConn \<Rightarrow> send_res list \<Rightarrow> IpcReactor \<Rightarrow> IpcReactor option" where
  "ipc_flush_loop fd conn ss r =
     (if rb_readable (ic_txRing conn) > 0 then
        do {
          data \<leftarrow> rb_load (ic_txRing conn) (rb_readLen (ic_txRing conn));
          case ss of
            [] \<Rightarrow> Some (r\<lparr>ir_epoll := epoll_mod fd (EPOLLIN OR EPOLLOUT OR EPOLLRDHUP) (ir_epoll r)\<rparr>)
          | SErr e # ss' \<Rightarrow>
              (if e = EAGAIN
               then Some (r\<lparr>ir_epoll := epoll_mod fd (EPOLLIN OR EPOLLOUT OR EPOLLRDHUP) (ir_epoll r)\<rparr>)
               else Some (ipc_closeConnection fd r))
          | SSent n # ss' \<Rightarrow>
              (let sent = min n (length data) in
               do {
                 tx \<leftarrow> rb_consume (ic_txRing conn) sent;
                 let conn' = conn\<lparr>ic_txRing := tx\<rparr>;
                 let r' = r\<lparr>ir_sent := ir_sent r @ [(fd, take sent data)],
                            ir_conns := AList.update fd conn' (ir_conns r)\<rparr>;
                 if sent < length data
                 then Some (r'\<lparr>ir_epoll := epoll_mod fd (EPOLLIN OR EPOLLOUT OR EPOLLRDHUP) (ir_epoll r')\<rparr>)
                 else ipc_flush_loop fd conn' ss' r'
               })
        }
      else Some (ipc_closeConnection fd r))"

declare ipc_flush_loop.simps [simp del]

definition ipc_flushTxBuffer :: "fd \<Rightarrow> send_res list \<Rightarrow> IpcReactor \<Rightarrow> IpcReactor option" where
  "ipc_flushTxBuffer fd ss r =
     (case map_of (ir_conns r) fd of
        None \<Rightarrow> Some r
      | Some conn \<Rightarrow>
          if rb_readable (ic_txRing conn) = 0 then Some r else ipc_flush_loop fd conn ss r)"

definition ipc_buffer_message :: "IpcMessage \<Rightarrow> IpcReactor \<times> fd list \<Rightarrow> (IpcReactor \<times> fd list) option" where
  "ipc_buffer_message msg s =
     (case s of (r, dirty) \<Rightarrow>
        (case map_of (ir_conns r) (im_fd msg) of
           None \<Rightarrow> Some (r, dirty)
         | Some conn \<Rightarrow>
             if rb_writable (ic_txRing conn) < length (im_payload msg) then Some (r, dirty)
             else do {
               (tx, n) \<leftarrow> rb_write (ic_txRing conn) (im_payload msg);
               Some (r\<lparr>ir_conns := AList.update (im_fd msg) (conn\<lparr>ic_txRing := tx\<rparr>) (ir_conns r)\<rparr>,
                     List.insert (im_fd msg) dirty)
             }))"

definition ipc_processTxQueue :: "(fd \<Rightarrow> send_res list) \<Rightarrow> IpcReactor \<Rightarrow> IpcReactor option" where
  "ipc_processTxQueue sends r =
     do {
       (q, msgs) \<leftarrow> mpsc_items (ip_queue (ir_port r));
       let r = r\<lparr>ir_port := (ir_port r)\<lparr>ip_queue := q\<rparr>\<rparr>;
       if msgs = [] then Some r
       else do {
         (r, dirty) \<leftarrow> ofold ipc_buffer_message msgs (r, []);
         ofold (\<lambda>fd. ipc_flushTxBuffer fd (sends fd)) dirty r
       }
     }"

subsection \<open>The event loop\<close>

record ipc_io =
  ii_accepts :: "unit accept_res list"
  ii_recvs :: "recv_res list"
  ii_sends :: "fd \<Rightarrow> send_res list"

definition ipc_handleEvent :: "ipc_io \<Rightarrow> fd \<Rightarrow> u32 \<Rightarrow> IpcReactor \<Rightarrow> IpcReactor option" where
  "ipc_handleEvent io fd ev r =
     (if fd = ir_wakeupFd r then ipc_processTxQueue (ii_sends io) (r\<lparr>ir_port := (ir_port r)\<lparr>ip_wakeups := 0\<rparr>\<rparr>)
      else if fd = ir_listenFd r then Some (ipc_acceptConnection (ii_accepts io) r)
      else if ev AND (EPOLLERR OR EPOLLHUP OR EPOLLRDHUP) \<noteq> 0 then Some (ipc_closeConnection fd r)
      else do {
        r \<leftarrow> (if ev AND EPOLLIN \<noteq> 0 then ipc_receive fd (ii_recvs io) r else Some r);
        if ev AND EPOLLOUT \<noteq> 0 then ipc_flushTxBuffer fd (ii_sends io fd) r else Some r
      })"

text \<open>
  What happens to a running server: the reactor's loop takes an event from epoll, or worker \<open>i\<close> takes
  the messages off its queue, with a handler that answers each body \<open>b\<close> with \<open>resp b\<close>.
\<close>

datatype ipc_op = IpcEvent ipc_io fd u32 | IpcWork nat "bytes \<Rightarrow> bytes"

fun ipc_step :: "ipc_op \<Rightarrow> IpcReactor \<Rightarrow> IpcReactor option" where
  "ipc_step (IpcEvent io fd ev) r = ipc_handleEvent io fd ev r"
| "ipc_step (IpcWork i resp) r =
     (if i < length (ir_workers r)
      then do {
        (w, (u, port)) \<leftarrow> processMessage (\<lambda>body u. Some (u, resp body)) (ir_workers r ! i) ((), ir_port r);
        Some (r\<lparr>ir_workers := (ir_workers r)[i := w], ir_port := port\<rparr>)
      }
      else Some r)"

definition ipc_run :: "ipc_op list \<Rightarrow> IpcReactor \<Rightarrow> IpcReactor option" where
  "ipc_run ops r = ofold ipc_step ops r"

subsection \<open>Start and stop\<close>

definition ipc_createSocket :: "start_io \<Rightarrow> IpcReactor \<Rightarrow> IpcReactor \<times> bool" where
  "ipc_createSocket st r =
     (let r = r\<lparr>ir_unlinked := ir_unlinked r + 1, ir_listenFd := st_socket st\<rparr> in
      if ir_listenFd r < 0 then (r, False) else if \<not> st_nonblock st then (r, False) else (r, True))"

text \<open>\<open>sun_path\<close> has 108 bytes.\<close>

definition ipc_bindAndListen :: "start_io \<Rightarrow> IpcReactor \<Rightarrow> bool" where
  "ipc_bindAndListen st r =
     (if length (ir_socketPath r) \<ge> 108 then False
      else if \<not> st_bind st then False else if \<not> st_listen st then False else True)"

definition ipc_init :: "start_io \<Rightarrow> IpcReactor \<Rightarrow> IpcReactor \<times> bool" where
  "ipc_init st r =
     (case ipc_createSocket st r of (r, ok) \<Rightarrow>
        if \<not> ok then (r, False) else if \<not> ipc_bindAndListen st r then (r, False) else (r, True))"

definition ipc_closeListen :: "IpcReactor \<Rightarrow> IpcReactor" where
  "ipc_closeListen r =
     (if ir_listenFd r \<ge> 0 then r\<lparr>ir_closed := ir_closed r @ [ir_listenFd r], ir_listenFd := - 1\<rparr> else r)"

definition ipc_shutdown :: "IpcReactor \<Rightarrow> IpcReactor" where
  "ipc_shutdown r =
     (let r = r\<lparr>ir_closed := ir_closed r @ map fst (ir_conns r), ir_conns := []\<rparr>;
          r = ipc_closeListen (r\<lparr>ir_epoll := []\<rparr>)
      in r\<lparr>ir_unlinked := ir_unlinked r + 1\<rparr>)"

definition ipc_prepare :: "start_io \<Rightarrow> IpcReactor \<Rightarrow> IpcReactor \<times> bool" where
  "ipc_prepare st r =
     (case ipc_init st r of (r, ok) \<Rightarrow>
        if \<not> ok then (r, False)
        else
          (case st_epoll st of
             None \<Rightarrow> (ipc_closeListen r, False)
           | Some wakeup \<Rightarrow>
               (r\<lparr>ir_wakeupFd := wakeup,
                  ir_epoll := epoll_add (ir_listenFd r) EPOLLIN (epoll_add wakeup EPOLLIN (ir_epoll r))\<rparr>, True)))"

definition ipc_start :: "start_io \<Rightarrow> ipc_op list \<Rightarrow> IpcReactor \<Rightarrow> IpcReactor option" where
  "ipc_start st ops r =
     (case ipc_prepare st r of (r, ok) \<Rightarrow>
        if ok then map_option ipc_shutdown (ipc_run ops r) else Some r)"

end
