(* ===== verification/IpcProps.thy ===== *)
theory IpcProps
  imports Ipc
begin

text \<open>
  Properties of the IPC server: its loop and its workers never fail, replies are never stuck, and a
  request is answered.
\<close>

subsection \<open>Messages\<close>

lemma im_bodyLen_frame: "2 \<le> length f \<Longrightarrow> unat (im_bodyLen f) = ipc_blen f"
  using ipc_header_value[of f] by (simp add: im_bodyLen_def IPC_HEADER_SIZE_def ipc_blen_def)

lemma im_validate_frame: "im_validate f \<longleftrightarrow> ipc_frames.is_frame f"
  using im_bodyLen_frame[of f] by (auto simp: im_validate_def IPC_HEADER_SIZE_def)

lemma buildFrame_eq:
  "buildFrame body = be_bytes 2 (of_nat (length (take 65535 body)) :: u16) @ take 65535 body"
proof -
  let ?b = "take 65535 body"
  have b: "(if length body > 0xFFFF then take 0xFFFF body else body) = ?b" by simp
  have u: "unat (of_nat (length ?b) :: u16) = length ?b" by (simp add: unat_of_nat)
  have ff: "(0xFF :: u16) = mask 8" by (simp add: mask_eq_exp_minus_1)
  have m: "ucast (w AND 0xFF) = (ucast w :: u8)" for w :: u16
    unfolding ff by (rule bit_word_eqI) (auto simp: bit_simps)
  show ?thesis unfolding buildFrame_def b Let_def u m be_bytes_16 by (simp add: min_def)
qed

lemma buildFrame_frame: "ipc_frames.is_frame (buildFrame body)"
proof -
  let ?l = "of_nat (length (take 65535 body)) :: u16"
  have "take 2 (buildFrame body) = be_bytes 2 ?l" by (simp add: buildFrame_eq)
  then have "ipc_blen (buildFrame body) = length (take 65535 body)"
    by (simp add: ipc_blen_def unat_of_nat)
  then show ?thesis by (simp add: buildFrame_eq)
qed

lemma mk_IpcMessage_frame: "ipc_frames.is_frame f \<Longrightarrow> mk_IpcMessage fd f = Some \<lparr>im_fd = fd, im_payload = f\<rparr>"
  by (simp add: mk_IpcMessage_def im_validate_frame)

lemma mk_IpcMessage_buildFrame:
  "mk_IpcMessage fd (buildFrame body) = Some \<lparr>im_fd = fd, im_payload = buildFrame body\<rparr>"
  by (rule mk_IpcMessage_frame) (rule buildFrame_frame)

lemma im_body_buildFrame: "im_body \<lparr>im_fd = fd, im_payload = buildFrame body\<rparr> = take 65535 body"
  by (auto simp: im_body_def buildFrame_eq IPC_HEADER_SIZE_def min_def split: if_splits)

subsection \<open>Invariant\<close>

definition iw_wf :: "IpcWorker \<Rightarrow> bool" where
  "iw_wf w \<longleftrightarrow> spsc_wf (iw_queue w)"

definition iw_list :: "IpcWorker \<Rightarrow> IpcMessage list" where
  "iw_list w = spsc_list (iw_queue w)"

definition iw_room :: "IpcWorker \<Rightarrow> bool" where
  "iw_room w \<longleftrightarrow> length (iw_list w) < unat (sq_capacity (iw_queue w))"

definition ip_wf :: "IpcPort \<Rightarrow> bool" where
  "ip_wf port \<longleftrightarrow> mpsc_wf (ip_queue port)"

definition ip_list :: "IpcPort \<Rightarrow> IpcMessage list" where
  "ip_list port = mpsc_list (ip_queue port)"

definition ic_wf :: "IpcConn \<Rightarrow> bool" where
  "ic_wf c \<longleftrightarrow> rb_wf (ic_rxRing c) \<and> rb_wf (ic_txRing c) \<and> rb_cap (ic_rxRing c) = 65536 \<and> rb_cap (ic_txRing c) = 65536"

definition ipc_wf :: "IpcReactor \<Rightarrow> bool" where
  "ipc_wf r \<longleftrightarrow> um_wf (ir_conns r) \<and> (\<forall>fd c. map_of (ir_conns r) fd = Some c \<longrightarrow> ic_wf c) \<and>
     ir_workers r \<noteq> [] \<and> list_all iw_wf (ir_workers r) \<and> ip_wf (ir_port r)"

lemma ipc_wf_conn: "ipc_wf r \<Longrightarrow> map_of (ir_conns r) fd = Some c \<Longrightarrow> ic_wf c"
  by (simp add: ipc_wf_def)

lemma ipc_wf_close: "ipc_wf r \<Longrightarrow> ipc_wf (ipc_closeConnection fd r)"
  by (auto simp: ipc_wf_def ipc_closeConnection_def split: if_splits)

lemma ipc_wf_update: "ipc_wf r \<Longrightarrow> ic_wf c \<Longrightarrow> ipc_wf (r\<lparr>ir_conns := AList.update fd c (ir_conns r)\<rparr>)"
  by (auto simp: ipc_wf_def split: if_splits)

subsection \<open>Receiving is reading a stream\<close>

text \<open>\<open>ipc_deal\<close> hands one frame to the worker whose turn it is.\<close>

definition ipc_deal :: "fd \<Rightarrow> bytes \<Rightarrow> IpcReactor \<Rightarrow> IpcReactor option" where
  "ipc_deal fd f r = ipc_emit fd f (Some r)"

lemma ipc_emit_fold: "fold (ipc_emit fd) fs (Some r) = ofold (ipc_deal fd) fs r"
proof (induction fs arbitrary: r)
  case (Cons f fs)
  have "fold (ipc_emit fd) fs None = None" by (induction fs) (simp_all add: ipc_emit_def)
  with Cons show ?case by (cases "ipc_deal fd f r") (simp_all add: ipc_deal_def)
qed simp

lemma ipc_deal_conns:
  "ipc_deal fd f (r\<lparr>ir_conns := cs\<rparr>) = map_option (\<lambda>r'. r'\<lparr>ir_conns := cs\<rparr>) (ipc_deal fd f r)"
  by (cases r) (simp add: ipc_deal_def ipc_emit_def Let_def map_conv_bind_option bind_assoc)

lemma ipc_deals_keep_conns: "ofold (ipc_deal fd) fs r = Some r' \<Longrightarrow> ir_conns r' = ir_conns r"
proof (induction fs arbitrary: r)
  case (Cons f fs)
  have "ipc_deal fd f r = Some r1 \<Longrightarrow> ir_conns r1 = ir_conns r" for r1
    by (auto simp: ipc_deal_def ipc_emit_def Let_def split: if_splits bind_splits)
  with Cons show ?case by (auto split: bind_splits)
qed simp

lemma ipc_deals_conns:
  "ofold (ipc_deal fd) fs (r\<lparr>ir_conns := cs\<rparr>) = map_option (\<lambda>r'. r'\<lparr>ir_conns := cs\<rparr>) (ofold (ipc_deal fd) fs r)"
proof (induction fs arbitrary: r)
  case (Cons f fs)
  then show ?case by (cases "ipc_deal fd f r") (simp_all add: ipc_deal_conns)
qed simp

text \<open>What dealing a frame does: one message more for one worker, unless its queue is full.\<close>

lemma ipc_deal_spec:
  assumes "ipc_wf r" "ipc_frames.is_frame f"
  defines "i \<equiv> unat (ir_rr r) mod length (ir_workers r)"
  shows "\<exists>w. ipc_deal fd f r = Some (r\<lparr>ir_rr := ir_rr r + 1, ir_workers := (ir_workers r)[i := w]\<rparr>) \<and>
    iw_wf w \<and> i < length (ir_workers r) \<and>
    iw_list w = (if iw_room (ir_workers r ! i) then iw_list (ir_workers r ! i) @ [\<lparr>im_fd = fd, im_payload = f\<rparr>]
      else iw_list (ir_workers r ! i))"
proof -
  let ?w = "ir_workers r ! i" and ?m = "\<lparr>im_fd = fd, im_payload = f\<rparr>"
  have i: "i < length (ir_workers r)" "ir_workers r \<noteq> []" using assms(1) by (auto simp: ipc_wf_def i_def)
  then have "iw_wf ?w" using assms(1) by (simp add: ipc_wf_def list_all_length)
  with spsc_enqueue_wf[of "iw_queue ?w" ?m] obtain q where q: "spsc_enqueue (iw_queue ?w) ?m = Some (q, iw_room ?w)"
    "spsc_wf q" "spsc_list q = (if iw_room ?w then iw_list ?w @ [?m] else iw_list ?w)"
    by (auto simp: iw_wf_def iw_room_def iw_list_def)
  define w where "w = (if iw_room ?w then ?w\<lparr>iw_queue := q, iw_wakeups := iw_wakeups ?w + 1\<rparr> else ?w\<lparr>iw_queue := q\<rparr>)"
  have "IpcWorker_enqueueRx ?w (Some ?m) = Some w" using q(1) by (simp add: IpcWorker_enqueueRx_def w_def)
  moreover have "iw_queue w = q" by (simp add: w_def)
  ultimately show ?thesis using i q mk_IpcMessage_frame[OF assms(2), of fd]
    by (intro exI[of _ w]) (simp add: ipc_deal_def ipc_emit_def Let_def iw_wf_def iw_list_def i_def)
qed

lemma ipc_deals_wf:
  assumes "ipc_wf r" "\<forall>f \<in> set fs. ipc_frames.is_frame f"
  shows "\<exists>rr ws. ofold (ipc_deal fd) fs r = Some (r\<lparr>ir_rr := rr, ir_workers := ws\<rparr>) \<and>
    ipc_wf (r\<lparr>ir_rr := rr, ir_workers := ws\<rparr>)"
  using assms
proof (induction fs arbitrary: r)
  case Nil
  then show ?case by (intro exI[of _ "ir_rr r"] exI[of _ "ir_workers r"]) simp
next
  case (Cons f fs)
  then have f: "ipc_frames.is_frame f" by simp
  let ?i = "unat (ir_rr r) mod length (ir_workers r)"
  from ipc_deal_spec[OF Cons.prems(1) f, of fd] obtain w where w:
    "ipc_deal fd f r = Some (r\<lparr>ir_rr := ir_rr r + 1, ir_workers := (ir_workers r)[?i := w]\<rparr>)" "iw_wf w" by blast
  let ?r = "r\<lparr>ir_rr := ir_rr r + 1, ir_workers := (ir_workers r)[?i := w]\<rparr>"
  have "ipc_wf ?r" using Cons.prems(1) w(2)
    by (auto simp: ipc_wf_def list_all_iff dest: set_update_subset_insert[THEN subsetD])
  with Cons.IH[of ?r] Cons.prems(2) obtain rr ws where
    "ofold (ipc_deal fd) fs ?r = Some (?r\<lparr>ir_rr := rr, ir_workers := ws\<rparr>)" "ipc_wf (?r\<lparr>ir_rr := rr, ir_workers := ws\<rparr>)"
    by auto
  with w(1) show ?case by (intro exI[of _ rr] exI[of _ ws]) simp
qed

definition ipc_delivered :: "fd \<Rightarrow> IpcReactor \<Rightarrow> IpcReactor \<Rightarrow> bytes list \<Rightarrow> bool" where
  "ipc_delivered fd r r' fs \<longleftrightarrow>
     (\<exists>conn rx t. map_of (ir_conns r) fd = Some conn \<and> ofold (ipc_deal fd) fs r = Some t \<and> ir_conns t = ir_conns r \<and>
        r' = t\<lparr>ir_conns := AList.update fd (conn\<lparr>ic_rxRing := rx\<rparr>) (ir_conns r)\<rparr>)"

lemma ipc_delivered_none: "map_of (ir_conns r) fd = Some conn \<Longrightarrow> ipc_delivered fd r r []"
  unfolding ipc_delivered_def
  by (intro exI[of _ conn] exI[of _ "ic_rxRing conn"] exI[of _ r]) (simp add: update_same)

lemma ipc_delivered_trans:
  assumes "ipc_delivered fd r r' fs" "ipc_delivered fd r' r'' gs"
  shows "ipc_delivered fd r r'' (fs @ gs)"
proof -
  from assms(1) obtain conn rx t where 1: "map_of (ir_conns r) fd = Some conn" "ofold (ipc_deal fd) fs r = Some t"
    "ir_conns t = ir_conns r" "r' = t\<lparr>ir_conns := AList.update fd (conn\<lparr>ic_rxRing := rx\<rparr>) (ir_conns r)\<rparr>"
    unfolding ipc_delivered_def by blast
  from assms(2) 1(4) obtain rx' t' where 2: "ofold (ipc_deal fd) gs r' = Some t'"
    "r'' = t'\<lparr>ir_conns := AList.update fd (conn\<lparr>ic_rxRing := rx'\<rparr>) (ir_conns r)\<rparr>"
    unfolding ipc_delivered_def by auto
  from 2(1) 1(4) obtain u where u: "ofold (ipc_deal fd) gs t = Some u"
    "t' = u\<lparr>ir_conns := AList.update fd (conn\<lparr>ic_rxRing := rx\<rparr>) (ir_conns r)\<rparr>"
    by (auto simp: ipc_deals_conns)
  have "ir_conns u = ir_conns r" using ipc_deals_keep_conns[OF u(1)] 1(3) by simp
  with 1 2 u show ?thesis unfolding ipc_delivered_def
    by (intro exI[of _ conn] exI[of _ rx'] exI[of _ u]) (simp add: ofold_append)
qed

text \<open>The branches of one turn of the receive loop.\<close>

lemma ipc_loop_gone: "map_of (ir_conns r) fd = None \<Longrightarrow> ipc_receive_loop fd r rs = Some (r, rs)"
  by (simp add: ipc_receive_loop.simps[of fd r rs])

lemma ipc_loop_full:
  "map_of (ir_conns r) fd = Some conn \<Longrightarrow> rb_writeLen (ic_rxRing conn) = 0 \<Longrightarrow>
    ipc_receive_loop fd r rs = Some (ipc_closeConnection fd r, rs)"
  by (simp add: ipc_receive_loop.simps[of fd r rs])

lemma ipc_loop_err:
  "map_of (ir_conns r) fd = Some conn \<Longrightarrow> rb_writeLen (ic_rxRing conn) \<noteq> 0 \<Longrightarrow>
    recv (rb_writeLen (ic_rxRing conn)) rs = (RErr e, rs') \<Longrightarrow>
    ipc_receive_loop fd r rs =
      (if e = EINTR then ipc_receive_loop fd r rs'
       else if e = EAGAIN then Some (r, rs') else Some (ipc_closeConnection fd r, rs'))"
  by (simp add: ipc_receive_loop.simps[of fd r rs])

lemma ipc_loop_eof:
  "map_of (ir_conns r) fd = Some conn \<Longrightarrow> rb_writeLen (ic_rxRing conn) \<noteq> 0 \<Longrightarrow>
    recv (rb_writeLen (ic_rxRing conn)) rs = (RBytes [], rs') \<Longrightarrow>
    ipc_receive_loop fd r rs = Some (ipc_closeConnection fd r, rs')"
  by (simp add: ipc_receive_loop.simps[of fd r rs])

lemma ipc_loop_bytes:
  "map_of (ir_conns r) fd = Some conn \<Longrightarrow> rb_writeLen (ic_rxRing conn) \<noteq> 0 \<Longrightarrow>
    recv (rb_writeLen (ic_rxRing conn)) rs = (RBytes bs, rs') \<Longrightarrow> bs \<noteq> [] \<Longrightarrow>
    absorb IpcFraming_tryExtractFrame (ic_rxRing conn) bs (ipc_emit fd) (Some r) = Some (rx, Some r', True) \<Longrightarrow>
    ipc_receive_loop fd r rs = ipc_receive_loop fd
      (r'\<lparr>ir_conns := AList.update fd (conn\<lparr>ic_rxRing := rx\<rparr>) (ir_conns r')\<rparr>) rs'"
  by (simp add: ipc_receive_loop.simps[of fd r rs])

definition ipc_ring :: "fd \<Rightarrow> IpcReactor \<Rightarrow> ByteRingBuffer option" where
  "ipc_ring fd r = map_option ic_rxRing (map_of (ir_conns r) fd)"

definition ipc_ends :: "fd \<Rightarrow> IpcReactor \<Rightarrow> IpcReactor \<Rightarrow> bool" where
  "ipc_ends fd r r' \<longleftrightarrow> r' = r \<or> r' = ipc_closeConnection fd r"

lemma ipc_turn:
  assumes wf: "ipc_wf r" and ring: "ipc_ring fd r = Some rg" and room: "rb_writeLen rg \<noteq> 0"
    and rd: "recv (rb_writeLen rg) rs = (RBytes bs, rs')" "bs \<noteq> []"
  shows "\<exists>r' rg'. ipc_receive_loop fd r rs = ipc_receive_loop fd r' rs' \<and> ipc_wf r' \<and>
    ipc_ring fd r' = Some rg' \<and> rb_cap rg' = rb_cap rg \<and>
    rb_contents rg' = snd (split_frames 2 ipc_blen (rb_contents rg @ bs)) \<and>
    ipc_delivered fd r r' (fst (split_frames 2 ipc_blen (rb_contents rg @ bs)))"
proof -
  let ?fs = "fst (split_frames 2 ipc_blen (rb_contents rg @ bs))"
  from ring obtain conn where conn: "map_of (ir_conns r) fd = Some conn" "rg = ic_rxRing conn"
    by (auto simp: ipc_ring_def)
  have c: "ic_wf conn" by (rule ipc_wf_conn[OF wf conn(1)])
  then have "rb_wf rg" by (simp add: ic_wf_def conn(2))
  from ipc_absorb[OF this rd(2) read_length[OF rd(1)], of "ipc_emit fd" "Some r"]
  obtain rx where rx: "absorb IpcFraming_tryExtractFrame rg bs (ipc_emit fd) (Some r) =
      Some (rx, ofold (ipc_deal fd) ?fs r, True)" "rb_wf rx" "rb_cap rx = rb_cap rg"
    "rb_contents rx = snd (split_frames 2 ipc_blen (rb_contents rg @ bs))" by (auto simp: ipc_emit_fold)
  from ipc_deals_wf[OF wf, of ?fs fd] ipc_frames.split_are_frames obtain rr ws where t:
    "ofold (ipc_deal fd) ?fs r = Some (r\<lparr>ir_rr := rr, ir_workers := ws\<rparr>)" "ipc_wf (r\<lparr>ir_rr := rr, ir_workers := ws\<rparr>)"
    by blast
  define t where "t = r\<lparr>ir_rr := rr, ir_workers := ws\<rparr>"
  define r' where "r' = t\<lparr>ir_conns := AList.update fd (conn\<lparr>ic_rxRing := rx\<rparr>) (ir_conns t)\<rparr>"
  have tc: "ir_conns t = ir_conns r" by (simp add: t_def)
  have "ipc_receive_loop fd r rs = ipc_receive_loop fd r' rs'"
    using ipc_loop_bytes[OF conn(1), of rs bs rs' rx t] room rd rx(1) t(1) by (simp add: conn(2) r'_def t_def)
  moreover have "ic_wf (conn\<lparr>ic_rxRing := rx\<rparr>)" using c rx(2,3) by (simp add: ic_wf_def conn(2))
  with t(2) have "ipc_wf r'" unfolding r'_def t_def by (rule ipc_wf_update)
  moreover have "ipc_delivered fd r r' ?fs"
    unfolding ipc_delivered_def using conn(1) t(1) tc unfolding r'_def t_def by auto
  ultimately show ?thesis using rx(3,4)
    by (intro exI[of _ r'] exI[of _ rx]) (simp add: r'_def ipc_ring_def)
qed

lemma ipc_other:
  assumes ring: "ipc_ring fd r = Some rg"
    and no: "rb_writeLen rg = 0 \<or> (\<forall>bs. fst (recv (rb_writeLen rg) rs) = RBytes bs \<longrightarrow> bs = [])"
  shows "(\<exists>r' rs'. ipc_receive_loop fd r rs = Some (r', rs') \<and> ipc_ends fd r r') \<or>
    (\<exists>rs'. sum_list (map res_size rs') < sum_list (map res_size rs) \<and>
      ipc_receive_loop fd r rs = ipc_receive_loop fd r rs')"
proof -
  from ring obtain conn where conn: "map_of (ir_conns r) fd = Some conn" "rg = ic_rxRing conn"
    by (auto simp: ipc_ring_def)
  show ?thesis
  proof (cases "rb_writeLen rg = 0")
    case True
    with conn show ?thesis by (auto simp: ipc_loop_full ipc_ends_def)
  next
    case False
    obtain res rs' where r: "recv (rb_writeLen rg) rs = (res, rs')" by fastforce
    show ?thesis
    proof (cases res)
      case (RErr e)
      with r read_err_size[of EAGAIN "rb_writeLen rg" rs e rs'] ipc_loop_err[OF conn(1), of rs e rs'] False conn(2)
      show ?thesis by (cases e) (auto simp: ipc_ends_def)
    next
      case (RBytes bs)
      with no False r have "bs = []" by simp
      with r RBytes ipc_loop_eof[OF conn(1), of rs rs'] False conn(2) show ?thesis by (auto simp: ipc_ends_def)
    qed
  qed
qed

interpretation ipc_rx: stream_receiver 2 ipc_blen EAGAIN "ipc_receive_loop fd" ipc_wf "ipc_ring fd"
  "ipc_delivered fd" "ipc_ends fd" for fd
proof (unfold_locales, goal_cases)
  case (1 s r)
  then show ?case by (auto simp: ipc_ring_def ic_wf_def dest!: ipc_wf_conn)
next
  case (2 s r rs bs rs')
  then show ?case by (rule ipc_turn)
next
  case (3 s r rs)
  then show ?case by (intro ipc_other)
next
  case (4 s r)
  then show ?case by (auto simp: ipc_ring_def ipc_loop_err)
next
  case (5 s r)
  then show ?case by (auto simp: ipc_ring_def intro: ipc_delivered_none)
next
  case (6 s s' fs s'' gs)
  then show ?case by (rule ipc_delivered_trans)
qed

lemma ipc_receive_loop_cases:
  assumes "ipc_wf r"
  obtains rs' where "ipc_receive_loop fd r rs = Some (r, rs')"
  | r' r'' fs rs' where "ipc_receive_loop fd r rs = Some (r'', rs')" "ipc_wf r'"
      "ipc_delivered fd r r' fs" "ipc_ends fd r' r''"
proof (cases "map_of (ir_conns r) fd")
  case None
  then show ?thesis using that(1) by (simp add: ipc_loop_gone)
next
  case (Some conn)
  then have "ipc_ring fd r = Some (ic_rxRing conn)" by (simp add: ipc_ring_def)
  from ipc_rx.loop_total[OF assms this, of rs] that(2) show ?thesis by blast
qed

subsection \<open>Transmitting\<close>

definition ipc_sent :: "IpcReactor \<Rightarrow> fd \<Rightarrow> bytes" where
  "ipc_sent r fd = concat (map snd (filter (\<lambda>(g, bs). g = fd) (ir_sent r)))"

text \<open>A handler that concerns the connection \<open>fd\<close> only.\<close>

definition ipc_at :: "fd \<Rightarrow> IpcReactor \<Rightarrow> IpcReactor \<Rightarrow> bool" where
  "ipc_at fd r r' \<longleftrightarrow>
     (\<forall>g. g \<noteq> fd \<longrightarrow> map_of (ir_conns r') g = map_of (ir_conns r) g \<and>
        map_of (ir_epoll r') g = map_of (ir_epoll r) g \<and> ipc_sent r' g = ipc_sent r g) \<and>
     ir_port r' = ir_port r \<and> ir_workers r' = ir_workers r \<and> ir_listenFd r' = ir_listenFd r \<and>
     ir_wakeupFd r' = ir_wakeupFd r"

lemma ipc_at_refl: "ipc_at fd r r"
  by (simp add: ipc_at_def)

lemma ipc_at_trans: "ipc_at fd r r' \<Longrightarrow> ipc_at fd r' r'' \<Longrightarrow> ipc_at fd r r''"
  by (simp add: ipc_at_def)

lemma ipc_at_close: "um_wf (ir_conns r) \<Longrightarrow> ipc_at fd r (ipc_closeConnection fd r)"
  by (simp add: ipc_at_def ipc_closeConnection_def epoll_del_def ipc_sent_def)

abbreviation ic_out :: "IpcConn \<Rightarrow> bytes" where
  "ic_out c \<equiv> rb_contents (ic_txRing c)"

definition only_again :: "send_res list \<Rightarrow> bool" where
  "only_again ss \<longleftrightarrow> (\<forall>e. SErr e \<in> set ss \<longrightarrow> e = EAGAIN)"

definition takes_all :: "nat \<Rightarrow> send_res list \<Rightarrow> bool" where
  "takes_all n ss \<longleftrightarrow> n \<le> length ss \<and> set ss \<subseteq> {SSent 65536}"

text \<open>
  The end of a flush of \<open>out\<close>: either the connection is closed, after everything was sent unless the
  socket failed, or what is left waits and epoll watches for writability.
\<close>

definition ipc_flushed :: "fd \<Rightarrow> bytes \<Rightarrow> send_res list \<Rightarrow> IpcReactor \<Rightarrow> IpcReactor \<Rightarrow> bool" where
  "ipc_flushed fd out ss r r' \<longleftrightarrow>
     (case map_of (ir_conns r') fd of
        None \<Rightarrow> map_of (ir_epoll r') fd = None \<and> prefix (ipc_sent r' fd) (ipc_sent r fd @ out) \<and>
          (only_again ss \<longrightarrow> ipc_sent r' fd = ipc_sent r fd @ out) \<and> fd \<in> set (ir_closed r')
      | Some c \<Rightarrow> ic_out c \<noteq> [] \<and> map_of (ir_epoll r') fd = Some (EPOLLIN OR EPOLLOUT OR EPOLLRDHUP) \<and>
          ipc_sent r' fd @ ic_out c = ipc_sent r fd @ out \<and> \<not> takes_all (length out) ss)"

lemma ipc_flush_done: "rb_readable (ic_txRing conn) = 0 \<Longrightarrow> ipc_flush_loop fd conn ss r = Some (ipc_closeConnection fd r)"
  by (simp add: ipc_flush_loop.simps[of fd conn ss r])

lemma ipc_flush_blocked:
  assumes "rb_readable (ic_txRing conn) > 0" "rb_load (ic_txRing conn) (rb_readLen (ic_txRing conn)) = Some data"
  shows "ipc_flush_loop fd conn [] r =
      Some (r\<lparr>ir_epoll := epoll_mod fd (EPOLLIN OR EPOLLOUT OR EPOLLRDHUP) (ir_epoll r)\<rparr>)"
    and "ipc_flush_loop fd conn (SErr e # ss) r =
      Some (if e = EAGAIN then r\<lparr>ir_epoll := epoll_mod fd (EPOLLIN OR EPOLLOUT OR EPOLLRDHUP) (ir_epoll r)\<rparr>
            else ipc_closeConnection fd r)"
  using assms by (simp_all add: ipc_flush_loop.simps[of fd conn])

lemma ipc_flush_sent:
  assumes "rb_readable (ic_txRing conn) > 0" "rb_load (ic_txRing conn) (rb_readLen (ic_txRing conn)) = Some data"
    "rb_consume (ic_txRing conn) (min n (length data)) = Some tx"
    "r' = r\<lparr>ir_sent := ir_sent r @ [(fd, take (min n (length data)) data)],
            ir_conns := AList.update fd (conn\<lparr>ic_txRing := tx\<rparr>) (ir_conns r)\<rparr>"
  shows "ipc_flush_loop fd conn (SSent n # ss) r =
    (if min n (length data) < length data
     then Some (r'\<lparr>ir_epoll := epoll_mod fd (EPOLLIN OR EPOLLOUT OR EPOLLRDHUP) (ir_epoll r')\<rparr>)
     else ipc_flush_loop fd (conn\<lparr>ic_txRing := tx\<rparr>) ss r')"
  using assms(1-3) by (auto simp: ipc_flush_loop.simps[of fd conn "SSent n # ss" r] assms(4) Let_def)

lemma ipc_flushed_blocked:
  assumes "map_of (ir_conns r) fd = Some conn" "map_of (ir_epoll r) fd \<noteq> None" "ic_out conn \<noteq> []"
    "\<not> takes_all (length (ic_out conn)) ss"
  shows "ipc_flushed fd (ic_out conn) ss r (r\<lparr>ir_epoll := epoll_mod fd (EPOLLIN OR EPOLLOUT OR EPOLLRDHUP) (ir_epoll r)\<rparr>)"
    and "ipc_at fd r (r\<lparr>ir_epoll := epoll_mod fd (EPOLLIN OR EPOLLOUT OR EPOLLRDHUP) (ir_epoll r)\<rparr>)"
  using assms by (auto simp: ipc_flushed_def ipc_at_def map_of_epoll_mod ipc_sent_def)

lemma ipc_flushed_closed:
  assumes "um_wf (ir_conns r)" "out \<noteq> [] \<Longrightarrow> \<not> only_again ss"
  shows "ipc_flushed fd out ss r (ipc_closeConnection fd r)"
  using assms by (cases "out = []") (auto simp: ipc_flushed_def ipc_closeConnection_def epoll_del_def ipc_sent_def)

lemma ipc_flush_empty:
  assumes "ipc_wf r" "ic_out conn = []"
  shows "\<exists>r'. ipc_flush_loop fd conn ss r = Some r' \<and> ipc_wf r' \<and> ipc_at fd r r' \<and>
    ipc_flushed fd (ic_out conn) ss r r'"
proof -
  have um: "um_wf (ir_conns r)" using assms(1) by (simp add: ipc_wf_def)
  have "rb_readable (ic_txRing conn) = 0" using assms(2) by (simp add: rb_readable_def)
  with ipc_flush_done ipc_wf_close[OF assms(1)] ipc_at_close[OF um] ipc_flushed_closed[OF um, of "[]"]
  show ?thesis unfolding assms(2) by blast
qed

lemma ipc_flush_err:
  assumes "ipc_wf r" "map_of (ir_conns r) fd = Some conn" "map_of (ir_epoll r) fd \<noteq> None" "ic_out conn \<noteq> []"
  shows "\<exists>r'. ipc_flush_loop fd conn (SErr e # ss) r = Some r' \<and> ipc_wf r' \<and> ipc_at fd r r' \<and>
    ipc_flushed fd (ic_out conn) (SErr e # ss) r r'"
proof -
  have um: "um_wf (ir_conns r)" and c: "rb_wf (ic_txRing conn)" "0 < m_size (ic_txRing conn)"
    using assms by (auto simp: ipc_wf_def ic_wf_def)
  from c obtain n where "rb_load (ic_txRing conn) (rb_readLen (ic_txRing conn)) = Some (take n (ic_out conn))"
    by (rule ring_send[of _ 0])
  with c(2) have e: "ipc_flush_loop fd conn (SErr e # ss) r =
      Some (if e = EAGAIN then r\<lparr>ir_epoll := epoll_mod fd (EPOLLIN OR EPOLLOUT OR EPOLLRDHUP) (ir_epoll r)\<rparr>
            else ipc_closeConnection fd r)"
    by (intro ipc_flush_blocked(2)) (auto simp: rb_readable_def)
  have "\<not> takes_all (length (ic_out conn)) (SErr e # ss)" by (simp add: takes_all_def)
  from ipc_flushed_blocked[OF assms(2-4) this] ipc_flushed_closed[OF um, of "ic_out conn" "SErr e # ss" fd]
    ipc_wf_close[OF assms(1), of fd] ipc_at_close[OF um, of fd] assms(1) show ?thesis
    unfolding e by (auto simp: only_again_def ipc_wf_def)
qed

lemma ipc_flush_more:
  assumes "ipc_wf r" "map_of (ir_conns r) fd = Some conn" "map_of (ir_epoll r) fd \<noteq> None" "ic_out conn \<noteq> []"
    and IH: "\<And>r conn. ipc_wf r \<Longrightarrow> map_of (ir_conns r) fd = Some conn \<Longrightarrow> map_of (ir_epoll r) fd \<noteq> None \<Longrightarrow>
      \<exists>r'. ipc_flush_loop fd conn ss r = Some r' \<and> ipc_wf r' \<and> ipc_at fd r r' \<and> ipc_flushed fd (ic_out conn) ss r r'"
  shows "\<exists>r'. ipc_flush_loop fd conn (SSent k # ss) r = Some r' \<and> ipc_wf r' \<and> ipc_at fd r r' \<and>
    ipc_flushed fd (ic_out conn) (SSent k # ss) r r'"
proof -
  have c: "ic_wf conn" "rb_wf (ic_txRing conn)" "0 < m_size (ic_txRing conn)"
    using assms(1,2,4) by (auto simp: ipc_wf_def ic_wf_def)
  from c(2,3) obtain n tx where n: "rb_load (ic_txRing conn) (rb_readLen (ic_txRing conn)) = Some (take n (ic_out conn))"
    "0 < n" "n \<le> m_size (ic_txRing conn)" "rb_consume (ic_txRing conn) (min k n) = Some tx" "rb_wf tx"
    "rb_cap tx = rb_cap (ic_txRing conn)" "rb_contents tx = drop (min k n) (ic_out conn)" by (rule ring_send[of _ k])
  have ln: "length (take n (ic_out conn)) = n" using n(3) by simp
  define r1 where "r1 = r\<lparr>ir_sent := ir_sent r @ [(fd, take (min k n) (take n (ic_out conn)))],
    ir_conns := AList.update fd (conn\<lparr>ic_txRing := tx\<rparr>) (ir_conns r)\<rparr>"
  let ?c = "conn\<lparr>ic_txRing := tx\<rparr>"
  have w0: "ipc_wf (r\<lparr>ir_sent := ir_sent r @ [(fd, take (min k n) (take n (ic_out conn)))]\<rparr>)"
    using assms(1) by (simp add: ipc_wf_def)
  have "ic_wf ?c" using c(1) n(5,6) by (simp add: ic_wf_def)
  from ipc_wf_update[OF w0 this, of fd] have wf1: "ipc_wf r1" by (simp add: r1_def)
  have conn1: "map_of (ir_conns r1) fd = Some ?c" "map_of (ir_epoll r1) fd \<noteq> None"
    using assms(3) by (simp_all add: r1_def)
  have out1: "ipc_sent r1 fd @ ic_out ?c = ipc_sent r fd @ ic_out conn"
    using n(7) by (simp add: r1_def ipc_sent_def min.commute)
  have at1: "ipc_at fd r r1" by (simp add: r1_def ipc_sent_def ipc_at_def)
  note r1 = wf1 conn1 out1 at1
  have rd: "rb_readable (ic_txRing conn) > 0" using c(3) by (simp add: rb_readable_def)
  have cs: "rb_consume (ic_txRing conn) (min k (length (take n (ic_out conn)))) = Some tx" unfolding ln by (rule n(4))
  have r1': "r1 = r\<lparr>ir_sent := ir_sent r @ [(fd, take (min k (length (take n (ic_out conn)))) (take n (ic_out conn)))],
    ir_conns := AList.update fd ?c (ir_conns r)\<rparr>" unfolding ln r1_def ..
  have lt: "min k n < n \<longleftrightarrow> k < n" by auto
  have step: "ipc_flush_loop fd conn (SSent k # ss) r = (if k < n
      then Some (r1\<lparr>ir_epoll := epoll_mod fd (EPOLLIN OR EPOLLOUT OR EPOLLRDHUP) (ir_epoll r1)\<rparr>)
      else ipc_flush_loop fd (conn\<lparr>ic_txRing := tx\<rparr>) ss r1)"
    using ipc_flush_sent[OF rd n(1) cs r1', of ss] unfolding ln lt .
  show ?thesis
  proof (cases "k < n")
    case True
    let ?r = "r1\<lparr>ir_epoll := epoll_mod fd (EPOLLIN OR EPOLLOUT OR EPOLLRDHUP) (ir_epoll r1)\<rparr>"
    have "k < 65536" using True n(3) c(1,2) by (auto simp: ic_wf_def rb_wf_def)
    then have no: "\<not> takes_all m (SSent k # ss)" for m by (auto simp: takes_all_def)
    have ne: "ic_out ?c \<noteq> []" using True n(3,7) by auto
    have nt: "\<not> takes_all (length (ic_out ?c)) []" using ne by (simp add: takes_all_def)
    have f: "ipc_flushed fd (ic_out ?c) [] r1 ?r" "ipc_at fd r1 ?r"
      using ipc_flushed_blocked[OF r1(2,3) ne nt] by blast+
    have "map_of (ir_conns ?r) fd = Some ?c" using r1(2) by simp
    then have "ipc_flushed fd (ic_out conn) (SSent k # ss) r ?r"
      using f(1) r1(4) no unfolding ipc_flushed_def by simp
    moreover have "ipc_wf ?r" using r1(1) by (simp add: ipc_wf_def)
    ultimately show ?thesis using True ipc_at_trans[OF r1(5) f(2)] unfolding step by simp
  next
    case False
    from IH[OF r1(1-3)] obtain r' where r': "ipc_flush_loop fd ?c ss r1 = Some r'" "ipc_wf r'"
      "ipc_at fd r1 r'" "ipc_flushed fd (ic_out ?c) ss r1 r'" by blast
    have t: "takes_all (length (ic_out conn)) (SSent k # ss) \<Longrightarrow> takes_all (length (ic_out ?c)) ss"
      using n(2,3,7) False by (auto simp: takes_all_def min_def)
    have o: "only_again (SSent k # ss) = only_again ss" by (simp add: only_again_def)
    have "ipc_flushed fd (ic_out conn) (SSent k # ss) r r'"
      using r'(4) r1(4) t unfolding ipc_flushed_def o by (auto split: option.splits)
    with r' False ipc_at_trans[OF r1(5) r'(3)] show ?thesis unfolding step by simp
  qed
qed

lemma ipc_flush_loop_spec:
  assumes "ipc_wf r" "map_of (ir_conns r) fd = Some conn" "map_of (ir_epoll r) fd \<noteq> None"
  shows "\<exists>r'. ipc_flush_loop fd conn ss r = Some r' \<and> ipc_wf r' \<and> ipc_at fd r r' \<and>
    ipc_flushed fd (ic_out conn) ss r r'"
  using assms
proof (induction ss arbitrary: r conn)
  case Nil
  have c: "ic_wf conn" by (rule ipc_wf_conn[OF Nil(1,2)])
  show ?case
  proof (cases "ic_out conn = []")
    case True
    from ipc_flush_empty[OF Nil(1) this] show ?thesis .
  next
    case False
    with c have "rb_wf (ic_txRing conn)" "0 < m_size (ic_txRing conn)" by (auto simp: ic_wf_def)
    then obtain n where "rb_load (ic_txRing conn) (rb_readLen (ic_txRing conn)) = Some (take n (ic_out conn))"
      by (rule ring_send[of _ 0])
    moreover have "\<not> takes_all (length (ic_out conn)) []" using False by (simp add: takes_all_def)
    ultimately show ?thesis
      using ipc_flush_blocked(1)[of conn _ fd r] ipc_flushed_blocked[OF Nil(2,3) False] Nil(1) \<open>0 < m_size (ic_txRing conn)\<close>
      by (simp add: rb_readable_def ipc_wf_def)
  qed
next
  case (Cons a ss)
  show ?case
  proof (cases "ic_out conn = []")
    case True
    from ipc_flush_empty[OF Cons.prems(1) this] show ?thesis .
  next
    case ne: False
    show ?thesis
    proof (cases a)
      case (SErr e)
      then show ?thesis using ipc_flush_err[OF Cons.prems ne] by blast
    next
      case (SSent k)
      then show ?thesis using ipc_flush_more[OF Cons.prems ne Cons.IH] by blast
    qed
  qed
qed

subsection \<open>The server never fails\<close>

text \<open>
  Registration of a descriptor: connections with output are watched for writability, the others only
  for input; with \<open>b\<close> false, a connection may have got its output just now.
\<close>

definition ipc_reg :: "bool \<Rightarrow> IpcReactor \<Rightarrow> fd \<Rightarrow> bool" where
  "ipc_reg b r g \<longleftrightarrow>
     (case map_of (ir_conns r) g of
        None \<Rightarrow> g \<noteq> ir_listenFd r \<and> g \<noteq> ir_wakeupFd r \<longrightarrow> map_of (ir_epoll r) g = None
      | Some c \<Rightarrow>
          map_of (ir_epoll r) g = Some (if ic_out c = [] then EPOLLIN OR EPOLLRDHUP else EPOLLIN OR EPOLLOUT OR EPOLLRDHUP) \<or>
          \<not> b \<and> ic_out c \<noteq> [] \<and> map_of (ir_epoll r) g = Some (EPOLLIN OR EPOLLRDHUP))"

definition ipc_own :: "IpcReactor \<Rightarrow> bool" where
  "ipc_own r \<longleftrightarrow> map_of (ir_conns r) (ir_listenFd r) = None \<and> map_of (ir_conns r) (ir_wakeupFd r) = None"

definition ipc_inv :: "IpcReactor \<Rightarrow> bool" where
  "ipc_inv r \<longleftrightarrow> ipc_wf r \<and> (\<forall>g. ipc_reg True r g) \<and> ipc_own r"

lemma ipc_reg_at: "ipc_at fd r r' \<Longrightarrow> g \<noteq> fd \<Longrightarrow> ipc_reg b r' g = ipc_reg b r g"
  by (simp add: ipc_at_def ipc_reg_def split: option.split)

lemma ipc_reg_weaken: "ipc_reg True r g \<Longrightarrow> ipc_reg b r g"
  by (auto simp: ipc_reg_def split: option.splits)

lemma ipc_reg_same:
  "ir_conns r' = ir_conns r \<Longrightarrow> ir_epoll r' = ir_epoll r \<Longrightarrow> ir_listenFd r' = ir_listenFd r \<Longrightarrow>
    ir_wakeupFd r' = ir_wakeupFd r \<Longrightarrow> ipc_reg b r' g = ipc_reg b r g"
  by (simp add: ipc_reg_def split: option.split)

lemma ipc_inv_close: "ipc_inv r \<Longrightarrow> ipc_inv (ipc_closeConnection fd r)"
proof -
  assume inv: "ipc_inv r"
  have um: "um_wf (ir_conns r)" using inv by (simp add: ipc_inv_def ipc_wf_def)
  have "ipc_reg True (ipc_closeConnection fd r) g" for g
  proof (cases "g = fd")
    case True
    with um show ?thesis by (simp add: ipc_reg_def ipc_closeConnection_def epoll_del_def)
  next
    case False
    with ipc_reg_at[OF ipc_at_close[OF um] False] inv show ?thesis by (simp add: ipc_inv_def)
  qed
  with inv um show ?thesis by (simp add: ipc_inv_def ipc_wf_close) (simp add: ipc_own_def ipc_closeConnection_def)
qed

lemma ic_wf_new: "ic_wf (mk_IpcConn IPC_MAX_RX_BUFFER_SIZE IPC_MAX_TX_BUFFER_SIZE)"
  by (simp add: ic_wf_def mk_IpcConn_def IPC_MAX_RX_BUFFER_SIZE_def IPC_MAX_TX_BUFFER_SIZE_def rb_wf_new rb_cap_new SIZE_MOD_def)

definition accepts_own :: "fd list \<Rightarrow> unit accept_res list \<Rightarrow> bool" where
  "accepts_own fds as \<longleftrightarrow> (\<exists>fd \<in> set fds. AConn fd () \<in> set as)"

lemma ipc_inv_accept:
  assumes "ipc_inv r" "\<not> accepts_own [ir_listenFd r, ir_wakeupFd r] as"
  shows "ipc_inv (ipc_acceptConnection as r) \<and> ir_listenFd (ipc_acceptConnection as r) = ir_listenFd r \<and>
    ir_wakeupFd (ipc_acceptConnection as r) = ir_wakeupFd r"
  using assms
proof (induction as r rule: ipc_acceptConnection.induct)
  case (3 fd u as r)
  let ?c = "mk_IpcConn IPC_MAX_RX_BUFFER_SIZE IPC_MAX_TX_BUFFER_SIZE"
  define t where "t = r\<lparr>ir_conns := emplace fd ?c (ir_conns r), ir_epoll := epoll_add fd (EPOLLIN OR EPOLLRDHUP) (ir_epoll r)\<rparr>"
  have own: "fd \<noteq> ir_listenFd r" "fd \<noteq> ir_wakeupFd r" using 3(3) by (auto simp: accepts_own_def)
  have "ipc_wf t" using 3(2) ic_wf_new by (auto simp: t_def ipc_inv_def ipc_wf_def split: if_splits)
  moreover have "ipc_reg True t g" for g
  proof (cases "g = fd")
    case True
    have "ipc_reg True r fd" using 3(2) by (simp add: ipc_inv_def)
    with True own show ?thesis
      by (auto simp: t_def ipc_reg_def epoll_add_def mk_IpcConn_def split: option.splits)
  next
    case False
    have "ipc_at fd r t" by (simp add: t_def ipc_at_def epoll_add_def ipc_sent_def)
    from ipc_reg_at[OF this False] 3(2) show ?thesis by (simp add: ipc_inv_def)
  qed
  ultimately have "ipc_inv t" using 3(2) own by (simp add: ipc_inv_def) (simp add: ipc_own_def t_def)
  moreover have "\<not> accepts_own [ir_listenFd t, ir_wakeupFd t] as" using 3(3) by (auto simp: accepts_own_def t_def)
  ultimately show ?case using 3(1) by (simp add: t_def)
qed simp_all

lemma ipc_flushTxBuffer_spec:
  assumes "ipc_wf r" "ipc_reg False r fd" "fd \<noteq> ir_listenFd r" "fd \<noteq> ir_wakeupFd r"
  shows "\<exists>r'. ipc_flushTxBuffer fd ss r = Some r' \<and> ipc_wf r' \<and> ipc_at fd r r' \<and> ipc_reg True r' fd"
proof (cases "map_of (ir_conns r) fd")
  case None
  with assms show ?thesis by (simp add: ipc_flushTxBuffer_def ipc_at_refl ipc_reg_def)
next
  case (Some conn)
  show ?thesis
  proof (cases "ic_out conn = []")
    case True
    then have "rb_readable (ic_txRing conn) = 0" by (simp add: rb_readable_def)
    with Some True assms(1,2) show ?thesis by (simp add: ipc_flushTxBuffer_def ipc_at_refl ipc_reg_def)
  next
    case False
    then have "rb_readable (ic_txRing conn) \<noteq> 0" using ipc_wf_conn[OF assms(1) Some] by (auto simp: rb_readable_def ic_wf_def)
    then have e: "ipc_flushTxBuffer fd ss r = ipc_flush_loop fd conn ss r" using Some by (simp add: ipc_flushTxBuffer_def)
    have "map_of (ir_epoll r) fd \<noteq> None" using assms(2) Some by (auto simp: ipc_reg_def)
    from ipc_flush_loop_spec[OF assms(1) Some this, of ss] obtain r' where r': "ipc_flush_loop fd conn ss r = Some r'"
      "ipc_wf r'" "ipc_at fd r r'" "ipc_flushed fd (ic_out conn) ss r r'" by blast
    then have "ipc_reg True r' fd" by (auto simp: ipc_flushed_def ipc_reg_def split: option.splits)
    with e r' show ?thesis by auto
  qed
qed

lemma ipc_flush_dirty:
  assumes "ipc_wf r" "\<forall>g. ipc_reg (g \<notin> set dirty) r g" "ir_listenFd r \<notin> set dirty" "ir_wakeupFd r \<notin> set dirty" "ipc_own r"
  shows "\<exists>r'. ofold (\<lambda>fd. ipc_flushTxBuffer fd (sends fd)) dirty r = Some r' \<and> ipc_inv r' \<and>
    ir_listenFd r' = ir_listenFd r \<and> ir_wakeupFd r' = ir_wakeupFd r"
  using assms
proof (induction dirty arbitrary: r)
  case Nil
  then show ?case by (simp add: ipc_inv_def)
next
  case (Cons fd dirty)
  have "ipc_reg False r fd" using Cons.prems(2) by (metis list.set_intros(1))
  from ipc_flushTxBuffer_spec[OF Cons.prems(1) this, of "sends fd"] Cons.prems(3,4) obtain r1 where r1:
    "ipc_flushTxBuffer fd (sends fd) r = Some r1" "ipc_wf r1" "ipc_at fd r r1" "ipc_reg True r1 fd" by auto
  have own: "ir_listenFd r1 = ir_listenFd r" "ir_wakeupFd r1 = ir_wakeupFd r" using r1(3) by (simp_all add: ipc_at_def)
  have "ipc_reg (g \<notin> set dirty) r1 g" for g
  proof (cases "g = fd")
    case True
    with ipc_reg_weaken[OF r1(4)] show ?thesis by simp
  next
    case False
    with ipc_reg_at[OF r1(3) False] spec[OF Cons.prems(2), of g] show ?thesis by simp
  qed
  moreover have "ipc_own r1" using r1(3) Cons.prems(3-5) by (auto simp: ipc_own_def ipc_at_def)
  ultimately show ?case using Cons.IH[OF r1(2)] own Cons.prems(3,4) r1(1) by simp
qed

lemma ipc_buffer_spec:
  assumes "ipc_wf r" "\<forall>g. ipc_reg (g \<notin> set dirty) r g" "ir_listenFd r \<notin> set dirty" "ir_wakeupFd r \<notin> set dirty"
    "ipc_own r"
  shows "\<exists>r' dirty'. ipc_buffer_message m (r, dirty) = Some (r', dirty') \<and> ipc_wf r' \<and>
    (\<forall>g. ipc_reg (g \<notin> set dirty') r' g) \<and> ir_listenFd r' \<notin> set dirty' \<and> ir_wakeupFd r' \<notin> set dirty' \<and>
    ipc_own r' \<and> ir_listenFd r' = ir_listenFd r \<and> ir_wakeupFd r' = ir_wakeupFd r"
proof (cases "map_of (ir_conns r) (im_fd m)")
  case None
  with assms show ?thesis by (simp add: ipc_buffer_message_def)
next
  case (Some conn)
  let ?fd = "im_fd m"
  have c: "ic_wf conn" by (rule ipc_wf_conn[OF assms(1) Some])
  then have wf: "rb_wf (ic_txRing conn)" by (simp add: ic_wf_def)
  show ?thesis
  proof (cases "rb_writable (ic_txRing conn) < length (im_payload m)")
    case True
    with Some assms show ?thesis by (simp add: ipc_buffer_message_def)
  next
    case False
    from ring.write_law[OF wf, of "im_payload m"] False obtain tx where tx:
      "rb_write (ic_txRing conn) (im_payload m) = Some (tx, length (im_payload m))" "rb_wf tx" "rb_cap tx = rb_cap (ic_txRing conn)"
      "rb_contents tx = ic_out conn @ im_payload m" by (auto simp: min_def split: if_splits)
    define t where "t = r\<lparr>ir_conns := AList.update ?fd (conn\<lparr>ic_txRing := tx\<rparr>) (ir_conns r)\<rparr>"
    have b: "ipc_buffer_message m (r, dirty) = Some (t, List.insert ?fd dirty)"
      using Some False tx(1) by (simp add: ipc_buffer_message_def t_def)
    have "ipc_wf t" unfolding t_def by (rule ipc_wf_update[OF assms(1)]) (use c tx(2,3) in \<open>simp add: ic_wf_def\<close>)
    moreover have "ipc_reg (g \<notin> set (List.insert ?fd dirty)) t g" for g
    proof (cases "g = ?fd")
      case True
      have "ipc_reg False r ?fd" using spec[OF assms(2), of ?fd] ipc_reg_weaken by (cases "?fd \<in> set dirty") simp_all
      with True Some tx(4) show ?thesis by (auto simp: ipc_reg_def t_def split: if_splits)
    next
      case False
      have "ipc_at ?fd r t" by (simp add: t_def ipc_at_def ipc_sent_def)
      from ipc_reg_at[OF this False] spec[OF assms(2), of g] False show ?thesis by simp
    qed
    moreover have "?fd \<noteq> ir_listenFd r" "?fd \<noteq> ir_wakeupFd r" using Some assms(5) by (auto simp: ipc_own_def)
    ultimately show ?thesis using assms(3-5) unfolding b by (simp add: t_def ipc_own_def)
  qed
qed

definition ipc_txing :: "IpcReactor \<times> fd list \<Rightarrow> bool" where
  "ipc_txing s \<longleftrightarrow> (case s of (r, dirty) \<Rightarrow> ipc_wf r \<and> (\<forall>g. ipc_reg (g \<notin> set dirty) r g) \<and>
     ir_listenFd r \<notin> set dirty \<and> ir_wakeupFd r \<notin> set dirty \<and> ipc_own r)"

definition same_own :: "IpcReactor \<Rightarrow> IpcReactor \<Rightarrow> bool" where
  "same_own r r' \<longleftrightarrow> ir_listenFd r' = ir_listenFd r \<and> ir_wakeupFd r' = ir_wakeupFd r"

lemma ipc_buffer_all:
  assumes "ipc_txing s"
  shows "\<exists>s'. ofold ipc_buffer_message ms s = Some s' \<and> ipc_txing s' \<and> same_own (fst s) (fst s')"
proof (rule ofold_rel[where I = ipc_txing and R = "\<lambda>s s'. same_own (fst s) (fst s')"])
  fix m s assume "ipc_txing s"
  then show "\<exists>s'. ipc_buffer_message m s = Some s' \<and> ipc_txing s' \<and> same_own (fst s) (fst s')"
    using ipc_buffer_spec[of "fst s" "snd s" m] by (cases s) (auto simp: ipc_txing_def same_own_def)
qed (use assms in \<open>auto simp: same_own_def\<close>)

lemma ipc_processTxQueue_inv:
  assumes "ipc_inv r"
  shows "\<exists>r'. ipc_processTxQueue sends r = Some r' \<and> ipc_inv r' \<and> same_own r r'"
proof -
  have "mpsc_wf (ip_queue (ir_port r))" using assms by (simp add: ipc_inv_def ipc_wf_def ip_wf_def)
  from mpsc.deqAll_law[OF this] obtain q where q: "mpsc_items (ip_queue (ir_port r)) = Some (q, ip_list (ir_port r))" "mpsc_wf q"
    by (auto simp: ip_list_def)
  define t where "t = r\<lparr>ir_port := (ir_port r)\<lparr>ip_queue := q\<rparr>\<rparr>"
  have reg: "ipc_reg b t g = ipc_reg b r g" for b g by (rule ipc_reg_same) (simp_all add: t_def)
  have t: "ipc_inv t" "same_own r t"
    using assms q(2) reg by (auto simp: ipc_inv_def) (simp_all add: t_def ipc_wf_def ip_wf_def ipc_own_def same_own_def)
  then have "ipc_txing (t, [])" by (simp add: ipc_inv_def ipc_txing_def)
  from ipc_buffer_all[OF this, of "ip_list (ir_port r)"] obtain t' dirty where d:
    "ofold ipc_buffer_message (ip_list (ir_port r)) (t, []) = Some (t', dirty)" "ipc_txing (t', dirty)" "same_own t t'"
    by fastforce
  from d(2) ipc_flush_dirty[of t' dirty sends] obtain r' where
    "ofold (\<lambda>fd. ipc_flushTxBuffer fd (sends fd)) dirty t' = Some r'" "ipc_inv r'" "same_own t' r'"
    by (auto simp: ipc_txing_def same_own_def)
  with q(1) t d show ?thesis by (auto simp: ipc_processTxQueue_def t_def[symmetric] same_own_def)
qed

lemma ipc_receive_inv:
  assumes "ipc_inv r"
  shows "\<exists>r'. ipc_receive fd rs r = Some r' \<and> ipc_inv r' \<and> same_own r r'"
proof -
  have wf: "ipc_wf r" using assms by (simp add: ipc_inv_def)
  show ?thesis
  proof (cases rule: ipc_receive_loop_cases[OF wf, of fd rs])
    case (1 rs')
    with assms show ?thesis by (simp add: ipc_receive_def same_own_def)
  next
    case (2 r' r'' fs rs')
    from 2(3) obtain conn rx t where d: "map_of (ir_conns r) fd = Some conn" "ofold (ipc_deal fd) fs r = Some t"
      "r' = t\<lparr>ir_conns := AList.update fd (conn\<lparr>ic_rxRing := rx\<rparr>) (ir_conns r)\<rparr>" unfolding ipc_delivered_def by blast
    have t: "ir_epoll t = ir_epoll r \<and> same_own r t"
    proof -
      have "ipc_deal fd f u = Some u' \<Longrightarrow> ir_epoll u' = ir_epoll u \<and> same_own u u'" for f u u'
        by (auto simp: ipc_deal_def ipc_emit_def Let_def same_own_def split: if_splits bind_splits)
      then have "ofold (ipc_deal fd) fs u = Some u' \<Longrightarrow> ir_epoll u' = ir_epoll u \<and> same_own u u'" for u u'
        by (induction fs arbitrary: u) (fastforce simp: same_own_def split: bind_splits)+
      with d(2) show ?thesis by blast
    qed
    have "ipc_reg True r' g" for g
    proof -
      have "ipc_reg True r g" using assms by (simp add: ipc_inv_def)
      then show ?thesis using d(1) t by (cases "g = fd") (auto simp: d(3) ipc_reg_def same_own_def split: option.splits)
    qed
    moreover have "ipc_own r'" using assms t d(1) by (auto simp: d(3) ipc_inv_def ipc_own_def same_own_def)
    ultimately have inv: "ipc_inv r'" using 2(2) by (simp add: ipc_inv_def)
    moreover have "same_own r r'" using t by (simp add: d(3) same_own_def)
    ultimately show ?thesis using 2(1,4) ipc_inv_close[OF inv, of fd]
      by (auto simp: ipc_receive_def ipc_ends_def same_own_def ipc_closeConnection_def)
  qed
qed

subsection \<open>Workers\<close>

lemma IpcReactor_enqueueTx_spec:
  assumes "ip_wf port"
  shows "\<exists>port'. IpcReactor_enqueueTx port (Some m) = Some port' \<and> ip_wf port' \<and>
    mq_capacity (ip_queue port') = mq_capacity (ip_queue port) \<and>
    ip_list port' = (if length (ip_list port) < unat (mq_capacity (ip_queue port)) then ip_list port @ [m] else ip_list port)"
  using mpsc_enqueue_wf[of "ip_queue port" m] assms by (auto simp: ip_wf_def ip_list_def IpcReactor_enqueueTx_def)

lemma ipc_answer_spec:
  assumes "ip_wf port" "handle (im_body m) s = Some (s', resp)"
  shows "\<exists>port'. ipc_answer handle m (s, port) = Some (s', port') \<and> ip_wf port' \<and>
    mq_capacity (ip_queue port') = mq_capacity (ip_queue port) \<and>
    ip_list port' = (if length (ip_list port) < unat (mq_capacity (ip_queue port))
      then ip_list port @ [\<lparr>im_fd = im_fd m, im_payload = buildFrame resp\<rparr>] else ip_list port)"
  using IpcReactor_enqueueTx_spec[OF assms(1), of "\<lparr>im_fd = im_fd m, im_payload = buildFrame resp\<rparr>"] assms(2)
  by (auto simp: ipc_answer_def mk_IpcMessage_buildFrame)

lemma processMessage_eq:
  assumes "iw_wf w"
  shows "\<exists>w'. processMessage handle w st = map_option (Pair w') (ofold (ipc_answer handle) (iw_list w) st) \<and>
    iw_wf w' \<and> iw_list w' = []"
proof -
  from spsc.drain_loop_eq[of "iw_queue w" "ipc_answer handle" st] assms obtain q where
    "drain_loop spsc_dequeue (ipc_answer handle) (iw_queue w) st =
      map_option (Pair q) (ofold (ipc_answer handle) (iw_list w) st)" "spsc_wf q" "spsc_list q = []"
    by (auto simp: iw_wf_def iw_list_def)
  then show ?thesis
    by (intro exI[of _ "w\<lparr>iw_wakeups := 0, iw_queue := q\<rparr>"])
      (simp add: processMessage_def drainRxQueue_def iw_wf_def iw_list_def option.map_comp comp_def)
qed

lemma ipc_work_inv:
  assumes "ipc_inv r"
  shows "\<exists>r'. ipc_step (IpcWork i resp) r = Some r' \<and> ipc_inv r' \<and> same_own r r'"
proof (cases "i < length (ir_workers r)")
  case False
  with assms show ?thesis by (simp add: same_own_def)
next
  case True
  let ?h = "\<lambda>body u. Some (u, resp body)"
  have wf: "iw_wf (ir_workers r ! i)" "ip_wf (ir_port r)"
    using assms True by (auto simp: ipc_inv_def ipc_wf_def list_all_length)
  have step: "\<exists>st'. ipc_answer ?h m st = Some st' \<and> ip_wf (snd st')" if "ip_wf (snd st)" for m and st :: "unit \<times> IpcPort"
    using ipc_answer_spec[OF that, of ?h m "fst st"] by (cases st) auto
  have "\<exists>st'. ofold (ipc_answer ?h) (iw_list (ir_workers r ! i)) ((), ir_port r) = Some st' \<and> ip_wf (snd st')"
    by (rule ofold_inv[where I = "\<lambda>st. ip_wf (snd st)"]) (use wf(2) in simp, rule step)
  then obtain u port where p: "ofold (ipc_answer ?h) (iw_list (ir_workers r ! i)) ((), ir_port r) = Some (u, port)"
    "ip_wf port" by auto
  from processMessage_eq[OF wf(1), of ?h "((), ir_port r)"] p(1) obtain w where w:
    "processMessage ?h (ir_workers r ! i) ((), ir_port r) = Some (w, (u, port))" "iw_wf w" by auto
  define t where "t = r\<lparr>ir_workers := (ir_workers r)[i := w], ir_port := port\<rparr>"
  have "ipc_reg b t g = ipc_reg b r g" for b g by (rule ipc_reg_same) (simp_all add: t_def)
  moreover have "ipc_wf t" using assms w(2) p(2)
    by (auto simp: t_def ipc_inv_def ipc_wf_def list_all_iff dest: set_update_subset_insert[THEN subsetD])
  ultimately have "ipc_inv t" using assms by (simp add: ipc_inv_def) (simp add: t_def ipc_own_def)
  with True w(1) show ?thesis by (simp add: t_def[symmetric]) (simp add: t_def same_own_def)
qed

text \<open>What the kernel owes: \<open>accept\<close> does not return the reactor's own descriptors.\<close>

fun ipc_op_ok :: "fd list \<Rightarrow> ipc_op \<Rightarrow> bool" where
  "ipc_op_ok own (IpcEvent io fd ev) \<longleftrightarrow> \<not> accepts_own own (ii_accepts io)"
| "ipc_op_ok own (IpcWork i resp) \<longleftrightarrow> True"

lemma ipc_event_inv:
  assumes "ipc_inv r" "\<not> accepts_own [ir_listenFd r, ir_wakeupFd r] (ii_accepts io)"
  shows "\<exists>r'. ipc_handleEvent io fd ev r = Some r' \<and> ipc_inv r' \<and> same_own r r'"
proof -
  have flush: "\<exists>r'. ipc_flushTxBuffer fd ss t = Some r' \<and> ipc_inv r' \<and> same_own t r'"
    if t: "ipc_inv t" "fd \<noteq> ir_listenFd t" "fd \<noteq> ir_wakeupFd t" for t ss
  proof -
    have "ipc_wf t" "ipc_reg False t fd" using t(1) ipc_reg_weaken by (auto simp: ipc_inv_def)
    from ipc_flush_dirty[of t "[fd]" "\<lambda>_. ss"] t this ipc_reg_weaken show ?thesis
      by (auto simp: ipc_inv_def same_own_def split: bind_splits)
  qed
  show ?thesis
  proof (cases "fd = ir_wakeupFd r \<or> fd = ir_listenFd r \<or> ev AND (EPOLLERR OR EPOLLHUP OR EPOLLRDHUP) \<noteq> 0")
    case True
    let ?w = "r\<lparr>ir_port := (ir_port r)\<lparr>ip_wakeups := 0\<rparr>\<rparr>"
    have "ipc_reg b ?w g = ipc_reg b r g" for b g by (rule ipc_reg_same) simp_all
    then have "ipc_inv ?w" using assms(1) by (simp add: ipc_inv_def ipc_wf_def ip_wf_def ipc_own_def)
    with True ipc_processTxQueue_inv[of ?w "ii_sends io"] ipc_inv_accept[OF assms] ipc_inv_close[OF assms(1), of fd] show ?thesis
      by (auto simp: ipc_handleEvent_def same_own_def ipc_closeConnection_def)
  next
    case False
    from ipc_receive_inv[OF assms(1), of fd "ii_recvs io"] assms(1) obtain t where t: "ipc_inv t" "same_own r t"
      "(if ev AND EPOLLIN \<noteq> 0 then ipc_receive fd (ii_recvs io) r else Some r) = Some t"
      by (cases "ev AND EPOLLIN \<noteq> 0") (auto simp: same_own_def)
    from flush[OF t(1), of "ii_sends io fd"] t False show ?thesis
      by (auto simp: ipc_handleEvent_def same_own_def)
  qed
qed

lemma ipc_run_inv:
  assumes "ipc_inv r" "list_all (ipc_op_ok [ir_listenFd r, ir_wakeupFd r]) ops"
  shows "\<exists>r'. ipc_run ops r = Some r' \<and> ipc_inv r'"
  using assms
proof (induction ops arbitrary: r)
  case (Cons op ops)
  have "\<exists>r1. ipc_step op r = Some r1 \<and> ipc_inv r1 \<and> same_own r r1"
  proof (cases op)
    case (IpcEvent io fd ev)
    with Cons.prems ipc_event_inv[of r io fd ev] show ?thesis by simp
  next
    case (IpcWork i resp)
    with ipc_work_inv[OF Cons.prems(1), of i resp] show ?thesis by simp
  qed
  then obtain r1 where "ipc_step op r = Some r1" "ipc_inv r1" "same_own r r1" by blast
  with Cons.IH[of r1] Cons.prems(2) show ?case by (auto simp: ipc_run_def same_own_def)
qed (simp add: ipc_run_def)

subsection \<open>One request\<close>

lemma queue_capacity_pos:
  "spsc_wf sq \<Longrightarrow> 0 < unat (sq_capacity sq)" "mpsc_wf mq \<Longrightarrow> 0 < unat (mq_capacity mq)"
  by (auto simp: spsc_wf_def mpsc_wf_def slots_ok_def pow2_def unat_gt_0)

lemma ipc_request_dealt:
  assumes "ipc_wf r" "map_of (ir_conns r) fd = Some conn" "rb_readable (ic_rxRing conn) = 0"
    and "i = unat (ir_rr r) mod length (ir_workers r)" "iw_list (ir_workers r ! i) = []"
    and "ipc_frames.is_frame f" "length f \<le> 65536" "[] \<notin> set pieces" "concat pieces = f"
  shows "\<exists>r1 rx. ipc_receive_loop fd r (map RBytes pieces) = Some (r1, []) \<and> ipc_wf r1 \<and>
    map_of (ir_conns r1) fd = Some (conn\<lparr>ic_rxRing := rx\<rparr>) \<and> ir_port r1 = ir_port r \<and>
    ir_epoll r1 = ir_epoll r \<and> ir_sent r1 = ir_sent r \<and> i < length (ir_workers r1) \<and>
    iw_list (ir_workers r1 ! i) = [\<lparr>im_fd = fd, im_payload = f\<rparr>]"
proof -
  have ring: "ipc_ring fd r = Some (ic_rxRing conn)" using assms(2) by (simp add: ipc_ring_def)
  have cap: "rb_cap (ic_rxRing conn) = 65536" using ipc_wf_conn[OF assms(1,2)] by (simp add: ic_wf_def)
  have "concat pieces = concat [f]" "\<forall>g \<in> set [f]. ipc_frames.is_frame g \<and> length g \<le> rb_cap (ic_rxRing conn)"
    using assms(6,7,9) cap by auto
  from ipc_rx.frames_delivered[OF assms(1) ring assms(3,8) this] obtain r1 where r1:
    "ipc_receive_loop fd r (map RBytes pieces) = Some (r1, [])" "ipc_wf r1" "ipc_delivered fd r r1 [f]" by blast
  from ipc_deal_spec[OF assms(1,6), of fd] assms(4,5) obtain w where w:
    "ipc_deal fd f r = Some (r\<lparr>ir_rr := ir_rr r + 1, ir_workers := (ir_workers r)[i := w]\<rparr>)" "i < length (ir_workers r)"
    "iw_list w = (if iw_room (ir_workers r ! i) then [\<lparr>im_fd = fd, im_payload = f\<rparr>] else [])" by auto
  have "iw_wf (ir_workers r ! i)" using assms(1) w(2) by (simp add: ipc_wf_def list_all_length)
  then have "iw_room (ir_workers r ! i)" using assms(5) queue_capacity_pos(1) by (simp add: iw_room_def iw_wf_def)
  moreover from r1(3) w(1) assms(2) obtain rx where "r1 = r\<lparr>ir_rr := ir_rr r + 1, ir_workers := (ir_workers r)[i := w],
      ir_conns := AList.update fd (conn\<lparr>ic_rxRing := rx\<rparr>) (ir_conns r)\<rparr>" by (auto simp: ipc_delivered_def)
  ultimately show ?thesis using r1(1,2) w(2,3) by (intro exI[of _ r1] exI[of _ rx]) simp
qed

text \<open>A single reply for an idle connection is flushed at once.\<close>

lemma ipc_single_reply:
  assumes "ipc_wf r" "map_of (ir_conns r) fd = Some conn" "ic_out conn = []" "map_of (ir_epoll r) fd \<noteq> None"
    and "ip_list (ir_port r) = [\<lparr>im_fd = fd, im_payload = f\<rparr>]" "f \<noteq> []" "length f \<le> 65536"
  shows "\<exists>r'. ipc_processTxQueue sends r = Some r' \<and> ipc_flushed fd f (sends fd) r r'"
proof -
  have "mpsc_wf (ip_queue (ir_port r))" using assms(1) by (simp add: ipc_wf_def ip_wf_def)
  from mpsc.deqAll_law[OF this] assms(5) obtain q where q:
    "mpsc_items (ip_queue (ir_port r)) = Some (q, [\<lparr>im_fd = fd, im_payload = f\<rparr>])" "mpsc_wf q"
    by (auto simp: ip_list_def)
  have c: "ic_wf conn" "rb_wf (ic_txRing conn)" using ipc_wf_conn[OF assms(1,2)] by (auto simp: ic_wf_def)
  have room: "length f \<le> rb_writable (ic_txRing conn)"
    using ring.writable_eq[OF c(2)] assms(3,7) c(1) by (simp add: ic_wf_def)
  obtain tx where tx: "rb_write (ic_txRing conn) f = Some (tx, length f)" "rb_wf tx" "rb_cap tx = rb_cap (ic_txRing conn)"
    "rb_contents tx = f" using ring.write_fits[OF c(2) room] assms(3) by auto
  define t where "t = r\<lparr>ir_port := (ir_port r)\<lparr>ip_queue := q\<rparr>, ir_conns := AList.update fd (conn\<lparr>ic_txRing := tx\<rparr>) (ir_conns r)\<rparr>"
  have b: "ipc_buffer_message \<lparr>im_fd = fd, im_payload = f\<rparr> (r\<lparr>ir_port := (ir_port r)\<lparr>ip_queue := q\<rparr>\<rparr>, []) = Some (t, [fd])"
    using assms(2) room tx(1) by (simp add: ipc_buffer_message_def t_def)
  have "ipc_wf (r\<lparr>ir_port := (ir_port r)\<lparr>ip_queue := q\<rparr>\<rparr>)" using assms(1) q(2) by (simp add: ipc_wf_def ip_wf_def)
  from ipc_wf_update[OF this, of "conn\<lparr>ic_txRing := tx\<rparr>" fd] c(1) tx(2,3) have wf: "ipc_wf t" by (simp add: t_def ic_wf_def)
  have t: "map_of (ir_conns t) fd = Some (conn\<lparr>ic_txRing := tx\<rparr>)" "map_of (ir_epoll t) fd \<noteq> None" "ipc_sent t fd = ipc_sent r fd"
    using assms(4) by (simp_all add: t_def ipc_sent_def)
  have out: "ic_out (conn\<lparr>ic_txRing := tx\<rparr>) = f" using tx(4) by simp
  from ipc_flush_loop_spec[OF wf t(1,2), of "sends fd"] obtain r' where r':
    "ipc_flush_loop fd (conn\<lparr>ic_txRing := tx\<rparr>) (sends fd) t = Some r'" "ipc_flushed fd f (sends fd) t r'"
    unfolding out by blast
  have "m_size tx \<noteq> 0" using tx(4) assms(6) by auto
  then have "ipc_flushTxBuffer fd (sends fd) t = Some r'" using t(1) r'(1) by (simp add: ipc_flushTxBuffer_def rb_readable_def)
  with q(1) b have "ipc_processTxQueue sends r = Some r'" by (simp add: ipc_processTxQueue_def)
  with r'(2) show ?thesis unfolding ipc_flushed_def t(3) by blast
qed

lemma ipc_prepare_inv:
  assumes "mk_IpcReactor path ws = Some r0" "list_all iw_wf ws" "ipc_prepare st r0 = (r, True)"
  shows "ipc_inv r \<and> ir_listenFd r = st_socket st \<and> st_epoll st = Some (ir_wakeupFd r) \<and> ir_conns r = [] \<and>
    ir_workers r = ws \<and> ip_list (ir_port r) = [] \<and> ir_rr r = 0 \<and> ir_sent r = []"
proof -
  obtain q :: "IpcMessage MpscQueue" where "mpsc_new 65536 = Some q" "mpsc_wf q" "mpsc_list q = []"
    by (rule mpsc_new_wf[of 65536]) (simp_all add: pow2_def)
  with assms show ?thesis
    by (auto simp: mk_IpcReactor_def ipc_prepare_def ipc_init_def ipc_createSocket_def ipc_inv_def ipc_wf_def ipc_reg_def
        ipc_own_def ip_wf_def ip_list_def epoll_add_def emplace_def Let_def split: if_splits option.splits)
qed

subsection \<open>Properties\<close>


definition demo_ipc_worker :: IpcWorker where
  "demo_ipc_worker = the mk_IpcWorker"

lemma demo_ipc_worker_wf: "iw_wf demo_ipc_worker" "iw_list demo_ipc_worker = []"
proof -
  obtain q :: "IpcMessage SpscQueue" where "spsc_new 65536 = Some q" "spsc_wf q" "spsc_list q = []"
    by (rule spsc_new_wf[of 65536]) (simp_all add: pow2_def)
  then show "iw_wf demo_ipc_worker" "iw_list demo_ipc_worker = []"
    by (simp_all add: demo_ipc_worker_def mk_IpcWorker_def iw_wf_def iw_list_def)
qed

definition demo_ipc_io :: ipc_io where
  "demo_ipc_io = \<lparr>ii_accepts = [AConn 5 ()], ii_recvs = [RBytes [0, 1], RBytes [7]], ii_sends = \<lambda>_. [SSent 2]\<rparr>"

lemma demo_ipc:
  obtains r0 r where "mk_IpcReactor [47, 115] [demo_ipc_worker] = Some r0" "ipc_prepare demo_start r0 = (r, True)"
    "list_all iw_wf [demo_ipc_worker]"
proof -
  obtain q :: "IpcMessage MpscQueue" where "mpsc_new 65536 = Some q"
    by (rule mpsc_new_wf[of 65536]) (simp_all add: pow2_def)
  with that demo_ipc_worker_wf(1) show ?thesis
    by (simp add: mk_IpcReactor_def ipc_prepare_def ipc_init_def ipc_createSocket_def ipc_bindAndListen_def demo_start_def Let_def)
qed


text \<open>
  A request gets its answer: when the frame of a request arrives in pieces of any sizes on an
  idle connection, the worker whose turn it is lets the command handler answer exactly that body,
  and the reactor's next wakeup sends the frame of the answer, whole, and then closes the
  connection. Bodies of up to 65534 bytes fit the rings in both directions.
\<close>

lemma ipc_request_served:
  assumes "ipc_inv r" "map_of (ir_conns r) fd = Some conn" "rb_readable (ic_rxRing conn) = 0" "rb_contents (ic_txRing conn) = []"
    and "ip_list (ir_port r) = []" "i = unat (ir_rr r) mod length (ir_workers r)" "iw_list (ir_workers r ! i) = []"
    and "length body \<le> 65534" "[] \<notin> set pieces" "concat pieces = buildFrame body"
    and "handle body s = Some (s', resp)" "length resp \<le> 65534" "sends fd = replicate 65536 (SSent 65536)"
  shows "\<exists>r1 w' port' r2. ipc_receive_loop fd r (map RBytes pieces) = Some (r1, []) \<and>
    processMessage handle (ir_workers r1 ! i) (s, ir_port r1) = Some (w', (s', port')) \<and>
    ipc_processTxQueue sends (r1\<lparr>ir_port := port', ir_workers := (ir_workers r1)[i := w']\<rparr>) = Some r2 \<and>
    ipc_sent r2 fd = ipc_sent r fd @ buildFrame resp \<and> map_of (ir_conns r2) fd = None \<and> fd \<in> set (ir_closed r2)"
proof -
  have wf: "ipc_wf r" and reg: "ipc_reg True r fd" using assms(1) by (simp_all add: ipc_inv_def)
  have len: "length (buildFrame body) \<le> 65536" "length (buildFrame resp) \<le> 65536" "buildFrame resp \<noteq> []"
    using assms(8,12) by (auto simp: buildFrame_eq be_bytes_16)
  from ipc_request_dealt[OF wf assms(2,3,6,7) buildFrame_frame len(1) assms(9,10)] obtain r1 rx where r1:
    "ipc_receive_loop fd r (map RBytes pieces) = Some (r1, [])" "ipc_wf r1" "map_of (ir_conns r1) fd = Some (conn\<lparr>ic_rxRing := rx\<rparr>)"
    "ir_port r1 = ir_port r" "ir_epoll r1 = ir_epoll r" "ir_sent r1 = ir_sent r" "i < length (ir_workers r1)"
    "iw_list (ir_workers r1 ! i) = [\<lparr>im_fd = fd, im_payload = buildFrame body\<rparr>]" by blast
  have iw: "iw_wf (ir_workers r1 ! i)" and ip: "ip_wf (ir_port r)" using r1(2,4,7) by (auto simp: ipc_wf_def list_all_length)
  have cap: "0 < unat (mq_capacity (ip_queue (ir_port r)))" using queue_capacity_pos(2) ip by (simp add: ip_wf_def)
  have "handle (im_body \<lparr>im_fd = fd, im_payload = buildFrame body\<rparr>) s = Some (s', resp)"
    using assms(8,11) by (simp add: im_body_buildFrame)
  from ipc_answer_spec[where handle = handle and m = "\<lparr>im_fd = fd, im_payload = buildFrame body\<rparr>", OF ip this] cap assms(5) obtain port' where p:
    "ipc_answer handle \<lparr>im_fd = fd, im_payload = buildFrame body\<rparr> (s, ir_port r) = Some (s', port')" "ip_wf port'"
    "ip_list port' = [\<lparr>im_fd = fd, im_payload = buildFrame resp\<rparr>]" by auto
  from processMessage_eq[OF iw, of handle "(s, ir_port r)"] p(1) r1(8) obtain w' where w:
    "processMessage handle (ir_workers r1 ! i) (s, ir_port r) = Some (w', (s', port'))" "iw_wf w'" by auto
  define t where "t = r1\<lparr>ir_port := port', ir_workers := (ir_workers r1)[i := w']\<rparr>"
  have "ipc_wf t" using r1(2) p(2) w(2)
    by (auto simp: t_def ipc_wf_def list_all_iff dest: set_update_subset_insert[THEN subsetD])
  moreover have "map_of (ir_conns t) fd = Some (conn\<lparr>ic_rxRing := rx\<rparr>)" "map_of (ir_epoll t) fd \<noteq> None"
    "ip_list (ir_port t) = [\<lparr>im_fd = fd, im_payload = buildFrame resp\<rparr>]" "ipc_sent t fd = ipc_sent r fd"
    using r1(3,5,6) p(3) reg assms(2) by (auto simp: t_def ipc_reg_def ipc_sent_def)
  ultimately obtain r2 where "ipc_processTxQueue sends t = Some r2" "ipc_flushed fd (buildFrame resp) (sends fd) t r2"
    using ipc_single_reply[of t fd "conn\<lparr>ic_rxRing := rx\<rparr>" "buildFrame resp" sends] assms(4) len by auto
  moreover have "takes_all (length (buildFrame resp)) (sends fd)" "only_again (sends fd)"
    using len(2) assms(13) by (auto simp: takes_all_def only_again_def)
  ultimately show ?thesis using r1(1,4) w(1) \<open>ipc_sent t fd = ipc_sent r fd\<close> unfolding t_def ipc_flushed_def
    by (auto split: option.splits)
qed

lemma demo_ipc_conn:
  obtains r where "ipc_inv r" "map_of (ir_conns r) 5 = Some (mk_IpcConn 65536 65536)" "ip_list (ir_port r) = []"
    "ir_workers r = [demo_ipc_worker]" "ir_rr r = 0" "ipc_sent r 5 = []"
proof -
  obtain r0 r where d: "mk_IpcReactor [47, 115] [demo_ipc_worker] = Some r0" "ipc_prepare demo_start r0 = (r, True)"
    "list_all iw_wf [demo_ipc_worker]" by (rule demo_ipc)
  note i = ipc_prepare_inv[OF d(1,3,2)]
  have "\<not> accepts_own [ir_listenFd r, ir_wakeupFd r] [AConn 5 ()]" using i by (auto simp: accepts_own_def demo_start_def)
  with i ipc_inv_accept[of r "[AConn 5 ()]"] have "ipc_inv (ipc_acceptConnection [AConn 5 ()] r)" by blast
  with that[of "ipc_acceptConnection [AConn 5 ()] r"] i show ?thesis
    by (simp add: IPC_MAX_RX_BUFFER_SIZE_def IPC_MAX_TX_BUFFER_SIZE_def emplace_def ipc_sent_def)
qed

end
