(* ===== verification/Control.thy ===== *)
theory Control
  imports Engine Complex_Main
begin

text \<open>
  \<open>serverd/core/CoreControl\<close> and \<open>serverd/ipc/IpcCommandHandler\<close>: the statistics the management daemon
  asks for. \<open>Core\<close> is the view of the server core that the control object holds. The JSON library is
  an argument: what \<open>json::parse\<close> followed by \<open>value("cmd", "")\<close> makes of a request, and \<open>dump\<close>. The
  files under \<open>/proc\<close>, the clock and the allocator's statistics are a record \<open>proc_io\<close>.
\<close>

subsection \<open>Snapshots\<close>

record EngineSnapshot =
  es_uptimeSeconds :: u64
  es_rssMB :: u64
  es_heapMB :: u64
  es_dataMB :: u64
  es_virtualMB :: u64
  es_cpuPercent :: rat

record SessionSnapshot =
  ss_totalSessions :: u64
  ss_sessions :: "SessionInfo list"

record Core =
  co_engine :: Engine
  co_rand :: rand
  co_sessionManager :: bool
  co_shardManager :: bool
  co_lastTotal :: int
  co_lastProc :: int

text \<open>
  \<open>pi_now\<close> and \<open>pi_start\<close> are steady-clock times in nanoseconds, \<open>pi_status\<close> the lines of
  \<open>/proc/self/status\<close>, \<open>pi_cpu\<close> the user, nice, system and idle ticks of \<open>/proc/stat\<close>, \<open>pi_times\<close> the
  \<open>utime\<close> and \<open>stime\<close> of \<open>/proc/self/stat\<close>.
\<close>

record proc_io =
  pi_now :: nat
  pi_start :: nat
  pi_status :: "bytes list"
  pi_uordblks :: u64
  pi_cpu :: "int \<times> int \<times> int \<times> int"
  pi_times :: "int \<times> int"

subsubsection \<open>The engine's figures\<close>

definition isspace :: "u8 \<Rightarrow> bool" where
  "isspace c \<longleftrightarrow> c = 0x20 \<or> 0x09 \<le> c \<and> c \<le> 0x0D"

definition isdigit :: "u8 \<Rightarrow> bool" where
  "isdigit c \<longleftrightarrow> 0x30 \<le> c \<and> c \<le> 0x39"

definition digits_value :: "bytes \<Rightarrow> nat" where
  "digits_value ds = foldl (\<lambda>n d. 10 * n + (unat d - 0x30)) 0 ds"

text \<open>\<open>std::stoull\<close>: \<open>None\<close> where it throws, for a text without digits or a number out of range.\<close>

definition stoull :: "bytes \<Rightarrow> u64 option" where
  "stoull s =
     (let s = dropWhile isspace s;
          neg = (s \<noteq> [] \<and> hd s = 0x2D);
          s = (if s \<noteq> [] \<and> (hd s = 0x2D \<or> hd s = 0x2B) then tl s else s);
          ds = takeWhile isdigit s
      in if ds = [] \<or> digits_value ds \<ge> 2 ^ 64 then None
         else Some (if neg then - of_nat (digits_value ds) else of_nat (digits_value ds)))"

definition status_line :: "bytes \<Rightarrow> EngineSnapshot \<Rightarrow> EngineSnapshot option" where
  "status_line line snapshot =
     (if take 6 line = ascii ''VmRSS:''
      then map_option (\<lambda>v. snapshot\<lparr>es_rssMB := v div 1024\<rparr>) (stoull (drop 6 line))
      else if take 7 line = ascii ''VmData:''
      then map_option (\<lambda>v. snapshot\<lparr>es_dataMB := v div 1024\<rparr>) (stoull (drop 7 line))
      else if take 7 line = ascii ''VmSize:''
      then map_option (\<lambda>v. snapshot\<lparr>es_virtualMB := v div 1024\<rparr>) (stoull (drop 7 line))
      else Some snapshot)"

text \<open>
  The counters of the previous call are static variables. The percentage is the quotient before it
  is rounded to a \<open>double\<close>. The second result is \<open>None\<close> for an exception.
\<close>

definition engineSnapshot :: "proc_io \<Rightarrow> Core \<Rightarrow> Core \<times> EngineSnapshot option" where
  "engineSnapshot io core =
     (let snapshot = \<lparr>es_uptimeSeconds = of_nat ((pi_now io - pi_start io) div 10 ^ 9), es_rssMB = 0, es_heapMB = 0,
            es_dataMB = 0, es_virtualMB = 0, es_cpuPercent = 0\<rparr>
      in case ofold status_line (pi_status io) snapshot of
           None \<Rightarrow> (core, None)
         | Some snapshot \<Rightarrow>
             (let snapshot = snapshot\<lparr>es_heapMB := pi_uordblks io div (1024 * 1024)\<rparr>;
                  total = (case pi_cpu io of (user, nice, system, idle) \<Rightarrow> user + nice + system + idle);
                  proc = (case pi_times io of (utime, stime) \<Rightarrow> utime + stime);
                  deltaTotal = total - co_lastTotal core;
                  deltaProc = proc - co_lastProc core;
                  snapshot = snapshot\<lparr>es_cpuPercent :=
                    if deltaTotal > 0 then 100 * of_int deltaProc / of_int deltaTotal else 0\<rparr>
              in (core\<lparr>co_lastTotal := total, co_lastProc := proc\<rparr>, Some snapshot)))"

subsubsection \<open>Sessions and shards\<close>

definition sessionSnapshot :: "Core \<Rightarrow> SessionSnapshot" where
  "sessionSnapshot core =
     (if \<not> co_sessionManager core then \<lparr>ss_totalSessions = 0, ss_sessions = []\<rparr>
      else let sm = eg_sessions (en_egress (co_engine core)) in
           \<lparr>ss_totalSessions = of_nat (totalCount sm), ss_sessions = sm_snapshot sm\<rparr>)"

text \<open>Without a shard manager the count is returned uninitialised.\<close>

definition shardSnapshot :: "Core \<Rightarrow> nat option" where
  "shardSnapshot core = (if \<not> co_shardManager core then None else Some (length (en_shards (co_engine core))))"

subsubsection \<open>Markets\<close>

text \<open>
  Each shard gets an event with a promise; the promises are numbered from \<open>base\<close>. While the control
  thread waits for the next one, at most half a second, the engine goes on with \<open>ops p\<close>.
\<close>

definition market_send :: "nat \<Rightarrow> Engine \<Rightarrow> Engine" where
  "market_send base en =
     fold (\<lambda>i en. dispatch i (Some (MarketDumpReqEvent (base + i))) en) [0..<length (en_shards en)] en"

fun market_wait ::
  "(nat \<Rightarrow> engine_op list) \<Rightarrow> nat list \<Rightarrow> MarketInfo list \<Rightarrow> Engine \<times> rand \<Rightarrow> ((Engine \<times> rand) \<times> MarketInfo list) option" where
  "market_wait ops [] markets s = Some (s, markets)"
| "market_wait ops (p # ps) markets s =
     do {
       s \<leftarrow> ofold engine_step (ops p) s;
       market_wait ops ps (case map_of (en_promises (fst s)) p of Some info \<Rightarrow> markets @ [info] | None \<Rightarrow> markets) s
     }"

definition marketSnapshot :: "(nat \<Rightarrow> engine_op list) \<Rightarrow> nat \<Rightarrow> Core \<Rightarrow> (Core \<times> MarketInfo list) option" where
  "marketSnapshot ops base core =
     (if \<not> co_shardManager core then Some (core, [])
      else do {
        let workerCount = length (en_shards (co_engine core));
        ((en, rs), markets) \<leftarrow>
          market_wait ops (map ((+) base) [0..<workerCount]) [] (market_send base (co_engine core), co_rand core);
        Some (core\<lparr>co_engine := en, co_rand := rs\<rparr>, markets)
      })"

subsection \<open>IpcCommandHandler\<close>

datatype json =
    JBool bool
  | JUInt u64
  | JInt int
  | JReal rat
  | JStr bytes
  | JArr "json list"
  | JObj "(string \<times> json) list"

text \<open>The JSON library: \<open>None\<close> where it throws.\<close>

record json_lib =
  jl_cmd :: "bytes \<Rightarrow> bytes option"
  jl_dump :: "json \<Rightarrow> bytes option"

record control_env =
  ce_json :: json_lib
  ce_proc :: proc_io
  ce_ops :: "nat \<Rightarrow> engine_op list"
  ce_base :: nat

definition engine_json :: "EngineSnapshot \<Rightarrow> json" where
  "engine_json snapshot = JObj [(''ok'', JBool True), (''uptime'', JUInt (es_uptimeSeconds snapshot)),
     (''rssMB'', JUInt (es_rssMB snapshot)), (''heapMB'', JUInt (es_heapMB snapshot)),
     (''dataMB'', JUInt (es_dataMB snapshot)), (''virtualMB'', JUInt (es_virtualMB snapshot)),
     (''cpuPercent'', JReal (es_cpuPercent snapshot))]"

definition session_json :: "SessionInfo \<Rightarrow> json" where
  "session_json s = JObj [(''sid'', JUInt (si_sessionId s)), (''state'', JStr (ascii (si_state s))),
     (''tls_fd'', JInt (si_tlsFd s)), (''tcp_fd'', JInt (si_tcpFd s)), (''udp_fd'', JInt (si_udpFd s))]"

definition sessions_json :: "SessionSnapshot \<Rightarrow> json" where
  "sessions_json snapshot = JObj [(''totalSessions'', JUInt (ss_totalSessions snapshot)),
     (''sessions'', JArr (map session_json (ss_sessions snapshot)))]"

definition item_json :: "MarketItem \<Rightarrow> json" where
  "item_json item = JObj [(''item_id'', JUInt (mi_itemId item)), (''seller_session_id'', JUInt (mi_sellerSessionId item)),
     (''name'', JStr (mi_name item)), (''price'', JUInt (mi_price item)), (''quantity'', JUInt (ucast (mi_quantity item))),
     (''created_at_sec'', JUInt (mi_createdAt item))]"

definition market_json :: "MarketInfo \<Rightarrow> json" where
  "market_json market = JObj [(''marketId'', JUInt (ucast (mf_marketId market))),
     (''itemCount'', JUInt (of_nat (length (mf_items market)))), (''items'', JArr (map item_json (mf_items market)))]"

definition invalid_json :: bytes where "invalid_json = ascii ''{\"error\":\"invalid json\"}''"
definition unknown_command :: bytes where "unknown_command = ascii ''{\"error\":\"unknown command\"}''"

text \<open>The bodies of the \<open>try\<close> block; an exception becomes the error text.\<close>

definition dumped :: "control_env \<Rightarrow> json \<Rightarrow> bytes" where
  "dumped env j = (case jl_dump (ce_json env) j of Some b \<Rightarrow> b | None \<Rightarrow> invalid_json)"

definition handleEngineStats :: "control_env \<Rightarrow> Core \<Rightarrow> Core \<times> bytes" where
  "handleEngineStats env core =
     (case engineSnapshot (ce_proc env) core of
        (core, Some snapshot) \<Rightarrow> (core, dumped env (engine_json snapshot))
      | (core, None) \<Rightarrow> (core, invalid_json))"

definition handleSessionStats :: "control_env \<Rightarrow> Core \<Rightarrow> bytes" where
  "handleSessionStats env core = dumped env (sessions_json (sessionSnapshot core))"

definition handleShardStats :: "control_env \<Rightarrow> Core \<Rightarrow> bytes option" where
  "handleShardStats env core =
     map_option (\<lambda>n. dumped env (JObj [(''shardCount'', JUInt (of_nat n))])) (shardSnapshot core)"

definition handleMarketStats :: "control_env \<Rightarrow> Core \<Rightarrow> (Core \<times> bytes) option" where
  "handleMarketStats env core =
     do {
       (core, markets) \<leftarrow> marketSnapshot (ce_ops env) (ce_base env) core;
       Some (core, dumped env (JObj [(''markets'', JArr (map market_json markets))]))
     }"

definition ipc_handle :: "control_env \<Rightarrow> bytes \<Rightarrow> Core \<Rightarrow> (Core \<times> bytes) option" where
  "ipc_handle env request core =
     (case jl_cmd (ce_json env) request of
        None \<Rightarrow> Some (core, invalid_json)
      | Some cmd \<Rightarrow>
          if cmd = ascii ''stats/session'' then Some (core, handleSessionStats env core)
          else if cmd = ascii ''stats/engine'' then Some (handleEngineStats env core)
          else if cmd = ascii ''stats/shard'' then map_option (Pair core) (handleShardStats env core)
          else if cmd = ascii ''stats/market'' then handleMarketStats env core
          else Some (core, unknown_command))"

subsection \<open>What a step of the engine does to queued events and promises\<close>

definition shard_view :: "Engine \<Rightarrow> (Event list \<times> MarketContext) list" where
  "shard_view en = map (\<lambda>w. (sw_events w, sw_market w)) (en_shards en)"

lemma shard_view_update:
  assumes "\<And>w. sw_events (f w) = sw_events w" "\<And>w. sw_market (f w) = sw_market w"
  shows "shard_view (worker_update i f en) = shard_view en"
  using assms unfolding shard_view_def worker_update_def
  by (cases "i < length (en_shards en)") (simp_all add: map_update list_update_same_conv list_update_beyond)

lemma shard_view_commit [simp]: "shard_view (commit i a en) = shard_view en" "en_promises (commit i a en) = en_promises en"
  by (auto simp: commit_def enqueueAction_def intro!: shard_view_update split: option.split)

lemma shard_view_egress [simp]: "shard_view (en\<lparr>en_egress := eg\<rparr>) = shard_view en"
  by (simp add: shard_view_def)

lemma shard_view_rotate [simp]: "shard_view (rotate_pool en) = shard_view en" "en_promises (rotate_pool en) = en_promises en"
  by (simp_all add: shard_view_def rotate_pool_def)

definition event_promise :: "Event \<Rightarrow> MarketContext \<Rightarrow> (nat \<times> MarketInfo) list" where
  "event_promise ev mc = (case ev of MarketDumpReqEvent p \<Rightarrow> [(p, market_snapshot mc)] | _ \<Rightarrow> [])"

lemma handleEvent_view:
  assumes "engine_wf en" "env_ok env" "handleEvent env i ev en = Some en'" "i < length (en_shards en)"
  shows "shard_view en' = shard_view en \<and>
    en_promises en' = en_promises en @ event_promise ev (sw_market (en_shards en ! i))"
proof (cases ev)
  case (LoginReqEvent sid pl ident pw)
  with assms(3) loginReqEvent_eq[OF assms(1,2)] show ?thesis by (auto simp: event_promise_def)
next
  case (MarketDumpReqEvent p)
  with assms(3,4) show ?thesis by (auto simp: marketDumpReqEvent_def event_promise_def shard_view_def)
qed (use assms(3) in \<open>auto simp: lobbyEntryReqEvent_def pingReqEvent_def event_promise_def\<close>)

lemma action_loop_view:
  assumes "engine_wf en" "i < length (en_shards en)" "action_loop env i en = Some en'"
  shows "shard_view en' = shard_view en \<and> en_promises en' = en_promises en"
proof -
  have "en_txRouter en" using assms(1) by (simp add: engine_wf_def)
  from action_loop_eq[OF this assms(2), of env] assms(3) obtain eg where
    "en' = (worker_update i (\<lambda>w. w\<lparr>sw_actions := []\<rparr>) en)\<lparr>en_egress := eg\<rparr>" by (auto split: bind_splits)
  then show ?thesis by (simp add: shard_view_update)
qed

lemma pop_view:
  "i < length (en_shards en) \<Longrightarrow>
    shard_view (worker_update i (\<lambda>w. w\<lparr>sw_events := tl (sw_events w)\<rparr>) en) =
      (shard_view en)[i := (tl (fst (shard_view en ! i)), snd (shard_view en ! i))]"
  by (simp add: shard_view_def worker_update_def map_update)

lemma pass_view:
  assumes "engine_wf en" "env_ok env" "i < length (en_shards en)" "processPacket_pass env now i en = Some en'"
  shows "shard_view en' = (shard_view en)[i := (tl (fst (shard_view en ! i)), snd (shard_view en ! i))] \<and>
    en_promises en' = en_promises en @
      (case fst (shard_view en ! i) of [] \<Rightarrow> [] | ev # _ \<Rightarrow> event_promise ev (snd (shard_view en ! i)))"
proof -
  let ?pop = "worker_update i (\<lambda>w. w\<lparr>sw_events := tl (sw_events w)\<rparr>) en"
  let ?V = "(shard_view en)[i := (tl (fst (shard_view en ! i)), snd (shard_view en ! i))]"
  let ?P = "en_promises en @ (case fst (shard_view en ! i) of [] \<Rightarrow> [] | ev # _ \<Rightarrow> event_promise ev (snd (shard_view en ! i)))"
  have vi: "shard_view en ! i = (sw_events (en_shards en ! i), sw_market (en_shards en ! i))"
    using assms(3) by (simp add: shard_view_def)
  from assms(3,4) obtain en1 en2 where s: "(case sw_events (en_shards en ! i) of [] \<Rightarrow> Some en
      | event # _ \<Rightarrow> handleEvent env i event ?pop) = Some en1" "action_loop env i en1 = Some en2"
    "en' = worker_update i (tick_handling now) en2" by (auto simp: processPacket_pass_def split: bind_splits)
  have 1: "shard_view en1 = ?V \<and> en_promises en1 = ?P \<and> engine_wf en1 \<and> i < length (en_shards en1)"
  proof (cases "sw_events (en_shards en ! i)")
    case Nil
    then have "?V = shard_view en" using list_update_id[of "shard_view en" i] unfolding vi by simp
    with Nil s(1) assms(1,3) vi show ?thesis by simp
  next
    case (Cons ev evs)
    have wf: "engine_wf ?pop" using assms(1) by (simp add: engine_wf_worker_update)
    have i: "i < length (en_shards ?pop)" using assms(3) by simp
    have h: "handleEvent env i ev ?pop = Some en1" using s(1) Cons by simp
    from handleEvent_wf[OF wf assms(2) i, of ev] h have "engine_wf en1" "i < length (en_shards en1)" using i by auto
    with handleEvent_view[OF wf assms(2) h i] pop_view[OF assms(3)] vi Cons assms(3) show ?thesis by simp
  qed
  have 2: "shard_view en2 = ?V \<and> en_promises en2 = ?P" using action_loop_view[OF _ _ s(2)] 1 by simp
  then show ?thesis unfolding s(3)
    by (simp add: shard_view_update tick_handling_def onTick_def Let_def)
qed

text \<open>Packets become events of clients, never market dumps.\<close>

lemma EventFactory_no_dump: "EventFactory_create r = Some (Some e) \<Longrightarrow> e \<noteq> MarketDumpReqEvent p"
  by (auto simp: EventFactory_cases parseLoginReq_def parsePingReq_def parseLobbyEntryReq_def Let_def
      split: if_splits prod.splits bind_splits)

lemma rx_session_view:
  assumes "rx_session q (en, rs) = Some ((en', rs'), r, ok)"
  shows "shard_view en' = shard_view en \<and> en_promises en' = en_promises en"
  using assms by (auto simp: rx_session_def set_sessions_def split_beta Let_def split: if_splits bind_splits)

lemma packet_view:
  assumes "RxRouter_handlePacket packet (en, rs) = Some (en', rs')"
  shows "en_promises en' = en_promises en \<and> (shard_view en' = shard_view en \<or>
    (\<exists>j e. j < length (shard_view en) \<and> (\<forall>p. e \<noteq> MarketDumpReqEvent p) \<and>
      shard_view en' = (shard_view en)[j := (fst (shard_view en ! j) @ [e], snd (shard_view en ! j))]))"
proof (cases "PacketParser_parse (Some packet)")
  case None
  with assms show ?thesis by (simp add: RxRouter_handlePacket_def)
next
  case (Some q)
  obtain en1 rs1 r ok where s: "rx_session q (en, rs) = Some ((en1, rs1), r, ok)"
    using assms Some by (auto simp: RxRouter_handlePacket_def split: bind_splits)
  note v = rx_session_view[OF s]
  show ?thesis
  proof (cases "\<not> ok \<or> pp_sessionId r = 0")
    case True
    with assms Some s v show ?thesis by (auto simp: RxRouter_handlePacket_def split: if_splits)
  next
    case False
    with assms Some s obtain i ev where i: "selectShard en1 (pp_sessionId r) = Some i" "EventFactory_create r = Some ev"
      "(en', rs') = (if ev = None then (en1, rs1) else (dispatch i ev en1, rs1))"
      by (auto simp: RxRouter_handlePacket_def split: bind_splits if_splits)
    show ?thesis
    proof (cases ev)
      case None
      with i(3) v show ?thesis by simp
    next
      case (Some e)
      have b: "i < length (en_shards en1)" by (rule selectShard_bound[OF i(1)])
      have "shard_view (dispatch i ev en1) = (shard_view en1)[i := (fst (shard_view en1 ! i) @ [e], snd (shard_view en1 ! i))]"
        using b Some by (simp add: dispatch_def enqueueEvent_def shard_view_def worker_update_def map_update)
      moreover have "en_promises (dispatch i ev en1) = en_promises en1" by (simp add: dispatch_def)
      moreover have "length (shard_view en1) = length (en_shards en1)" by (simp add: shard_view_def)
      ultimately show ?thesis using i(2,3) Some v b EventFactory_no_dump[of r e] by auto
    qed
  qed
qed

subsection \<open>Promises are kept\<close>

text \<open>
  The markets are \<open>ms\<close>; promise \<open>base + i\<close> is fulfilled with market \<open>i\<close> or its event is among the next
  \<open>k i\<close> events of shard \<open>i\<close>, and in no other queue.
\<close>

definition market_inv :: "nat \<Rightarrow> MarketContext list \<Rightarrow> (nat \<Rightarrow> nat) \<Rightarrow> Engine \<Rightarrow> bool" where
  "market_inv base ms k en \<longleftrightarrow> map snd (shard_view en) = ms \<and>
     (\<forall>i < length ms.
        (case map_of (en_promises en) (base + i) of
           Some info \<Rightarrow> info = market_snapshot (ms ! i)
         | None \<Rightarrow> \<exists>k' < k i. k' < length (fst (shard_view en ! i)) \<and>
             fst (shard_view en ! i) ! k' = MarketDumpReqEvent (base + i)) \<and>
        (\<forall>j < length ms. MarketDumpReqEvent (base + j) \<in> set (fst (shard_view en ! i)) \<longrightarrow> j = i))"

definition is_pass :: "nat \<Rightarrow> engine_op \<Rightarrow> bool" where
  "is_pass i op = (case op of RxPacket packet \<Rightarrow> False | ShardPass env now j \<Rightarrow> j = i)"

lemma market_inv_packet:
  assumes "market_inv base ms k en" "RxRouter_handlePacket packet (en, rs) = Some (en', rs')"
  shows "market_inv base ms k en'"
proof -
  from packet_view[OF assms(2)] consider "en_promises en' = en_promises en" "shard_view en' = shard_view en"
    | j e where "en_promises en' = en_promises en" "j < length (shard_view en)" "\<forall>p. e \<noteq> MarketDumpReqEvent p"
        "shard_view en' = (shard_view en)[j := (fst (shard_view en ! j) @ [e], snd (shard_view en ! j))]" by blast
  then show ?thesis
  proof cases
    case 1
    from assms(1) show ?thesis unfolding market_inv_def 1 .
  next
    case (2 j e)
    have m: "map snd (shard_view en') = map snd (shard_view en)"
      using 2(2,4) by (simp add: map_update list_update_same_conv)
    have l: "length ms = length (shard_view en)" using assms(1) by (auto simp: market_inv_def)
    show ?thesis unfolding market_inv_def m 2(1)
    proof (intro conjI allI impI)
      show "map snd (shard_view en) = ms" using assms(1) by (simp add: market_inv_def)
      fix i assume i: "i < length ms"
      note I = assms(1)[unfolded market_inv_def, THEN conjunct2, rule_format, OF i]
      show "case map_of (en_promises en) (base + i) of Some info \<Rightarrow> info = market_snapshot (ms ! i)
        | None \<Rightarrow> \<exists>k' < k i. k' < length (fst (shard_view en' ! i)) \<and> fst (shard_view en' ! i) ! k' = MarketDumpReqEvent (base + i)"
        using I i l 2(2) unfolding 2(4) by (cases "i = j") (fastforce simp: nth_append split: option.splits)+
      fix j' assume "j' < length ms" "MarketDumpReqEvent (base + j') \<in> set (fst (shard_view en' ! i))"
      then show "j' = i" using I i l 2(2,3) unfolding 2(4) by (cases "i = j") auto
    qed
  qed
qed

lemma market_inv_pass:
  assumes "market_inv base ms k en" "engine_wf en" "env_ok env" "i < length (en_shards en)"
    and "processPacket_pass env now i en = Some en'"
  shows "market_inv base ms (k(i := k i - 1)) en'"
proof -
  let ?v = "shard_view en" and ?P = "en_promises en"
  have l: "length ms = length ?v" "length ?v = length (en_shards en)" using assms(1) by (auto simp: market_inv_def shard_view_def)
  have v: "shard_view en' = ?v[i := (tl (fst (?v ! i)), snd (?v ! i))]"
    "en_promises en' = ?P @ (case fst (?v ! i) of [] \<Rightarrow> [] | ev # _ \<Rightarrow> event_promise ev (snd (?v ! i)))"
    using pass_view[OF assms(2-5)] by auto
  have set_tl: "set (tl xs) \<subseteq> set xs" for xs :: "Event list" by (cases xs) auto
  have ms: "map snd ?v = ms" "snd (?v ! i) = ms ! i" using assms(1,4) l by (auto simp: market_inv_def)
  have m: "map snd (shard_view en') = ms" using v(1) ms assms(4) l by (simp add: map_update list_update_same_conv)
  show ?thesis unfolding market_inv_def m
  proof (intro conjI allI impI refl)
    fix g assume g: "g < length ms"
    note I = assms(1)[unfolded market_inv_def, THEN conjunct2, rule_format, OF g]
    have Ii: "MarketDumpReqEvent (base + j) \<in> set (fst (?v ! i)) \<Longrightarrow> j < length ms \<Longrightarrow> j = i" for j
      using assms(1,4) l unfolding market_inv_def by metis
    show "case map_of (en_promises en') (base + g) of Some info \<Rightarrow> info = market_snapshot (ms ! g)
      | None \<Rightarrow> \<exists>k' < (k(i := k i - 1)) g. k' < length (fst (shard_view en' ! g)) \<and>
          fst (shard_view en' ! g) ! k' = MarketDumpReqEvent (base + g)"
    proof (cases "map_of ?P (base + g)")
      case (Some info)
      with I v(2) show ?thesis by (simp add: map_add_def)
    next
      case None
      with I obtain k' where k': "k' < k g" "k' < length (fst (?v ! g))" "fst (?v ! g) ! k' = MarketDumpReqEvent (base + g)" by auto
      show ?thesis
      proof (cases "fst (?v ! i)")
        case Nil
        with None k' v l assms(4) show ?thesis by (cases "g = i") auto
      next
        case (Cons ev evs)
        have new: "map_of (en_promises en') (base + g) = map_of (event_promise ev (ms ! i)) (base + g)"
          using v(2) Cons None ms(2) by (simp add: map_add_def split: option.split)
        show ?thesis
        proof (cases "g = i")
          case True
          have val: "map_of (event_promise ev (ms ! i)) q = Some info \<Longrightarrow> info = market_snapshot (ms ! i)" for q info
            by (auto simp: event_promise_def split: Event.splits if_splits)
          show ?thesis
          proof (cases k')
            case 0
            with True new k'(3) Cons show ?thesis by (simp add: event_promise_def)
          next
            case (Suc n)
            have "fst (shard_view en' ! g) = evs" using True Cons v(1) l assms(4) by simp
            with Suc True k' Cons have "n < (k(i := k i - 1)) g \<and> n < length (fst (shard_view en' ! g)) \<and>
                fst (shard_view en' ! g) ! n = MarketDumpReqEvent (base + g)" by auto
            then show ?thesis using val[of "base + g"] True unfolding new by (cases "map_of (event_promise ev (ms ! i)) (base + g)") auto
          qed
        next
          case False
          have "ev \<noteq> MarketDumpReqEvent (base + g)" using Ii[of g] Cons g False by auto
          with new False k' v(1) show ?thesis by (auto simp: event_promise_def split: Event.split)
        qed
      qed
    qed
    fix j assume j: "j < length ms" "MarketDumpReqEvent (base + j) \<in> set (fst (shard_view en' ! g))"
    have "set (fst (shard_view en' ! g)) \<subseteq> set (fst (?v ! g))"
      using v(1) l assms(4) set_tl[of "fst (?v ! i)"] by (cases "g = i") auto
    with j I show "j = g" by blast
  qed
qed

definition passes :: "nat \<Rightarrow> engine_op list \<Rightarrow> nat" where
  "passes i ops = length (filter (is_pass i) ops)"

definition rand_good :: "rand \<Rightarrow> bool" where
  "rand_good rs \<longleftrightarrow> list_all (\<lambda>r. r \<noteq> None \<and> r \<noteq> Some 0) rs"

text \<open>The engine is well-formed with \<open>n\<close> random ids left, and promises are on their way.\<close>

definition market_live :: "nat \<Rightarrow> MarketContext list \<Rightarrow> (nat \<Rightarrow> nat) \<Rightarrow> nat \<Rightarrow> Engine \<times> rand \<Rightarrow> bool" where
  "market_live base ms k n s \<longleftrightarrow> engine_wf (fst s) \<and> length (en_shards (fst s)) = length ms \<and> ms \<noteq> [] \<and>
     market_inv base ms k (fst s) \<and> rand_good (snd s) \<and> n \<le> length (snd s)"

lemma market_live_step:
  assumes "market_live base ms k (Suc n) (en, rs)" "op_ok (length ms) op"
  shows "\<exists>s'. engine_step op (en, rs) = Some s' \<and> market_live base ms (\<lambda>i. k i - passes i [op]) n s'"
proof -
  have wf: "engine_wf en" "length (en_shards en) = length ms" "en_shards en \<noteq> []" "market_inv base ms k en"
    using assms(1) by (auto simp: market_live_def)
  from assms(1) obtain sid rs0 where rs: "rs = Some sid # rs0" "sid \<noteq> 0" "rand_good rs0" "n \<le> length rs0"
    by (cases rs) (auto simp: market_live_def rand_good_def)
  from engine_step_wf[OF wf(1,3) rs(2), of op rs0] assms(2) wf(2) obtain en' rs' where s:
    "engine_step op (en, rs) = Some (en', rs')" "engine_wf en'" "length (en_shards en') = length ms"
    "rs' = rs0 \<or> rs' = Some sid # rs0" unfolding rs(1) by auto
  have r: "rand_good rs'" "n \<le> length rs'" using s(4) rs by (auto simp: rand_good_def)
  have "market_inv base ms (\<lambda>i. k i - passes i [op]) en'"
  proof (cases op)
    case (RxPacket packet)
    with s(1) have "RxRouter_handlePacket packet (en, rs) = Some (en', rs')" by simp
    from market_inv_packet[OF wf(4) this] RxPacket show ?thesis by (simp add: passes_def is_pass_def)
  next
    case (ShardPass env now i)
    with s(1) assms(2) wf(2) have p: "processPacket_pass env now i en = Some en'" "env_ok env" "i < length (en_shards en)" by auto
    have "(\<lambda>j. k j - passes j [op]) = k(i := k i - 1)" using ShardPass by (auto simp: passes_def is_pass_def)
    with market_inv_pass[OF wf(4,1) p(2,3,1)] show ?thesis by simp
  qed
  with s r wf(2,3) show ?thesis by (auto simp: market_live_def)
qed

lemma market_live_run:
  assumes "market_live base ms k (length ops + n) s" "list_all (op_ok (length ms)) ops"
  shows "\<exists>s'. ofold engine_step ops s = Some s' \<and> market_live base ms (\<lambda>i. k i - passes i ops) n s'"
  using assms
proof (induction ops arbitrary: s k)
  case Nil
  then show ?case by (simp add: passes_def)
next
  case (Cons op ops)
  obtain en rs where s: "s = (en, rs)" by force
  from Cons.prems market_live_step[of base ms k "length ops + n" en rs op] obtain s1 where s1:
    "engine_step op s = Some s1" "market_live base ms (\<lambda>i. k i - passes i [op]) (length ops + n) s1" by (auto simp: s)
  from Cons.IH[OF s1(2)] Cons.prems(2) obtain s' where "ofold engine_step ops s1 = Some s'"
    "market_live base ms (\<lambda>i. k i - passes i [op] - passes i ops) n s'" by auto
  moreover have "(\<lambda>i. k i - passes i [op] - passes i ops) = (\<lambda>i. k i - passes i (op # ops))" by (auto simp: passes_def)
  ultimately show ?case using s1(1) by simp
qed

lemma market_live_ready:
  assumes "market_live base ms k n s" "i < length ms" "k i = 0"
  shows "map_of (en_promises (fst s)) (base + i) = Some (market_snapshot (ms ! i))"
  using assms unfolding market_live_def market_inv_def by (fastforce split: option.splits)

abbreviation waited :: "(nat \<Rightarrow> engine_op list) \<Rightarrow> nat \<Rightarrow> nat list \<Rightarrow> engine_op list" where
  "waited ops base is \<equiv> concat (map (\<lambda>i. ops (base + i)) is)"

lemma market_wait_complete:
  assumes "market_live base ms k (length (waited ops base [i..<length ms])) s" "\<forall>p. list_all (op_ok (length ms)) (ops p)"
    and "\<forall>j. i \<le> j \<and> j < length ms \<longrightarrow> k j \<le> passes j (waited ops base [i..<Suc j])"
  shows "\<exists>s'. market_wait ops (map ((+) base) [i..<length ms]) markets s =
    Some (s', markets @ map market_snapshot (drop i ms))"
  using assms
proof (induction "length ms - i" arbitrary: i k s markets)
  case 0
  then show ?case by simp
next
  case (Suc d)
  then have i: "i < length ms" "[i..<length ms] = i # [Suc i..<length ms]" by (simp_all add: upt_conv_Cons)
  let ?k = "\<lambda>j. k j - passes j (ops (base + i))"
  from Suc.prems(1,2) i(2) market_live_run[of base ms k "ops (base + i)" "length (waited ops base [Suc i..<length ms])" s]
  obtain s1 where s1: "ofold engine_step (ops (base + i)) s = Some s1"
    "market_live base ms ?k (length (waited ops base [Suc i..<length ms])) s1" by auto
  have "k i \<le> passes i (ops (base + i))" using Suc.prems(3) i(1) by auto
  with market_live_ready[OF s1(2) i(1)] have rdy: "map_of (en_promises (fst s1)) (base + i) = Some (market_snapshot (ms ! i))" by simp
  have ks: "\<forall>j. Suc i \<le> j \<and> j < length ms \<longrightarrow> ?k j \<le> passes j (waited ops base [Suc i..<Suc j])"
  proof (intro allI impI)
    fix j assume j: "Suc i \<le> j \<and> j < length ms"
    then have "k j \<le> passes j (waited ops base [i..<Suc j])" using Suc.prems(3) by auto
    moreover have "[i..<Suc j] = i # [Suc i..<Suc j]" using j by (simp add: upt_conv_Cons)
    ultimately show "?k j \<le> passes j (waited ops base [Suc i..<Suc j])" by (simp add: passes_def)
  qed
  have d: "d = length ms - Suc i" using Suc.hyps(2) by simp
  from Suc.hyps(1)[OF d s1(2) Suc.prems(2) ks, of "markets @ [market_snapshot (ms ! i)]"] obtain s' where
    "market_wait ops (map ((+) base) [Suc i..<length ms]) (markets @ [market_snapshot (ms ! i)]) s1 =
      Some (s', (markets @ [market_snapshot (ms ! i)]) @ map market_snapshot (drop (Suc i) ms))" by auto
  moreover have "drop i ms = ms ! i # drop (Suc i) ms" using i(1) by (simp add: Cons_nth_drop_Suc)
  ultimately show ?case using s1(1) rdy i(2) by simp
qed

lemma market_send_view:
  fixes base :: nat
  assumes "m \<le> length (en_shards en)"
  defines "en' \<equiv> fold (\<lambda>i en. dispatch i (Some (MarketDumpReqEvent (base + i))) en) [0..<m] en"
  shows "shard_view en' = map (\<lambda>i. (fst (shard_view en ! i) @ (if i < m then [MarketDumpReqEvent (base + i)] else []),
      snd (shard_view en ! i))) [0..<length (en_shards en)] \<and>
    en_promises en' = en_promises en \<and> length (en_shards en') = length (en_shards en) \<and> (engine_wf en \<longrightarrow> engine_wf en')"
  using assms(1) unfolding en'_def
proof (induction m)
  case 0
  have "shard_view en = map (\<lambda>i. (fst (shard_view en ! i) @ [], snd (shard_view en ! i))) [0..<length (en_shards en)]"
    by (rule nth_equalityI) (simp_all add: shard_view_def)
  then show ?case by simp
next
  case (Suc m)
  let ?f = "\<lambda>i en. dispatch i (Some (MarketDumpReqEvent (base + i))) en"
  let ?t = "fold ?f [0..<m] en"
  have IH: "shard_view ?t = map (\<lambda>i. (fst (shard_view en ! i) @ (if i < m then [MarketDumpReqEvent (base + i)] else []),
      snd (shard_view en ! i))) [0..<length (en_shards en)]" "en_promises ?t = en_promises en"
    "length (en_shards ?t) = length (en_shards en)" "engine_wf en \<longrightarrow> engine_wf ?t" using Suc by simp_all
  have d: "?f m ?t = worker_update m (enqueueEvent (Some (MarketDumpReqEvent (base + m)))) ?t"
    using Suc.prems IH(3) by (simp add: dispatch_def)
  have "shard_view (?f m ?t) = (shard_view ?t)[m := (fst (shard_view ?t ! m) @ [MarketDumpReqEvent (base + m)], snd (shard_view ?t ! m))]"
    unfolding d using Suc.prems IH(3) by (simp add: shard_view_def worker_update_def enqueueEvent_def map_update)
  also have "\<dots> = map (\<lambda>i. (fst (shard_view en ! i) @ (if i < Suc m then [MarketDumpReqEvent (base + i)] else []),
      snd (shard_view en ! i))) [0..<length (en_shards en)]"
    unfolding IH(1) using Suc.prems by (intro nth_equalityI) (auto simp: nth_list_update)
  finally have v: "shard_view (?f m ?t) = map (\<lambda>i. (fst (shard_view en ! i) @ (if i < Suc m then [MarketDumpReqEvent (base + i)] else []),
      snd (shard_view en ! i))) [0..<length (en_shards en)]" .
  have e: "fold ?f [0..<Suc m] en = ?f m ?t" by simp
  have "en_promises (?f m ?t) = en_promises en" "length (en_shards (?f m ?t)) = length (en_shards en)"
    using IH by (simp_all add: d)
  moreover have "engine_wf en \<longrightarrow> engine_wf (?f m ?t)" using IH(4) engine_wf_dispatch by blast
  ultimately show ?case unfolding e using v by blast
qed

text \<open>The promise numbers from \<open>base\<close> on are not in use.\<close>

definition promises_fresh :: "nat \<Rightarrow> Engine \<Rightarrow> bool" where
  "promises_fresh base en \<longleftrightarrow> (\<forall>p \<ge> base. p \<notin> fst ` set (en_promises en) \<and>
     (\<forall>w \<in> set (en_shards en). MarketDumpReqEvent p \<notin> set (sw_events w)))"

lemma market_send_live:
  assumes "engine_wf en" "en_shards en \<noteq> []" "promises_fresh base en" "rand_good rs" "n \<le> length rs"
  shows "market_live base (map sw_market (en_shards en)) (\<lambda>i. Suc (length (sw_events (en_shards en ! i)))) n
    (market_send base en, rs)"
proof -
  let ?en = "market_send base en" and ?n = "length (en_shards en)"
  note v = market_send_view[where en = en and base = base, OF order.refl, folded market_send_def]
  have view: "shard_view ?en = map (\<lambda>i. (sw_events (en_shards en ! i) @ [MarketDumpReqEvent (base + i)],
      sw_market (en_shards en ! i))) [0..<?n]"
    unfolding v[THEN conjunct1] by (intro nth_equalityI) (simp_all add: shard_view_def)
  have ms: "map snd (shard_view ?en) = map sw_market (en_shards en)" unfolding view by (intro nth_equalityI) simp_all
  have "market_inv base (map sw_market (en_shards en)) (\<lambda>i. Suc (length (sw_events (en_shards en ! i)))) ?en"
    unfolding market_inv_def ms
  proof (intro conjI allI impI refl)
    fix i assume "i < length (map sw_market (en_shards en))"
    then have i: "i < ?n" by simp
    have ev: "fst (shard_view ?en ! i) = sw_events (en_shards en ! i) @ [MarketDumpReqEvent (base + i)]" unfolding view using i by simp
    have "map_of (en_promises ?en) (base + i) = None"
      using v assms(3) by (simp add: promises_fresh_def map_of_eq_None_iff)
    then show "case map_of (en_promises ?en) (base + i) of Some info \<Rightarrow> info = market_snapshot (map sw_market (en_shards en) ! i)
      | None \<Rightarrow> \<exists>k' < Suc (length (sw_events (en_shards en ! i))). k' < length (fst (shard_view ?en ! i)) \<and>
          fst (shard_view ?en ! i) ! k' = MarketDumpReqEvent (base + i)"
      unfolding ev by (auto intro!: exI[of _ "length (sw_events (en_shards en ! i))"])
    fix j assume "MarketDumpReqEvent (base + j) \<in> set (fst (shard_view ?en ! i))"
    then show "j = i" using assms(3) i unfolding ev by (auto simp: promises_fresh_def)
  qed
  with v assms show ?thesis by (simp add: market_live_def)
qed

subsection \<open>Properties\<close>

text \<open>
  C33. The market statistics are complete whenever the shards keep up: if, while the control thread
  waits for a shard's promise, that shard gets one pass more than it had events waiting, in any
  interleaving with packets and passes of other shards, then the snapshot returns, with exactly
  one entry per shard, in shard order, holding that shard's market.
\<close>

theorem market_snapshot_complete:
  assumes "engine_wf (co_engine core)" "co_shardManager core" "en_shards (co_engine core) \<noteq> []"
    and "promises_fresh base (co_engine core)" "n = length (en_shards (co_engine core))"
    and "\<forall>p. list_all (op_ok n) (ops p)" "rand_good (co_rand core)"
    and "length (concat (map (\<lambda>i. ops (base + i)) [0..<n])) \<le> length (co_rand core)"
    and "\<forall>i < n. length (sw_events (en_shards (co_engine core) ! i)) <
      length (filter (is_pass i) (concat (map (\<lambda>j. ops (base + j)) [0..<Suc i])))"
  shows "\<exists>core'. marketSnapshot ops base core =
    Some (core', map (\<lambda>w. market_snapshot (sw_market w)) (en_shards (co_engine core)))"
proof -
  let ?ms = "map sw_market (en_shards (co_engine core))"
  have n: "n = length ?ms" using assms(5) by simp
  let ?k = "\<lambda>i. Suc (length (sw_events (en_shards (co_engine core) ! i)))"
  have live: "market_live base ?ms ?k (length (waited ops base [0..<length ?ms])) (market_send base (co_engine core), co_rand core)"
    using market_send_live[OF assms(1,3,4,7,8)] n by simp
  have ok: "\<forall>p. list_all (op_ok (length ?ms)) (ops p)" using assms(6) n by simp
  have enough: "\<forall>j. 0 \<le> j \<and> j < length ?ms \<longrightarrow> ?k j \<le> passes j (waited ops base [0..<Suc j])"
    using assms(9) n unfolding passes_def by (simp only: less_eq_Suc_le) simp
  from market_wait_complete[OF live ok enough, of "[]"]
  obtain s' where "market_wait ops (map ((+) base) [0..<n]) [] (market_send base (co_engine core), co_rand core) =
      Some (s', map market_snapshot ?ms)"
    unfolding n by auto
  then show ?thesis using assms(2,5) by (cases s') (simp add: marketSnapshot_def comp_def)
qed

definition demo_core :: Core where
  "demo_core = \<lparr>co_engine = demo_engine, co_rand = [Some 7, Some 8, Some 9], co_sessionManager = True,
     co_shardManager = True, co_lastTotal = 0, co_lastProc = 0\<rparr>"

definition demo_ops :: "nat \<Rightarrow> engine_op list" where
  "demo_ops p = (if p = 10 then [ShardPass demo_env 0 1, ShardPass demo_env 0 0]
     else [RxPacket (demo_packet UDP [1, 2, 3])])"

theorem market_snapshot_complete_witness:
  "\<exists>core' m0 m1. marketSnapshot demo_ops 10 demo_core = Some (core', [m0, m1])"
proof -
  let ?ws = "en_shards demo_engine"
  have idle: "sw_events (?ws ! i) = []" if "i < 2" for i
    using that by (simp add: demo_engine_def initWorkers_def mk_ShardWorker_def Let_def)
  have two: "[0..<Suc 0] = [0]" "[0..<Suc 1] = [0, 1]" "[0..<2] = [0, 1]" by (simp_all add: upt_rec)
  have ws: "?ws \<noteq> []" "2 = length ?ws" using demo_engine_wf(2) by auto
  have "promises_fresh 10 demo_engine"
    by (auto simp: promises_fresh_def demo_engine_def initWorkers_def mk_ShardWorker_def Let_def)
  moreover have "\<forall>p. list_all (op_ok 2) (demo_ops p)" using demo_engine_wf(3) by (simp add: demo_ops_def)
  moreover have "\<forall>i < 2. length (sw_events (?ws ! i)) <
      length (filter (is_pass i) (concat (map (\<lambda>j. demo_ops (10 + j)) [0..<Suc i])))"
    using idle by (auto simp: demo_ops_def is_pass_def two less_2_cases_iff)
  ultimately have "\<exists>core'. marketSnapshot demo_ops 10 demo_core =
      Some (core', map (\<lambda>w. market_snapshot (sw_market w)) ?ws)"
    using market_snapshot_complete[of demo_core 10 2 demo_ops] demo_engine_wf(1) ws
    by (simp add: demo_core_def rand_good_def two demo_ops_def)
  moreover obtain w0 w1 where "?ws = [w0, w1]"
    using demo_engine_wf(2) by (auto simp: numeral_2_eq_2 length_Suc_conv)
  ultimately show ?thesis by auto
qed

end
