(* ===== verification/MgmtIpc.thy ===== *)
theory MgmtIpc
  imports IpcProps Control
begin

text \<open>
  The management daemon's side of the statistics: \<open>mgmtd/ipc/IpcClient\<close>, which sends one request over
  a fresh connection and reads one reply, \<open>mgmtd/ipc/IpcCommandHandler\<close> and
  \<open>mgmtd/service/StatsService\<close>. The last part joins it to the server of \<open>Ipc\<close> and \<open>Control\<close>.
\<close>

subsection \<open>IpcClient\<close>

text \<open>
  The sockets are blocking. \<open>ci_sends\<close> answers the calls of \<open>send\<close>: how many of the offered bytes are
  taken at most, or an error. \<open>ci_stream\<close> is what the peer sends before it closes its end, and
  \<open>ci_reads\<close> how many bytes each \<open>read\<close> yields at most. A script that runs out is a call that never
  returns, \<open>None\<close>.
\<close>

datatype read_size = RSize nat | RFail errno

record client_io =
  ci_socket :: fd
  ci_connect :: bool
  ci_sends :: "send_res list"
  ci_stream :: bytes
  ci_reads :: "read_size list"

text \<open>The exceptions, and what a call leaves: the bytes sent, the descriptors closed, the result.\<close>

datatype client_error =
  PayloadTooLarge | SocketFailed | PathTooLong | ConnectFailed | WriteFailed | ReadFailed | InvalidReplyLength

record client_run =
  cr_sent :: bytes
  cr_closed :: "fd list"
  cr_result :: "client_error + bytes"

primrec writeAll :: "send_res list \<Rightarrow> bytes \<Rightarrow> bytes \<Rightarrow> (bool \<times> bytes \<times> send_res list) option" where
  "writeAll [] data sent = (if data = [] then Some (True, sent, []) else None)"
| "writeAll (w # ws) data sent =
     (if data = [] then Some (True, sent, w # ws)
      else case w of
        SErr e \<Rightarrow> if e = EINTR then writeAll ws data sent else Some (False, sent, ws)
      | SSent n \<Rightarrow> writeAll ws (drop n data) (sent @ take n data))"

primrec readExact :: "read_size list \<Rightarrow> nat \<Rightarrow> bytes \<Rightarrow> bytes \<Rightarrow> (bool \<times> bytes \<times> bytes \<times> read_size list) option" where
  "readExact [] len stream buf = (if length buf < len then None else Some (True, buf, stream, []))"
| "readExact (r # rs) len stream buf =
     (if \<not> length buf < len then Some (True, buf, stream, r # rs)
      else case r of
        RFail e \<Rightarrow> if e = EINTR then readExact rs len stream buf else Some (False, buf, stream, rs)
      | RSize n \<Rightarrow>
          let k = min n (min (len - length buf) (length stream)) in
          if k = 0 then Some (False, buf, stream, rs)
          else readExact rs len (drop k stream) (buf @ take k stream))"

definition MAX_BODY :: nat where "MAX_BODY = 64 * 1024"
definition SUN_PATH_SIZE :: nat where "SUN_PATH_SIZE = 108"

definition failed :: "client_io \<Rightarrow> bytes \<Rightarrow> client_error \<Rightarrow> client_run" where
  "failed io sent e = \<lparr>cr_sent = sent, cr_closed = [ci_socket io], cr_result = Inl e\<rparr>"

definition read_reply :: "client_io \<Rightarrow> bytes \<Rightarrow> client_run option" where
  "read_reply io sent =
     do {
       (ok, header, stream, rs) \<leftarrow> readExact (ci_reads io) 2 (ci_stream io) [];
       if \<not> ok then Some (failed io sent ReadFailed)
       else let rlen = ntohs (of_mem header :: u16) in
         if unat rlen > MAX_BODY then Some (failed io sent InvalidReplyLength)
         else if rlen = 0 then Some \<lparr>cr_sent = sent, cr_closed = [ci_socket io], cr_result = Inr []\<rparr>
         else do {
           (ok, reply, _, _) \<leftarrow> readExact rs (unat rlen) stream [];
           if \<not> ok then Some (failed io sent ReadFailed)
           else Some \<lparr>cr_sent = sent, cr_closed = [ci_socket io], cr_result = Inr reply\<rparr>
         }
     }"

definition IpcClient_send :: "bytes \<Rightarrow> client_io \<Rightarrow> bytes \<Rightarrow> client_run option" where
  "IpcClient_send path io payload =
     (if length payload > MAX_BODY then Some \<lparr>cr_sent = [], cr_closed = [], cr_result = Inl PayloadTooLarge\<rparr>
      else if ci_socket io < 0 then Some \<lparr>cr_sent = [], cr_closed = [], cr_result = Inl SocketFailed\<rparr>
      else if length path \<ge> SUN_PATH_SIZE then Some (failed io [] PathTooLong)
      else if \<not> ci_connect io then Some (failed io [] ConnectFailed)
      else do {
        let nlen = htons (of_nat (length payload));
        (ok, sent, ws) \<leftarrow> writeAll (ci_sends io) (mem_of 2 nlen) [];
        if \<not> ok then Some (failed io sent WriteFailed)
        else do {
          (ok, sent, ws) \<leftarrow> (if payload \<noteq> [] then writeAll ws payload sent else Some (True, sent, ws));
          if \<not> ok then Some (failed io sent WriteFailed) else read_reply io sent
        }
      })"

subsection \<open>IpcCommandHandler and StatsService\<close>

definition returned :: "bytes \<Rightarrow> client_run" where
  "returned b = \<lparr>cr_sent = [], cr_closed = [], cr_result = Inr b\<rparr>"

definition handleStatsSession :: "bytes \<Rightarrow> client_io \<Rightarrow> client_run option" where
  "handleStatsSession path io = IpcClient_send path io (ascii ''{\"cmd\":\"stats/session\"}'')"

definition handleStatsEngine :: "bytes \<Rightarrow> client_io \<Rightarrow> client_run option" where
  "handleStatsEngine path io = IpcClient_send path io (ascii ''{\"cmd\":\"stats/engine\"}'')"

definition handleStatsShard :: "bytes \<Rightarrow> client_io \<Rightarrow> client_run option" where
  "handleStatsShard path io = IpcClient_send path io (ascii ''{\"cmd\":\"stats/shard\"}'')"

definition handleStatsMarket :: "bytes \<Rightarrow> client_io \<Rightarrow> client_run option" where
  "handleStatsMarket path io = IpcClient_send path io (ascii ''{\"cmd\":\"stats/market\"}'')"

definition mgmt_handle :: "bytes \<Rightarrow> client_io \<Rightarrow> bytes \<Rightarrow> client_run option" where
  "mgmt_handle path io route =
     (if route = ascii ''stats/session'' then handleStatsSession path io
      else if route = ascii ''stats/engine'' then handleStatsEngine path io
      else if route = ascii ''stats/shard'' then handleStatsShard path io
      else if route = ascii ''stats/market'' then handleStatsMarket path io
      else Some (returned (ascii ''{\"error\":\"unknown route\"}'')))"

definition fetchSession :: "bytes \<Rightarrow> client_io \<Rightarrow> client_run option" where
  "fetchSession path io = mgmt_handle path io (ascii ''stats/session'')"

definition fetchEngine :: "bytes \<Rightarrow> client_io \<Rightarrow> client_run option" where
  "fetchEngine path io = mgmt_handle path io (ascii ''stats/engine'')"

definition fetchShard :: "bytes \<Rightarrow> client_io \<Rightarrow> client_run option" where
  "fetchShard path io = mgmt_handle path io (ascii ''stats/shard'')"

definition fetchMarket :: "bytes \<Rightarrow> client_io \<Rightarrow> client_run option" where
  "fetchMarket path io = mgmt_handle path io (ascii ''stats/market'')"

subsection \<open>Writing and reading\<close>

lemma writeAll_sound: "writeAll ws data sent = Some (ok, sent', ws') \<Longrightarrow>
    (\<exists>n. sent' = sent @ take n data) \<and> (ok \<longrightarrow> sent' = sent @ data)"
proof (induction ws arbitrary: data sent)
  case (Cons w ws)
  show ?case
  proof (cases "data = []")
    case False
    show ?thesis
    proof (cases w)
      case (SErr e)
      show ?thesis
      proof (cases "e = EINTR")
        case True
        with Cons.prems SErr False have "writeAll ws data sent = Some (ok, sent', ws')" by simp
        then show ?thesis by (rule Cons.IH)
      qed (use Cons.prems SErr False in \<open>auto intro: exI[of _ 0]\<close>)
    next
      case (SSent n)
      with Cons.prems False have "writeAll ws (drop n data) (sent @ take n data) = Some (ok, sent', ws')" by simp
      from Cons.IH[OF this] obtain m where "sent' = sent @ take n data @ take m (drop n data)"
        "ok \<longrightarrow> sent' = sent @ take n data @ drop n data" by auto
      moreover have "take n data @ take m (drop n data) = take (n + m) data" by (simp add: take_add)
      ultimately show ?thesis by auto
    qed
  qed (use Cons.prems in auto)
qed (auto split: if_splits)

lemma readExact_RSize:
  assumes "length buf < len" "k = min n (min (len - length buf) (length stream))" "k \<noteq> 0"
  shows "readExact (RSize n # rs) len stream buf = readExact rs len (drop k stream) (buf @ take k stream)"
  unfolding readExact.simps read_size.case assms(2)[symmetric] Let_def using assms(1,3) by simp

lemma readExact_sound: "readExact rs len stream buf = Some (ok, buf', stream', rs') \<Longrightarrow> length buf \<le> len \<Longrightarrow>
    buf' @ stream' = buf @ stream \<and> length buf' \<le> len \<and> (ok \<longrightarrow> length buf' = len)"
proof (induction rs arbitrary: stream buf)
  case (Cons r rs)
  show ?case
  proof (cases "length buf < len")
    case lt: True
    show ?thesis
    proof (cases r)
      case (RSize n)
      define k where "k = min n (min (len - length buf) (length stream))"
      show ?thesis
      proof (cases "k = 0")
        case True
        with Cons.prems RSize lt show ?thesis unfolding readExact.simps by (simp add: k_def[symmetric])
      next
        case False
        with Cons.prems(1) RSize readExact_RSize[OF lt k_def] have
          a: "readExact rs len (drop k stream) (buf @ take k stream) = Some (ok, buf', stream', rs')" by metis
        have "length (buf @ take k stream) \<le> len" using lt by (auto simp: k_def)
        from Cons.IH[OF a this] show ?thesis by simp
      qed
    next
      case (RFail e)
      with Cons lt show ?thesis by (auto split: if_splits)
    qed
  qed (use Cons.prems in auto)
qed (auto split: if_splits)

text \<open>
  A script that only interrupts and makes progress: \<open>steps\<close> counts the answers that move bytes.
\<close>

fun send_steps :: "send_res list \<Rightarrow> nat option" where
  "send_steps [] = Some 0"
| "send_steps (SErr e # ws) = (if e = EINTR then send_steps ws else None)"
| "send_steps (SSent n # ws) = map_option ((+) (if n = 0 then 0 else 1)) (send_steps ws)"

fun read_steps :: "read_size list \<Rightarrow> nat option" where
  "read_steps [] = Some 0"
| "read_steps (RFail e # rs) = (if e = EINTR then read_steps rs else None)"
| "read_steps (RSize n # rs) = (if n = 0 then None else map_option Suc (read_steps rs))"

lemma writeAll_complete:
  assumes "send_steps ws = Some k" "length data \<le> k"
  shows "\<exists>ws' k'. writeAll ws data sent = Some (True, sent @ data, ws') \<and> send_steps ws' = Some k' \<and> k \<le> k' + length data"
  using assms
proof (induction ws arbitrary: data sent k)
  case (Cons w ws)
  show ?case
  proof (cases "data = []")
    case False
    show ?thesis
    proof (cases w)
      case (SErr e)
      with Cons False show ?thesis by (auto split: if_splits)
    next
      case (SSent n)
      with Cons.prems(1) obtain j where j: "send_steps ws = Some j" "k = (if n = 0 then 0 else 1) + j" by auto
      have l: "length (drop n data) + (if n = 0 then 0 else 1) \<le> length data" using False by (cases data) auto
      then have "length (drop n data) \<le> j" using Cons.prems(2) j(2) by (auto split: if_splits)
      from Cons.IH[OF j(1) this, of "sent @ take n data"] obtain ws' k' where
        "writeAll ws (drop n data) (sent @ take n data) = Some (True, (sent @ take n data) @ drop n data, ws')"
        "send_steps ws' = Some k'" "j \<le> k' + length (drop n data)" by blast
      then show ?thesis using SSent False l j(2) by auto
    qed
  qed (use Cons in auto)
qed simp

lemma readExact_complete:
  assumes "read_steps rs = Some k" "len = length buf + n" "n \<le> k" "n \<le> length stream"
  shows "\<exists>rs' k'. readExact rs len stream buf = Some (True, buf @ take n stream, drop n stream, rs') \<and>
    read_steps rs' = Some k' \<and> k \<le> k' + n"
  using assms
proof (induction rs arbitrary: stream buf k n)
  case (Cons r rs)
  show ?case
  proof (cases "n = 0")
    case False
    show ?thesis
    proof (cases r)
      case (RFail e)
      with Cons.prems have "e = EINTR" "read_steps rs = Some k" by (simp_all split: if_splits)
      then show ?thesis using Cons.IH[OF _ Cons.prems(2-4)] RFail False Cons.prems(2) by simp
    next
      case (RSize m)
      with Cons.prems(1) obtain j where j: "read_steps rs = Some j" "k = Suc j" "m \<noteq> 0" by (auto split: if_splits)
      define i where "i = min m (min (len - length buf) (length stream))"
      have i: "i \<noteq> 0" "i \<le> n" "i \<le> length stream" using Cons.prems j(3) False by (auto simp: i_def)
      have "len = length (buf @ take i stream) + (n - i)" "n - i \<le> j" "n - i \<le> length (drop i stream)"
        using Cons.prems i j(2) by auto
      from Cons.IH[OF j(1) this] obtain rs' k' where s:
        "readExact rs len (drop i stream) (buf @ take i stream) =
          Some (True, (buf @ take i stream) @ take (n - i) (drop i stream), drop (n - i) (drop i stream), rs')"
        "read_steps rs' = Some k'" "j \<le> k' + (n - i)" by (elim exE conjE)
      have e: "take i stream @ take (n - i) (drop i stream) = take n stream" "drop (n - i) (drop i stream) = drop n stream"
        using i(2) by (simp_all add: take_add[symmetric])
      have "readExact (r # rs) len stream buf = readExact rs len (drop i stream) (buf @ take i stream)"
        unfolding RSize using readExact_RSize[OF _ i_def i(1)] Cons.prems(2) False by simp
      then have "readExact (r # rs) len stream buf = Some (True, buf @ take n stream, drop n stream, rs')"
        using s(1) e by simp
      moreover have "k \<le> k' + n" using s(3) j(2) i(1,2) by simp
      ultimately show ?thesis using s(2) by (intro exI conjI)
    qed
  qed (use Cons.prems in simp)
qed simp

subsection \<open>One exchange\<close>

lemma read_reply_sound:
  assumes "read_reply io sent = Some run"
  shows "cr_sent run = sent \<and> cr_closed run = [ci_socket io] \<and>
    (\<forall>reply. cr_result run = Inr reply \<longrightarrow> length reply < 2 ^ 16 \<and>
      (\<exists>rest. ci_stream io = be_bytes 2 (of_nat (length reply) :: u16) @ reply @ rest))"
proof -
  from assms obtain ok header stream rs where h: "readExact (ci_reads io) 2 (ci_stream io) [] = Some (ok, header, stream, rs)"
    by (auto simp: read_reply_def split: bind_splits)
  from readExact_sound[OF h] have hs: "header @ stream = ci_stream io" "ok \<longrightarrow> length header = 2" by auto
  show ?thesis
  proof (cases ok)
    case True
    let ?n = "ntohs (of_mem header :: u16)"
    have hd: "header = be_bytes 2 ?n" using True hs(2) by (simp add: mem_simps be_bytes_be_val_16)
    have lt: "unat ?n < 2 ^ 16" using unsigned_less[of ?n, where 'a = nat] by simp
    show ?thesis
    proof (cases "?n = 0")
      case zero: True
      with assms h True have "run = \<lparr>cr_sent = sent, cr_closed = [ci_socket io], cr_result = Inr []\<rparr>"
        by (simp add: read_reply_def MAX_BODY_def)
      then show ?thesis using hd hs(1) zero by (auto intro!: exI[of _ stream])
    next
      case False
      from False assms h True lt obtain ok2 reply stream2 rs2 where r:
        "readExact rs (unat ?n) stream [] = Some (ok2, reply, stream2, rs2)"
        "run = (if \<not> ok2 then failed io sent ReadFailed else \<lparr>cr_sent = sent, cr_closed = [ci_socket io], cr_result = Inr reply\<rparr>)"
        by (auto simp: read_reply_def MAX_BODY_def Let_def split: bind_splits if_splits)
      from readExact_sound[OF r(1)] have "reply @ stream2 = stream" "ok2 \<longrightarrow> length reply = unat ?n" by auto
      then show ?thesis using hd hs(1) r(2) lt by (auto simp: failed_def intro!: exI[of _ stream2])
    qed
  qed (use assms h in \<open>auto simp: read_reply_def failed_def\<close>)
qed

lemma read_reply_complete:
  assumes "ci_stream io = be_bytes 2 (of_nat (length reply) :: u16) @ reply @ rest" "length reply < 2 ^ 16"
    and "read_steps (ci_reads io) = Some k" "length reply + 2 \<le> k"
  shows "read_reply io sent = Some \<lparr>cr_sent = sent, cr_closed = [ci_socket io], cr_result = Inr reply\<rparr>"
proof -
  define w where "w = (of_nat (length reply) :: u16)"
  have n: "unat w = length reply" using assms(2) by (simp add: w_def unat_of_nat)
  note st = assms(1)[folded w_def]
  have "\<exists>rs k'. readExact (ci_reads io) 2 (ci_stream io) [] =
      Some (True, [] @ take 2 (ci_stream io), drop 2 (ci_stream io), rs) \<and> read_steps rs = Some k' \<and> k \<le> k' + 2"
    by (rule readExact_complete[OF assms(3)]) (use assms(4) st in simp_all)
  then obtain rs k' where h: "readExact (ci_reads io) 2 (ci_stream io) [] = Some (True, be_bytes 2 w, reply @ rest, rs)"
    "read_steps rs = Some k'" "k \<le> k' + 2" unfolding st by auto
  have "\<exists>rs' k2. readExact rs (length reply) (reply @ rest) [] =
      Some (True, [] @ take (length reply) (reply @ rest), drop (length reply) (reply @ rest), rs') \<and>
      read_steps rs' = Some k2 \<and> k' \<le> k2 + length reply"
    by (rule readExact_complete[OF h(2)]) (use assms(4) h(3) in simp_all)
  then obtain rs' where b: "readExact rs (length reply) (reply @ rest) [] = Some (True, reply, rest, rs')" by auto
  have z: "w = 0 \<longleftrightarrow> reply = []" using n by (metis length_0_conv unat_eq_zero)
  have v: "ntohs (of_mem (be_bytes 2 w) :: u16) = w" by (simp add: mem_simps)
  have m: "\<not> unat w > MAX_BODY" using n assms(2) by (simp add: MAX_BODY_def)
  show ?thesis unfolding read_reply_def h(1) using b z m n by (simp add: v)
qed

lemma IpcClient_send_complete:
  assumes "length payload \<le> 65535" "0 \<le> ci_socket io" "length path < SUN_PATH_SIZE" "ci_connect io"
    and "send_steps (ci_sends io) = Some k" "length payload + 2 \<le> k"
  shows "IpcClient_send path io payload = read_reply io (buildFrame payload)"
proof -
  have p: "length payload \<le> MAX_BODY" "buildFrame payload = be_bytes 2 (of_nat (length payload) :: u16) @ payload"
    using assms(1) by (simp_all add: MAX_BODY_def buildFrame_eq)
  let ?h = "be_bytes 2 (of_nat (length payload) :: u16)"
  have "length ?h \<le> k" using assms(6) by simp
  from writeAll_complete[OF assms(5) this, of "[]"] obtain ws k' where w:
    "writeAll (ci_sends io) ?h [] = Some (True, ?h, ws)" "send_steps ws = Some k'" "k \<le> k' + 2" by auto
  have "length payload \<le> k'" using w(3) assms(6) by simp
  from writeAll_complete[OF w(2) this, of ?h] obtain ws' where "writeAll ws payload ?h = Some (True, ?h @ payload, ws')" by blast
  then show ?thesis using p assms(2-4) w(1) unfolding IpcClient_send_def by (simp add: mem_simps)
qed

text \<open>The literals of the command handler are the requests for their routes.\<close>

definition stats_request :: "bytes \<Rightarrow> bytes" where
  "stats_request route = ascii ''{\"cmd\":\"'' @ route @ ascii ''\"}''"

definition stats_routes :: "bytes list" where
  "stats_routes = [ascii ''stats/session'', ascii ''stats/engine'', ascii ''stats/shard'', ascii ''stats/market'']"

lemma mgmt_handle_route:
  "route \<in> set stats_routes \<Longrightarrow> mgmt_handle path io route = IpcClient_send path io (stats_request route)"
  unfolding stats_routes_def mgmt_handle_def handleStatsSession_def handleStatsEngine_def handleStatsShard_def
    handleStatsMarket_def stats_request_def
  by (auto simp: ascii_def)

lemma stats_request_length: "route \<in> set stats_routes \<Longrightarrow> length (stats_request route) \<le> 24"
  by (auto simp: stats_routes_def stats_request_def ascii_def)

text \<open>What the statistics of a route are, without the JSON and the wire in between.\<close>

definition stats_reply :: "control_env \<Rightarrow> bytes \<Rightarrow> Core \<Rightarrow> (Core \<times> bytes) option" where
  "stats_reply env route core =
     (if route = ascii ''stats/session'' then Some (core, dumped env (sessions_json (sessionSnapshot core)))
      else if route = ascii ''stats/engine'' then Some (handleEngineStats env core)
      else if route = ascii ''stats/shard'' then map_option (Pair core) (handleShardStats env core)
      else handleMarketStats env core)"

lemma ipc_handle_route:
  assumes "route \<in> set stats_routes" "jl_cmd (ce_json env) (stats_request route) = Some route"
  shows "ipc_handle env (stats_request route) core = stats_reply env route core"
  using assms(1) unfolding ipc_handle_def assms(2) stats_routes_def stats_reply_def
  by (auto simp: ascii_def handleSessionStats_def)

subsection \<open>Properties\<close>

text \<open>
  C35. Every call of the client that returns has closed the descriptor it opened, exactly once, on
  every error path too. When it returns a reply, the whole request was written, length field first,
  and the reply is the body of the first complete frame of what the server sent.
\<close>

theorem ipc_client_sound:
  assumes "IpcClient_send path io payload = Some run"
  shows "cr_closed run = (if MAX_BODY < length payload \<or> ci_socket io < 0 then [] else [ci_socket io]) \<and>
    (\<forall>reply. cr_result run = Inr reply \<longrightarrow>
      cr_sent run = be_bytes 2 (of_nat (length payload) :: u16) @ payload \<and>
      (\<exists>rest. ci_stream io = be_bytes 2 (of_nat (length reply) :: u16) @ reply @ rest))"
proof -
  let ?h = "be_bytes 2 (of_nat (length payload) :: u16)"
  consider "MAX_BODY < length payload \<or> ci_socket io < 0" | e sent where "run = failed io sent e" "\<not> MAX_BODY < length payload"
      "\<not> ci_socket io < 0"
    | "read_reply io (?h @ payload) = Some run" "\<not> MAX_BODY < length payload" "\<not> ci_socket io < 0"
    using assms writeAll_sound[of _ ?h "[]" True] writeAll_sound[of _ payload ?h True]
    by (fastforce simp: IpcClient_send_def mem_simps split: if_splits bind_splits)
  then show ?thesis
  proof cases
    case 1
    with assms show ?thesis by (auto simp: IpcClient_send_def split: if_splits)
  next
    case 3
    with read_reply_sound[OF 3(1)] show ?thesis by auto
  qed (auto simp: failed_def)
qed

definition demo_client :: client_io where
  "demo_client = \<lparr>ci_socket = 7, ci_connect = True,
     ci_sends = SErr EINTR # SSent 1 # replicate 40 (SSent 5), ci_stream = [0, 2, 8, 7],
     ci_reads = RSize 1 # RFail EINTR # replicate 120 (RSize 3)\<rparr>"

lemma send_steps_replicate [simp]: "0 < n \<Longrightarrow> send_steps (replicate k (SSent n)) = Some k"
  by (induction k) auto

lemma read_steps_replicate [simp]: "0 < n \<Longrightarrow> read_steps (replicate k (RSize n)) = Some k"
  by (induction k) auto

lemma demo_client_steps: "send_steps (ci_sends demo_client) = Some 41" "read_steps (ci_reads demo_client) = Some 121"
  unfolding demo_client_def client_io.simps send_steps.simps read_steps.simps
  by (subst send_steps_replicate read_steps_replicate, simp_all)+

theorem ipc_client_sound_witness:
  "\<exists>run. IpcClient_send (ascii ''/s'') demo_client [1, 2, 3] = Some run \<and> cr_closed run = [7] \<and>
    cr_sent run = [0, 3, 1, 2, 3] \<and> cr_result run = Inr [8, 7]"
proof -
  have c: "ci_socket demo_client = 7" "ci_connect demo_client" "ci_stream demo_client = [0, 2, 8, 7]"
    by (simp_all add: demo_client_def)
  have "IpcClient_send (ascii ''/s'') demo_client [1, 2, 3] = read_reply demo_client (buildFrame [1, 2, 3])"
    by (rule IpcClient_send_complete[OF _ _ _ _ demo_client_steps(1)]) (simp_all add: c SUN_PATH_SIZE_def ascii_def)
  moreover have "read_reply demo_client (buildFrame [1, 2, 3]) =
      Some \<lparr>cr_sent = buildFrame [1, 2, 3], cr_closed = [ci_socket demo_client], cr_result = Inr [8, 7]\<rparr>"
    by (rule read_reply_complete[OF _ _ demo_client_steps(2), of _ "[]"]) (simp_all add: c be_bytes_16)
  ultimately have r: "IpcClient_send (ascii ''/s'') demo_client [1, 2, 3] =
      Some \<lparr>cr_sent = buildFrame [1, 2, 3], cr_closed = [7], cr_result = Inr [8, 7]\<rparr>" by (simp add: c)
  from ipc_client_sound[OF r] r show ?thesis by (simp add: be_bytes_16)
qed

text \<open>
  C34. A statistics query of the management daemon gets the server's statistics: the request the
  client writes, however the kernel cuts it up, is answered by the command handler on the core's
  state at that moment, and what the client reads back, in pieces of any sizes, is that answer,
  byte for byte. Of the JSON library only its reading of the four request literals is assumed.
\<close>

theorem stats_query_roundtrip:
  assumes server: "ipc_inv r" "map_of (ir_conns r) fd = Some conn" "rb_readable (ic_rxRing conn) = 0"
      "rb_contents (ic_txRing conn) = []" "ip_list (ir_port r) = []" "ipc_sent r fd = []"
    and worker: "i = unat (ir_rr r) mod length (ir_workers r)" "iw_list (ir_workers r ! i) = []"
    and route: "route \<in> set stats_routes" "jl_cmd (ce_json env) (stats_request route) = Some route"
    and pieces: "[] \<notin> set pieces" "concat pieces = buildFrame (stats_request route)"
    and reply: "stats_reply env route core = Some (core', resp)" "length resp \<le> 65534"
    and sends: "sends fd = replicate 65536 (SSent 65536)"
    and client: "0 \<le> ci_socket io" "length path < SUN_PATH_SIZE" "ci_connect io"
      "send_steps (ci_sends io) = Some k" "26 \<le> k" "read_steps (ci_reads io) = Some m" "length resp + 2 \<le> m"
  shows "\<exists>r1 w' port' r2 run. ipc_receive_loop fd r (map RBytes pieces) = Some (r1, []) \<and>
    processMessage (ipc_handle env) (ir_workers r1 ! i) (core, ir_port r1) = Some (w', (core', port')) \<and>
    ipc_processTxQueue sends (r1\<lparr>ir_port := port', ir_workers := (ir_workers r1)[i := w']\<rparr>) = Some r2 \<and>
    mgmt_handle path (io\<lparr>ci_stream := ipc_sent r2 fd\<rparr>) route = Some run \<and>
    cr_sent run = concat pieces \<and> cr_result run = Inr resp"
proof -
  have len: "length (stats_request route) \<le> 24" using route(1) by (rule stats_request_length)
  have h: "ipc_handle env (stats_request route) core = Some (core', resp)"
    unfolding ipc_handle_route[OF route] by (rule reply)
  from len have l: "length (stats_request route) \<le> 65534" by simp
  from ipc_request_served[where handle = "ipc_handle env" and sends = sends, OF server(1-5) worker l pieces h reply(2) sends]
  obtain r1 w' port' r2 where s: "ipc_receive_loop fd r (map RBytes pieces) = Some (r1, [])"
    "processMessage (ipc_handle env) (ir_workers r1 ! i) (core, ir_port r1) = Some (w', (core', port'))"
    "ipc_processTxQueue sends (r1\<lparr>ir_port := port', ir_workers := (ir_workers r1)[i := w']\<rparr>) = Some r2"
    "ipc_sent r2 fd = buildFrame resp" using server(6) by auto
  let ?io = "io\<lparr>ci_stream := ipc_sent r2 fd\<rparr>"
  have "mgmt_handle path ?io route = read_reply ?io (buildFrame (stats_request route))"
    unfolding mgmt_handle_route[OF route(1)]
    by (rule IpcClient_send_complete[where k = k]) (use len client in simp_all)
  also have "\<dots> = Some \<lparr>cr_sent = buildFrame (stats_request route), cr_closed = [ci_socket ?io], cr_result = Inr resp\<rparr>"
    by (rule read_reply_complete[where k = m and rest = "[]"]) (use s(4) reply(2) client in \<open>simp_all add: buildFrame_eq\<close>)
  finally show ?thesis using s(1-3) pieces(2) by auto
qed

definition demo_control :: control_env where
  "demo_control = \<lparr>ce_json = \<lparr>jl_cmd = \<lambda>b. if b = stats_request (ascii ''stats/session'') then Some (ascii ''stats/session'') else None,
       jl_dump = \<lambda>j. Some [8, 7]\<rparr>,
     ce_proc = \<lparr>pi_now = 0, pi_start = 0, pi_status = [], pi_uordblks = 0, pi_cpu = (0, 0, 0, 0), pi_times = (0, 0)\<rparr>,
     ce_ops = demo_ops, ce_base = 10\<rparr>"

theorem stats_query_roundtrip_witness:
  "\<exists>r r1 w' port' r2 run. ipc_receive_loop 5 r (map RBytes [take 1 (buildFrame (stats_request (ascii ''stats/session''))),
      drop 1 (buildFrame (stats_request (ascii ''stats/session'')))]) = Some (r1, []) \<and>
    processMessage (ipc_handle demo_control) (ir_workers r1 ! 0) (demo_core, ir_port r1) = Some (w', (demo_core, port')) \<and>
    ipc_processTxQueue (\<lambda>_. replicate 65536 (SSent 65536)) (r1\<lparr>ir_port := port', ir_workers := (ir_workers r1)[0 := w']\<rparr>) = Some r2 \<and>
    mgmt_handle (ascii ''/s'') (demo_client\<lparr>ci_stream := ipc_sent r2 5\<rparr>) (ascii ''stats/session'') = Some run \<and>
    cr_result run = Inr [8, 7]"
proof -
  let ?route = "ascii ''stats/session''"
  let ?f = "buildFrame (stats_request ?route)"
  obtain r where d: "ipc_inv r" "map_of (ir_conns r) 5 = Some (mk_IpcConn 65536 65536)" "ip_list (ir_port r) = []"
    "ir_workers r = [demo_ipc_worker]" "ir_rr r = 0" "ipc_sent r 5 = []" by (rule demo_ipc_conn)
  have c: "rb_readable (ic_rxRing (mk_IpcConn 65536 65536)) = 0" "rb_contents (ic_txRing (mk_IpcConn 65536 65536)) = []"
    by (simp_all add: mk_IpcConn_def rb_readable_def rb_new_def)
  have w: "0 = unat (ir_rr r) mod length (ir_workers r)" "iw_list (ir_workers r ! 0) = []"
    using d(4,5) demo_ipc_worker_wf(2) by simp_all
  have rt: "?route \<in> set stats_routes" "jl_cmd (ce_json demo_control) (stats_request ?route) = Some ?route"
    by (simp_all add: stats_routes_def demo_control_def)
  have "2 \<le> length ?f" by (simp add: buildFrame_eq)
  then have p: "[] \<notin> set [take 1 ?f, drop 1 ?f]" "concat [take 1 ?f, drop 1 ?f] = ?f" by auto
  have rp: "stats_reply demo_control ?route demo_core = Some (demo_core, [8, 7])" "length [8, 7 :: u8] \<le> 65534"
    by (simp_all add: stats_reply_def dumped_def demo_control_def)
  have io: "0 \<le> ci_socket demo_client" "length (ascii ''/s'') < SUN_PATH_SIZE" "ci_connect demo_client"
    by (simp_all add: demo_client_def SUN_PATH_SIZE_def ascii_def)
  have k: "26 \<le> (41 :: nat)" "length [8, 7 :: u8] + 2 \<le> 121" by simp_all
  from stats_query_roundtrip[where sends = "\<lambda>_. replicate 65536 (SSent 65536)",
      OF d(1,2) c d(3,6) w rt p rp refl io demo_client_steps(1) k(1) demo_client_steps(2) k(2)]
  show ?thesis by blast
qed

end
