(* ===== verification/Http.thy ===== *)
theory Http
  imports MgmtIpc "HOL-Library.Sublist"
begin

text \<open>
  The management daemon's web interface: \<open>mgmtd/service/AuthService\<close>, \<open>mgmtd/http/HttpCache\<close>,
  \<open>HttpRouter\<close> and \<open>HttpSession\<close>. SHA-256, the clock, the file system, the JSON library and Boost.Beast
  are arguments. Requests are handled one at a time.
\<close>

subsection \<open>AuthService\<close>

record AuthService =
  au_sessions :: "(bytes \<times> u64) list"
  au_username :: bytes
  au_passwordHash :: bytes
  au_salt :: bytes

record LoginResult =
  lr_success :: bool
  lr_sessionId :: bytes

definition SESSION_TTL_SEC :: u64 where "SESSION_TTL_SEC = 1800"

text \<open>
  What the constructor finds: no file, a text that does not parse, or the three fields of \<open>admin\<close>, each
  \<open>None\<close> where the conversion throws.
\<close>

datatype startup_config = ConfigMissing | ConfigBroken | ConfigAdmin "bytes option" "bytes option" "bytes option"

definition mk_AuthService :: "startup_config \<Rightarrow> AuthService" where
  "mk_AuthService cfg =
     (let au = \<lparr>au_sessions = [], au_username = ascii ''admin'', au_passwordHash = [], au_salt = []\<rparr> in
      case cfg of
        ConfigMissing \<Rightarrow> au
      | ConfigBroken \<Rightarrow> au
      | ConfigAdmin user hash salt \<Rightarrow>
          (case user of None \<Rightarrow> au | Some user \<Rightarrow>
             (let au = au\<lparr>au_username := user\<rparr> in
              (case hash of None \<Rightarrow> au | Some hash \<Rightarrow>
                 (let au = au\<lparr>au_passwordHash := hash\<rparr> in
                  (case salt of None \<Rightarrow> au | Some salt \<Rightarrow> au\<lparr>au_salt := salt\<rparr>))))))"

text \<open>The digest in lower-case hexadecimal, two digits to a byte.\<close>

definition hex_digit :: "nat \<Rightarrow> u8" where
  "hex_digit n = (if n < 10 then of_nat (48 + n) else of_nat (87 + n))"

definition hex_byte :: "u8 \<Rightarrow> bytes" where
  "hex_byte b = [hex_digit (unat b div 16), hex_digit (unat b mod 16)]"

definition auth_hash :: "(bytes \<Rightarrow> bytes) \<Rightarrow> bytes \<Rightarrow> bytes \<Rightarrow> bytes" where
  "auth_hash sha256 pw salt = concat (map hex_byte (sha256 (pw @ salt)))"

text \<open>\<open>std::to_string\<close> of an unsigned number.\<close>

fun to_string :: "nat \<Rightarrow> bytes" where
  "to_string n = (if n < 10 then [of_nat (48 + n)] else to_string (n div 10) @ [of_nat (48 + n mod 10)])"

declare to_string.simps [simp del]

text \<open>The clock is read twice: once for the name of the session, once for its expiry.\<close>

definition session_id :: "u64 \<Rightarrow> bytes" where
  "session_id now = to_string (unat now) @ ascii ''_sess''"

definition auth_login ::
  "(bytes \<Rightarrow> bytes) \<Rightarrow> u64 \<Rightarrow> u64 \<Rightarrow> bytes \<Rightarrow> bytes \<Rightarrow> AuthService \<Rightarrow> AuthService \<times> LoginResult" where
  "auth_login sha256 now1 now2 ident password au =
     (if ident \<noteq> au_username au then (au, \<lparr>lr_success = False, lr_sessionId = []\<rparr>)
      else if auth_hash sha256 password (au_salt au) \<noteq> au_passwordHash au
      then (au, \<lparr>lr_success = False, lr_sessionId = []\<rparr>)
      else let sessionId = session_id now1 in
        (au\<lparr>au_sessions := AList.update sessionId (now2 + SESSION_TTL_SEC) (au_sessions au)\<rparr>,
         \<lparr>lr_success = True, lr_sessionId = sessionId\<rparr>))"

definition validateSession :: "u64 \<Rightarrow> bytes \<Rightarrow> AuthService \<Rightarrow> AuthService \<times> bool" where
  "validateSession now sessionId au =
     (case map_of (au_sessions au) sessionId of
        None \<Rightarrow> (au, False)
      | Some expiresAt \<Rightarrow>
          if now > expiresAt then (au\<lparr>au_sessions := AList.delete sessionId (au_sessions au)\<rparr>, False) else (au, True))"

definition auth_logout :: "bytes \<Rightarrow> AuthService \<Rightarrow> AuthService" where
  "auth_logout sessionId au = au\<lparr>au_sessions := AList.delete sessionId (au_sessions au)\<rparr>"

subsection \<open>HttpCache\<close>

record Entry =
  ce_contentType :: bytes
  ce_body :: bytes

definition hasExtension :: "bytes \<Rightarrow> bytes \<Rightarrow> bool" where
  "hasExtension path ext =
     (if length path < length ext then False
      else take (length ext) (drop (length path - length ext) path) = ext)"

text \<open>\<open>loadFile\<close> is the argument \<open>files\<close>: \<open>None\<close> where the file does not open.\<close>

definition cache_get :: "(bytes \<Rightarrow> bytes option) \<Rightarrow> bytes \<Rightarrow> bytes \<Rightarrow> Entry option" where
  "cache_get files baseDir path =
     (let (filePath, contentType) =
        (if path = ascii ''/'' then (baseDir @ ascii ''/index.html'', ascii ''text/html'')
         else (baseDir @ path,
           if hasExtension path (ascii ''.html'') then ascii ''text/html''
           else if hasExtension path (ascii ''.js'') then ascii ''application/javascript''
           else if hasExtension path (ascii ''.css'') then ascii ''text/css''
           else ascii ''text/plain''))
      in map_option (\<lambda>body. \<lparr>ce_contentType = contentType, ce_body = body\<rparr>) (files filePath))"

subsection \<open>HttpRouter\<close>

text \<open>Of a message, the parts the router reads or sets. \<open>rq_cookie\<close> is the first Cookie field.\<close>

datatype verb = verb_get | verb_post | verb_other
datatype status = status_ok | status_bad_request | status_unauthorized | status_not_found | status_internal_server_error

record Request =
  rq_method :: verb
  rq_target :: bytes
  rq_version :: u32
  rq_keep_alive :: bool
  rq_cookie :: "bytes option"
  rq_body :: bytes

record Response =
  rs_status :: status
  rs_version :: u32
  rs_server :: bytes
  rs_content_type :: bytes
  rs_set_cookie :: "bytes option"
  rs_keep_alive :: bool
  rs_body :: bytes

text \<open>
  What the world answers while one request is handled: the clock's readings, the outcome of parsing a
  login body (\<open>None\<close> where it throws), the files, the socket to the server. \<open>he_need_eof\<close> is Beast's
  \<open>need_eof\<close>.
\<close>

record http_env =
  he_sha256 :: "bytes \<Rightarrow> bytes"
  he_now1 :: u64
  he_now2 :: u64
  he_login :: "bytes \<Rightarrow> (bytes \<times> bytes) option"
  he_files :: "bytes \<Rightarrow> bytes option"
  he_baseDir :: bytes
  he_path :: bytes
  he_io :: client_io
  he_need_eof :: "Response \<Rightarrow> bool"

definition makeResponse :: "status \<Rightarrow> bytes \<Rightarrow> bytes \<Rightarrow> u32 \<Rightarrow> bool \<Rightarrow> Response" where
  "makeResponse status body contentType version keepAlive =
     \<lparr>rs_status = status, rs_version = version, rs_server = ascii ''nf-mgmtd'', rs_content_type = contentType,
      rs_set_cookie = None, rs_keep_alive = keepAlive, rs_body = body\<rparr>"

definition isStatic :: "bytes \<Rightarrow> bool" where
  "isStatic target \<longleftrightarrow> target = ascii ''/'' \<or> prefix (ascii ''/js/'') target \<or> prefix (ascii ''/css/'') target \<or>
     prefix (ascii ''/img/'') target"

definition handleStatic :: "http_env \<Rightarrow> Request \<Rightarrow> Response" where
  "handleStatic env req =
     (case cache_get (he_files env) (he_baseDir env) (rq_target req) of
        None \<Rightarrow> makeResponse status_not_found (ascii ''not found'') (ascii ''text/plain'') (rq_version req) (rq_keep_alive req)
      | Some file \<Rightarrow> makeResponse status_ok (ce_body file) (ce_contentType file) (rq_version req) (rq_keep_alive req))"

text \<open>\<open>std::string::find\<close> from a position on.\<close>

definition str_find :: "bytes \<Rightarrow> bytes \<Rightarrow> nat \<Rightarrow> nat option" where
  "str_find s key pos = find (\<lambda>i. take (length key) (drop i s) = key) [pos..<Suc (length s)]"

definition extractSession :: "Request \<Rightarrow> bytes" where
  "extractSession req =
     (case rq_cookie req of
        None \<Rightarrow> []
      | Some cookies \<Rightarrow>
          (let key = ascii ''session='' in
           (case str_find cookies key 0 of
              None \<Rightarrow> []
            | Some pos \<Rightarrow>
                (let end = (case str_find cookies (ascii '';'') pos of None \<Rightarrow> length cookies | Some e \<Rightarrow> e) in
                 take (size_sub end (pos + length key)) (drop (pos + length key) cookies)))))"

abbreviation json_type :: bytes where "json_type \<equiv> ascii ''application/json''"

definition handleLogin :: "http_env \<Rightarrow> Request \<Rightarrow> AuthService \<Rightarrow> AuthService \<times> Response" where
  "handleLogin env req au =
     (case he_login env (rq_body req) of
        None \<Rightarrow> (au, makeResponse status_bad_request (ascii ''{\"error\":\"bad request\"}'') json_type (rq_version req) (rq_keep_alive req))
      | Some (username, password) \<Rightarrow>
          let (au, result) = auth_login (he_sha256 env) (he_now1 env) (he_now2 env) username password au in
          if \<not> lr_success result
          then (au, makeResponse status_unauthorized (ascii ''{\"error\":\"invalid credentials\"}'') json_type (rq_version req) (rq_keep_alive req))
          else (au, (makeResponse status_ok (ascii ''{\"status\":\"ok\"}'') json_type (rq_version req) (rq_keep_alive req))
                 \<lparr>rs_set_cookie := Some (ascii ''session='' @ lr_sessionId result @ ascii ''; HttpOnly; Path=/; SameSite=Strict'')\<rparr>))"

text \<open>\<open>Inl\<close> is the exception of the client, which nothing here catches; \<open>None\<close> a client that never returns.\<close>

definition dispatchProtected :: "http_env \<Rightarrow> Request \<Rightarrow> (client_error + Response) option" where
  "dispatchProtected env req =
     (let target = rq_target req;
          answer = map_option (\<lambda>run. map_sum id
            (\<lambda>body. makeResponse status_ok body json_type (rq_version req) (rq_keep_alive req)) (cr_result run))
      in if target = ascii ''/api/v1/stats/session'' then answer (fetchSession (he_path env) (he_io env))
         else if target = ascii ''/api/v1/stats/engine'' then answer (fetchEngine (he_path env) (he_io env))
         else if target = ascii ''/api/v1/stats/shard'' then answer (fetchShard (he_path env) (he_io env))
         else if target = ascii ''/api/v1/stats/market'' then answer (fetchMarket (he_path env) (he_io env))
         else Some (Inr (makeResponse status_not_found (ascii ''{\"error\":\"not found\"}'') json_type (rq_version req) (rq_keep_alive req))))"

definition logged_out :: "Request \<Rightarrow> Response" where
  "logged_out req = (makeResponse status_ok (ascii ''{\"status\":\"logged_out\"}'') json_type (rq_version req) (rq_keep_alive req))
     \<lparr>rs_set_cookie := Some (ascii ''session=; Path=/; Max-Age=0'')\<rparr>"

definition unauthorized :: "Request \<Rightarrow> Response" where
  "unauthorized req = makeResponse status_unauthorized (ascii ''{\"error\":\"unauthorized\"}'') json_type (rq_version req) (rq_keep_alive req)"

definition HttpRouter_handle :: "http_env \<Rightarrow> Request \<Rightarrow> AuthService \<Rightarrow> (AuthService \<times> (client_error + Response)) option" where
  "HttpRouter_handle env req au =
     (let target = rq_target req in
      if isStatic target then Some (au, Inr (handleStatic env req))
      else if target = ascii ''/api/login'' \<and> rq_method req = verb_post
      then Some (map_prod id Inr (handleLogin env req au))
      else if target = ascii ''/api/logout'' \<and> rq_method req = verb_post
      then Some (auth_logout (extractSession req) au, Inr (logged_out req))
      else if prefix (ascii ''/api/v1/'') target
      then let (au, valid) = validateSession (he_now1 env) (extractSession req) au in
           if \<not> valid then Some (au, Inr (unauthorized req))
           else map_option (Pair au) (dispatchProtected env req)
      else Some (au, Inr (makeResponse status_not_found (ascii ''{\"error\":\"not found\"}'') json_type (rq_version req) (rq_keep_alive req))))"

subsection \<open>HttpSession\<close>

text \<open>One asynchronous operation is pending at a time. \<open>hs_responses\<close> are the responses handed to \<open>async_write\<close>.\<close>

datatype read_outcome = EndOfStream | ReadError | ReadOk Request
datatype session_phase = Reading | Writing bool | Finished

record HttpSession =
  hs_phase :: session_phase
  hs_shutdown :: bool
  hs_responses :: "Response list"

definition session_run :: HttpSession where
  "session_run = \<lparr>hs_phase = Reading, hs_shutdown = False, hs_responses = []\<rparr>"

definition session_doClose :: "HttpSession \<Rightarrow> HttpSession" where
  "session_doClose hs = hs\<lparr>hs_phase := Finished, hs_shutdown := True\<rparr>"

definition session_write :: "http_env \<Rightarrow> Response \<Rightarrow> HttpSession \<Rightarrow> HttpSession" where
  "session_write env res hs =
     hs\<lparr>hs_phase := Writing (he_need_eof env res), hs_responses := hs_responses hs @ [res]\<rparr>"

definition internal_error :: "Request \<Rightarrow> Response" where
  "internal_error req =
     \<lparr>rs_status = status_internal_server_error, rs_version = rq_version req, rs_server = ascii ''nf-mgmtd'',
      rs_content_type = json_type, rs_set_cookie = None, rs_keep_alive = False,
      rs_body = ascii ''{\"error\":\"internal_error\"}''\<rparr>"

definition onRead :: "http_env \<Rightarrow> read_outcome \<Rightarrow> AuthService \<times> HttpSession \<Rightarrow> (AuthService \<times> HttpSession) option" where
  "onRead env ec st =
     (let (au, hs) = st in
      case ec of
        EndOfStream \<Rightarrow> Some (au, session_doClose hs)
      | ReadError \<Rightarrow> Some (au, hs\<lparr>hs_phase := Finished\<rparr>)
      | ReadOk req \<Rightarrow>
          do {
            (au, res) \<leftarrow> HttpRouter_handle env req au;
            Some (au, session_write env (case_sum (\<lambda>e. internal_error req) (\<lambda>res. res) res) hs)
          })"

definition onWrite :: "bool \<Rightarrow> bool \<Rightarrow> HttpSession \<Rightarrow> HttpSession" where
  "onWrite close ec hs =
     (if ec then hs\<lparr>hs_phase := Finished\<rparr>
      else if close then session_doClose hs
      else hs\<lparr>hs_phase := Reading\<rparr>)"

end
