(* ===== verification/HttpProps.thy ===== *)
theory HttpProps
  imports Http
begin

text \<open>
  Properties of the web interface: who gets the statistics, what a cookie means, and how a connection
  alternates requests and responses.
\<close>

subsection \<open>Searching\<close>

lemma find_upt_Some:
  "find P [a..<b] = Some i \<longleftrightarrow> a \<le> i \<and> i < b \<and> P i \<and> (\<forall>j. a \<le> j \<and> j < i \<longrightarrow> \<not> P j)"
proof
  assume "find P [a..<b] = Some i"
  then obtain k where k: "k < b - a" "P (a + k)" "i = a + k" "\<forall>j < k. \<not> P (a + j)" by (auto simp: find_Some_iff)
  have "\<not> P j" if "a \<le> j" "j < i" for j using k(3,4) that by (metis add_less_cancel_left le_add_diff_inverse)
  with k show "a \<le> i \<and> i < b \<and> P i \<and> (\<forall>j. a \<le> j \<and> j < i \<longrightarrow> \<not> P j)" by auto
next
  assume "a \<le> i \<and> i < b \<and> P i \<and> (\<forall>j. a \<le> j \<and> j < i \<longrightarrow> \<not> P j)"
  then show "find P [a..<b] = Some i" by (auto simp: find_Some_iff intro!: exI[of _ "i - a"])
qed

lemma take_drop_prefix: "take (length key) (drop i s) = key \<longleftrightarrow> prefix key (drop i s)"
  by (auto simp: prefix_def) (metis append_take_drop_id)

lemma str_find_Some:
  "str_find s key pos = Some i \<longleftrightarrow>
    pos \<le> i \<and> i \<le> length s \<and> prefix key (drop i s) \<and> (\<forall>j. pos \<le> j \<and> j < i \<longrightarrow> \<not> prefix key (drop j s))"
  unfolding str_find_def take_drop_prefix find_upt_Some by auto

lemma str_find_None: "str_find s key pos = None \<longleftrightarrow> (\<forall>i. pos \<le> i \<and> i \<le> length s \<longrightarrow> \<not> prefix key (drop i s))"
  unfolding str_find_def take_drop_prefix find_None_iff by auto

lemma str_find_Cons:
  "str_find (x # xs) key 0 = (if prefix key (x # xs) then Some 0 else map_option Suc (str_find xs key 0))"
proof (cases "prefix key (x # xs)")
  case True
  then show ?thesis by (simp add: str_find_Some)
next
  case False
  have all: "(\<forall>j. 0 \<le> j \<and> j < Suc i \<longrightarrow> \<not> prefix key (drop j (x # xs))) \<longleftrightarrow> (\<forall>j. 0 \<le> j \<and> j < i \<longrightarrow> \<not> prefix key (drop j xs))"
    for i using False by (auto simp: less_Suc_eq_0_disj)
  show ?thesis
  proof (cases "str_find xs key 0")
    case None
    then have "\<not> prefix key (drop i (x # xs))" if "i \<le> length (x # xs)" for i
      using that False by (cases i) (auto simp: str_find_None)
    then have "str_find (x # xs) key 0 = None" by (simp add: str_find_None)
    then show ?thesis using None False by simp
  next
    case (Some i)
    then have "str_find (x # xs) key 0 = Some (Suc i)" unfolding str_find_Some all by simp
    then show ?thesis using Some False by simp
  qed
qed

subsection \<open>The session cookie\<close>

abbreviation session_key :: bytes where "session_key \<equiv> ascii ''session=''"

lemma session_key_simps: "length session_key = 8" "0x3B \<notin> set session_key" "session_key = 0x73 # ascii ''ession=''"
  by (simp_all add: ascii_def)

lemma str_find_drop:
  assumes "pos \<le> length s"
  shows "str_find s key pos = map_option ((+) pos) (str_find (drop pos s) key 0)"
proof (cases "str_find (drop pos s) key 0")
  case None
  then have "\<not> prefix key (drop (pos + i) s)" if "i \<le> length s - pos" for i
    using that by (simp add: str_find_None add.commute)
  then have "str_find s key pos = None" unfolding str_find_None by (metis diff_le_mono le_add_diff_inverse)
  with None show ?thesis by simp
next
  case (Some i)
  then have i: "i \<le> length s - pos" "prefix key (drop (pos + i) s)" "\<And>j. j < i \<Longrightarrow> \<not> prefix key (drop (pos + j) s)"
    by (auto simp: str_find_Some add.commute)
  have "\<not> prefix key (drop j s)" if "pos \<le> j" "j < pos + i" for j using i(3)[of "j - pos"] that by simp
  with i(1,2) assms have "str_find s key pos = Some (pos + i)" by (auto simp: str_find_Some)
  with Some show ?thesis by simp
qed

lemma str_find_semicolon:
  "(case str_find s (ascii '';'') 0 of None \<Rightarrow> length s | Some e \<Rightarrow> e) = length (takeWhile (\<lambda>c. c \<noteq> 0x3B) s)"
proof (induction s)
  case Nil
  have "str_find [] (ascii '';'') 0 = None" by (simp add: str_find_None ascii_def)
  then show ?case by simp
next
  case (Cons x s)
  have "prefix (ascii '';'') (x # s) \<longleftrightarrow> x = 0x3B" by (auto simp: ascii_def)
  with Cons show ?case by (auto simp: str_find_Cons split: option.splits)
qed

text \<open>The value behind the first \<open>session=\<close> in the field, up to the next semicolon.\<close>

fun session_value :: "bytes \<Rightarrow> bytes" where
  "session_value [] = []"
| "session_value (x # xs) =
     (if prefix session_key (x # xs) then takeWhile (\<lambda>c. c \<noteq> 0x3B) (drop 8 (x # xs)) else session_value xs)"

lemma session_value_find:
  "session_value s = (case str_find s session_key 0 of None \<Rightarrow> []
     | Some pos \<Rightarrow> takeWhile (\<lambda>c. c \<noteq> 0x3B) (drop (pos + 8) s))"
proof (induction s)
  case Nil
  have "str_find [] session_key 0 = None" by (simp add: str_find_None ascii_def)
  then show ?case by simp
next
  case (Cons x s)
  then show ?case by (auto simp: str_find_Cons drop_Cons' add.commute split: option.splits)
qed

lemma extractSession_value: "extractSession req = (case rq_cookie req of None \<Rightarrow> [] | Some cookies \<Rightarrow> session_value cookies)"
proof -
  have "take (size_sub (case str_find s (ascii '';'') pos of None \<Rightarrow> length s | Some e \<Rightarrow> e) (pos + 8)) (drop (pos + 8) s) =
      takeWhile (\<lambda>c. c \<noteq> 0x3B) (drop (pos + 8) s)" if "str_find s session_key 0 = Some pos" for s pos
  proof -
    from that obtain v where v: "drop pos s = session_key @ v" "pos \<le> length s" by (auto simp: str_find_Some prefix_def)
    let ?t = "takeWhile (\<lambda>c. c \<noteq> 0x3B)"
    have v': "v = drop (pos + 8) s" using arg_cong[OF v(1), of "drop 8"] by (simp add: session_key_simps(1) add.commute)
    have "(case str_find s (ascii '';'') pos of None \<Rightarrow> length s | Some e \<Rightarrow> e) =
        pos + (case str_find (drop pos s) (ascii '';'') 0 of None \<Rightarrow> length (drop pos s) | Some e \<Rightarrow> e)"
      using v(2) by (simp add: str_find_drop[OF v(2)] split: option.splits)
    also have "\<dots> = pos + (8 + length (?t v))"
      unfolding str_find_semicolon v(1) using session_key_simps(1,2) by (subst takeWhile_append2) auto
    finally have "(case str_find s (ascii '';'') pos of None \<Rightarrow> length s | Some e \<Rightarrow> e) = (pos + 8) + length (?t v)" by simp
    then show ?thesis unfolding v'[symmetric] by (simp add: takeWhile_eq_take[symmetric])
  qed
  then show ?thesis unfolding extractSession_def session_value_find Let_def session_key_simps(1) by (auto split: option.splits)
qed

text \<open>
  The reference: the field split at semicolons, leading blanks dropped, the first cookie called
  \<open>session\<close>.
\<close>

lemma dropWhile_shorter: "dropWhile P s = x # r \<Longrightarrow> length r < length s"
  using length_dropWhile_le[of P s] by simp

function cookie_pieces :: "bytes \<Rightarrow> bytes list" where
  "cookie_pieces s =
     (case dropWhile (\<lambda>c. c \<noteq> 0x3B) s of
        [] \<Rightarrow> [s]
      | _ # r \<Rightarrow> takeWhile (\<lambda>c. c \<noteq> 0x3B) s # cookie_pieces r)"
  by pat_completeness auto
termination
  by (relation "measure length") (auto dest: dropWhile_shorter)

declare cookie_pieces.simps [simp del]

definition cookie_list :: "bytes \<Rightarrow> bytes list" where
  "cookie_list s = map (dropWhile (\<lambda>c. c = 0x20)) (cookie_pieces s)"

definition session_cookie :: "bytes \<Rightarrow> bytes" where
  "session_cookie s = (case find (prefix session_key) (cookie_list s) of None \<Rightarrow> [] | Some c \<Rightarrow> drop 8 c)"

text \<open>No cookie holds the text \<open>session=\<close> anywhere but at its start.\<close>

definition key_at_start :: "bytes \<Rightarrow> bool" where
  "key_at_start c \<longleftrightarrow> list_all (\<lambda>t. \<not> prefix session_key t) (suffixes (tl c))"

lemma prefix_key_semicolon: "0x3B \<notin> set p \<Longrightarrow> prefix session_key (p @ 0x3B # r) \<longleftrightarrow> prefix session_key p"
proof
  assume "prefix session_key (p @ 0x3B # r)"
  then consider "prefix session_key p" | us where "session_key = p @ us" "prefix us (0x3B # r)" unfolding prefix_append by auto
  then show "prefix session_key p"
  proof cases
    case 2
    with session_key_simps(2) have "us = []" by (cases us) auto
    with 2 show ?thesis by simp
  qed
qed (auto simp: prefix_def)

lemma session_value_none: "list_all (\<lambda>t. \<not> prefix session_key t) (suffixes p) \<Longrightarrow> 0x3B \<notin> set p \<Longrightarrow>
    session_value (p @ 0x3B # r) = session_value r \<and> session_value p = []"
proof (induction p)
  case Nil
  have "\<not> prefix session_key (0x3B # r)" by (simp add: session_key_simps(3))
  then show ?case by simp
next
  case (Cons x p)
  then have n: "\<not> prefix session_key (x # p)" by simp
  with prefix_key_semicolon[of "x # p" r] Cons.prems(2) have "\<not> prefix session_key (x # p @ 0x3B # r)" by simp
  with n Cons show ?case by simp
qed

lemma takeWhile_semicolon: "0x3B \<notin> set p \<Longrightarrow> takeWhile (\<lambda>c. c \<noteq> 0x3B) p = p \<and> takeWhile (\<lambda>c. c \<noteq> 0x3B) (p @ 0x3B # r) = p"
  for p :: bytes by (induction p) auto

lemma session_value_piece:
  fixes p :: bytes
  defines "c \<equiv> dropWhile (\<lambda>c. c = 0x20) p"
  assumes "0x3B \<notin> set p" "key_at_start c"
  shows "session_value (p @ 0x3B # r) = (if prefix session_key c then drop 8 c else session_value r) \<and>
    session_value p = (if prefix session_key c then drop 8 c else [])"
  using assms unfolding c_def
proof (induction p)
  case Nil
  have "\<not> prefix session_key (0x3B # r)" "\<not> prefix session_key []" by (simp_all add: session_key_simps(3))
  then show ?case by simp
next
  case (Cons x p)
  show ?case
  proof (cases "x = 0x20")
    case True
    have "\<not> prefix session_key (0x20 # t)" for t by (simp add: session_key_simps(3))
    with Cons True show ?thesis by simp
  next
    case False
    have pre: "prefix session_key (x # p @ 0x3B # r) \<longleftrightarrow> prefix session_key (x # p)"
      using prefix_key_semicolon[of "x # p" r] Cons.prems(1) by simp
    show ?thesis
    proof (cases "prefix session_key (x # p)")
      case True
      then have l: "8 \<le> length (x # p)" using prefix_length_le[OF True] session_key_simps(1) by simp
      have "0x3B \<notin> set (drop 8 (x # p))" using Cons.prems(1) by (meson in_set_dropD)
      from takeWhile_semicolon[OF this, of r] show ?thesis using l True False pre by (simp add: drop_append)
    next
      case none: False
      have "list_all (\<lambda>t. \<not> prefix session_key t) (suffixes p)" using Cons.prems(2) False by (simp add: key_at_start_def)
      from session_value_none[OF this, of r] Cons.prems(1) show ?thesis using none False pre by simp
    qed
  qed
qed

lemma session_value_cookie: "list_all key_at_start (cookie_list s) \<Longrightarrow> session_value s = session_cookie s"
proof (induction s rule: cookie_pieces.induct)
  case (1 s)
  let ?p = "takeWhile (\<lambda>c. c \<noteq> 0x3B) s"
  have p: "0x3B \<notin> set ?p" by (auto dest: set_takeWhileD)
  show ?case
  proof (cases "dropWhile (\<lambda>c. c \<noteq> 0x3B) s")
    case Nil
    then have s: "?p = s" using takeWhile_dropWhile_id[of "\<lambda>c. c \<noteq> 0x3B" s] by simp
    have "cookie_list s = [dropWhile (\<lambda>c. c = 0x20) s]" by (simp add: cookie_list_def cookie_pieces.simps[of s] Nil)
    then show ?thesis using session_value_piece[OF p, unfolded s] 1(2) by (simp add: session_cookie_def)
  next
    case (Cons x r)
    then have x: "x = 0x3B" using dropWhile_eq_Cons_conv[of "\<lambda>c. c \<noteq> 0x3B" s x r] by blast
    have s: "s = ?p @ 0x3B # r" using takeWhile_dropWhile_id[of "\<lambda>c. c \<noteq> 0x3B" s] Cons x by simp
    have l: "cookie_list s = dropWhile (\<lambda>c. c = 0x20) ?p # cookie_list r"
      by (simp add: cookie_list_def cookie_pieces.simps[of s] Cons)
    have IH: "session_value r = session_cookie r" using 1(1)[OF Cons] 1(2) l by simp
    have k: "key_at_start (dropWhile (\<lambda>c. c = 0x20) ?p)" using 1(2) l by simp
    have "session_value s = session_value (?p @ 0x3B # r)" using s by simp
    also have "\<dots> = session_cookie s"
      using session_value_piece[OF p k, of r] IH by (simp add: session_cookie_def l)
    finally show ?thesis .
  qed
qed

subsection \<open>Histories of requests\<close>

fun serve :: "(http_env \<times> Request) list \<Rightarrow> AuthService \<Rightarrow> (AuthService \<times> (client_error + Response) list) option" where
  "serve [] au = Some (au, [])"
| "serve ((env, req) # es) au =
     do {
       (au, res) \<leftarrow> HttpRouter_handle env req au;
       (au, rs) \<leftarrow> serve es au;
       Some (au, res # rs)
     }"

lemma serve_append:
  "serve (xs @ ys) au = do { (au, rs) \<leftarrow> serve xs au; (au, rs') \<leftarrow> serve ys au; Some (au, rs @ rs') }"
proof (induction xs arbitrary: au)
  case Nil
  show ?case by (simp split: bind_splits)
next
  case (Cons x xs)
  obtain env req where "x = (env, req)" by (cases x)
  with Cons show ?case by (cases "HttpRouter_handle env req au") (auto split: bind_splits)
qed

lemma serve_appendE:
  assumes "serve (xs @ ys) au = Some (au', rs)"
  obtains au1 rs1 rs2 where "serve xs au = Some (au1, rs1)" "serve ys au1 = Some (au', rs2)" "rs = rs1 @ rs2"
  using assms unfolding serve_append by (auto split: bind_splits)

lemma serve_singleE:
  assumes "serve [(env, req)] au = Some (au', rs)"
  obtains res where "HttpRouter_handle env req au = Some (au', res)" "rs = [res]"
  using assms by (auto split: bind_splits)

lemma serve_length: "serve es au = Some (au', rs) \<Longrightarrow> length rs = length es"
  by (induction es au arbitrary: au' rs rule: serve.induct) (auto split: bind_splits)

definition is_login :: "Request \<Rightarrow> bool" where
  "is_login req \<longleftrightarrow> rq_target req = ascii ''/api/login'' \<and> rq_method req = verb_post"

definition is_logout :: "Request \<Rightarrow> bool" where
  "is_logout req \<longleftrightarrow> rq_target req = ascii ''/api/logout'' \<and> rq_method req = verb_post"

definition is_protected :: "Request \<Rightarrow> bool" where
  "is_protected req \<longleftrightarrow> prefix (ascii ''/api/v1/'') (rq_target req)"

text \<open>A login with the administrator's name and password: the session it opens and its expiry.\<close>

definition login_grants :: "AuthService \<Rightarrow> http_env \<times> Request \<Rightarrow> (bytes \<times> u64) option" where
  "login_grants au e =
     (let (env, req) = e in
      if is_login req
      then (case he_login env (rq_body req) of
              None \<Rightarrow> None
            | Some (user, pw) \<Rightarrow>
                if user = au_username au \<and> auth_hash (he_sha256 env) pw (au_salt au) = au_passwordHash au
                then Some (session_id (he_now1 env), he_now2 env + SESSION_TTL_SEC) else None)
      else None)"

text \<open>The session a request ends: by logging out, or by presenting it after its expiry.\<close>

definition logs_out :: "http_env \<times> Request \<Rightarrow> bytes option" where
  "logs_out e = (if is_logout (snd e) then Some (extractSession (snd e)) else None)"

lemma targets_disjoint:
  "is_login req \<Longrightarrow> \<not> isStatic (rq_target req)" "is_logout req \<Longrightarrow> \<not> isStatic (rq_target req)"
  "is_protected req \<Longrightarrow> \<not> isStatic (rq_target req)" "is_logout req \<Longrightarrow> \<not> is_login req"
  "is_protected req \<Longrightarrow> \<not> is_login req" "is_protected req \<Longrightarrow> \<not> is_logout req"
  by (auto simp: is_login_def is_logout_def is_protected_def isStatic_def ascii_def prefix_def)

definition not_found :: "Request \<Rightarrow> Response" where
  "not_found req = makeResponse status_not_found (ascii ''{\"error\":\"not found\"}'') json_type (rq_version req) (rq_keep_alive req)"

lemma HttpRouter_handle_cases:
  "isStatic (rq_target req) \<Longrightarrow> HttpRouter_handle env req au = Some (au, Inr (handleStatic env req))"
  "is_login req \<Longrightarrow> HttpRouter_handle env req au = Some (map_prod id Inr (handleLogin env req au))"
  "is_logout req \<Longrightarrow> HttpRouter_handle env req au = Some (auth_logout (extractSession req) au, Inr (logged_out req))"
  "is_protected req \<Longrightarrow> HttpRouter_handle env req au =
     (if snd (validateSession (he_now1 env) (extractSession req) au)
      then map_option (Pair (fst (validateSession (he_now1 env) (extractSession req) au))) (dispatchProtected env req)
      else Some (fst (validateSession (he_now1 env) (extractSession req) au), Inr (unauthorized req)))"
  "\<not> isStatic (rq_target req) \<Longrightarrow> \<not> is_login req \<Longrightarrow> \<not> is_logout req \<Longrightarrow> \<not> is_protected req \<Longrightarrow>
     HttpRouter_handle env req au = Some (au, Inr (not_found req))"
  using targets_disjoint[of req] unfolding HttpRouter_handle_def
  by (auto simp: is_login_def is_logout_def is_protected_def Let_def not_found_def split: prod.splits)

text \<open>What a request does to the table of sessions.\<close>

lemma handle_sessions:
  assumes "HttpRouter_handle env req au = Some (au', res)"
  shows "au_username au' = au_username au \<and> au_passwordHash au' = au_passwordHash au \<and> au_salt au' = au_salt au \<and>
    map_of (au_sessions au') = (case login_grants au (env, req) of
       Some (sid, expiry) \<Rightarrow> (map_of (au_sessions au))(sid \<mapsto> expiry)
     | None \<Rightarrow> if is_logout req \<or> is_protected req \<and>
           (\<exists>expiry. map_of (au_sessions au) (extractSession req) = Some expiry \<and> expiry < he_now1 env)
         then (map_of (au_sessions au))(extractSession req := None) else map_of (au_sessions au))"
proof -
  consider "isStatic (rq_target req)" | "is_login req" | "is_logout req" | "is_protected req"
    | "\<not> isStatic (rq_target req)" "\<not> is_login req" "\<not> is_logout req" "\<not> is_protected req" by blast
  then show ?thesis
  proof cases
    case 1
    with assms targets_disjoint[of req] HttpRouter_handle_cases(1)[OF 1] show ?thesis by (auto simp: login_grants_def)
  next
    case 2
    with assms targets_disjoint[of req] HttpRouter_handle_cases(2)[OF 2] show ?thesis
      by (auto simp: login_grants_def handleLogin_def auth_login_def Let_def update_conv' split: option.splits if_splits)
  next
    case 3
    with assms targets_disjoint[of req] HttpRouter_handle_cases(3)[OF 3] show ?thesis
      by (auto simp: login_grants_def auth_logout_def delete_conv')
  next
    case 4
    with assms targets_disjoint[of req] HttpRouter_handle_cases(4)[OF 4] show ?thesis
      by (auto simp: login_grants_def validateSession_def delete_conv' split: option.splits if_splits)
  next
    case 5
    with assms HttpRouter_handle_cases(5)[OF 5] show ?thesis by (simp add: login_grants_def)
  qed
qed

lemma login_grants_cong:
  "au_username au' = au_username au \<Longrightarrow> au_passwordHash au' = au_passwordHash au \<Longrightarrow> au_salt au' = au_salt au \<Longrightarrow>
    login_grants au' e = login_grants au e"
  by (cases e) (auto simp: login_grants_def split: option.splits)

lemma handleLogin_cookie:
  assumes "login_grants au (env, req) = Some (sid, expiry)"
  shows "rs_set_cookie (snd (handleLogin env req au)) =
    Some (ascii ''session='' @ sid @ ascii ''; HttpOnly; Path=/; SameSite=Strict'')"
proof -
  from assms obtain pw where "he_login env (rq_body req) = Some (au_username au, pw)"
    "auth_hash (he_sha256 env) pw (au_salt au) = au_passwordHash au" "sid = session_id (he_now1 env)"
    by (auto simp: login_grants_def split: option.splits if_splits)
  then show ?thesis by (simp add: handleLogin_def auth_login_def Let_def)
qed

lemma serve_credentials: "serve es au = Some (au', rs) \<Longrightarrow>
    au_username au' = au_username au \<and> au_passwordHash au' = au_passwordHash au \<and> au_salt au' = au_salt au"
proof (induction es au arbitrary: rs rule: serve.induct)
  case (2 env req es au)
  then obtain au1 res rs1 where h: "HttpRouter_handle env req au = Some (au1, res)" "serve es au1 = Some (au', rs1)"
    by (auto split: bind_splits)
  from 2(1)[OF h(1) refl h(2)] handle_sessions[OF h(1)] show ?case by simp
qed simp

lemma session_origin:
  assumes "serve es au0 = Some (au, rs)" "au_sessions au0 = []" "map_of (au_sessions au) sid = Some expiry"
  shows "\<exists>j < length es. login_grants au0 (es ! j) = Some (sid, expiry) \<and>
    (\<forall>i. j < i \<and> i < length es \<longrightarrow> logs_out (es ! i) \<noteq> Some sid)"
  using assms(1,3)
proof (induction es arbitrary: au rs rule: rev_induct)
  case Nil
  with assms(2) show ?case by simp
next
  case (snoc e es)
  obtain env req where e: "e = (env, req)" by (cases e)
  from snoc.prems(1) obtain au1 rs1 res where h: "serve es au0 = Some (au1, rs1)" "HttpRouter_handle env req au1 = Some (au, res)"
    unfolding serve_append e by (auto split: bind_splits)
  have g: "login_grants au1 (env, req) = login_grants au0 (env, req)"
    using serve_credentials[OF h(1)] by (intro login_grants_cong) simp_all
  note m = handle_sessions[OF h(2), unfolded g]
  show ?case
  proof (cases "login_grants au0 (env, req) = Some (sid, expiry)")
    case True
    then show ?thesis unfolding e by (intro exI[of _ "length es"]) auto
  next
    case False
    with m snoc.prems(2) have o: "map_of (au_sessions au1) sid = Some expiry" "logs_out (env, req) \<noteq> Some sid"
      by (auto simp: logs_out_def login_grants_def targets_disjoint split: option.splits if_splits)
    from snoc.IH[OF h(1) o(1)] obtain j where "j < length es" "login_grants au0 (es ! j) = Some (sid, expiry)"
      "\<forall>i. j < i \<and> i < length es \<longrightarrow> logs_out (es ! i) \<noteq> Some sid" by blast
    with o(2) show ?thesis unfolding e by (intro exI[of _ j]) (auto simp: nth_append less_Suc_eq)
  qed
qed

lemma session_persists:
  assumes "serve es au = Some (au', rs)" "map_of (au_sessions au) sid = Some expiry"
    and "\<forall>e \<in> set es. (\<forall>u. login_grants au e \<noteq> Some (sid, u)) \<and> logs_out e \<noteq> Some sid \<and>
      (is_protected (snd e) \<and> extractSession (snd e) = sid \<longrightarrow> he_now1 (fst e) \<le> expiry)"
  shows "map_of (au_sessions au') sid = Some expiry"
  using assms
proof (induction es au arbitrary: rs rule: serve.induct)
  case (2 env req es au)
  from 2(2) obtain au1 res rs1 where h: "HttpRouter_handle env req au = Some (au1, res)" "serve es au1 = Some (au', rs1)"
    by (auto split: bind_splits)
  note m = handle_sessions[OF h(1)]
  have e: "login_grants au (env, req) \<noteq> Some (sid, u)" "logs_out (env, req) \<noteq> Some sid"
    "is_protected req \<Longrightarrow> extractSession req = sid \<Longrightarrow> he_now1 env \<le> expiry" for u using 2(4) by auto
  have o: "map_of (au_sessions au1) sid = Some expiry"
    using m 2(3) e by (auto simp: logs_out_def split: option.splits if_splits)
  have "login_grants au1 x = login_grants au x" for x using m by (intro login_grants_cong) simp_all
  then have "\<forall>e \<in> set es. (\<forall>u. login_grants au1 e \<noteq> Some (sid, u)) \<and> logs_out e \<noteq> Some sid \<and>
      (is_protected (snd e) \<and> extractSession (snd e) = sid \<longrightarrow> he_now1 (fst e) \<le> expiry)" using 2(4) by simp
  from 2(1)[OF h(1) refl h(2) o this] show ?case .
qed simp

text \<open>A session's name has no semicolon, so the cookie gives it back.\<close>

lemma to_string_digits: "c \<in> set (to_string n) \<Longrightarrow> 0x30 \<le> c \<and> c \<le> 0x39"
proof (induction n rule: to_string.induct)
  case (1 n)
  have d: "0x30 \<le> (of_nat (48 + k) :: u8) \<and> (of_nat (48 + k) :: u8) \<le> 0x39" if "k < 10" for k
  proof -
    have "unat (of_nat (48 + k) :: u8) = 48 + k" using that unfolding unat_of_nat by simp
    then show ?thesis using that unfolding word_le_nat_alt by simp
  qed
  show ?case using 1 d[of n] d[of "n mod 10"] by (subst (asm) (2) to_string.simps) (auto split: if_splits)
qed

lemma extractSession_cookie:
  assumes "rq_cookie req = Some (session_key @ session_id now)"
  shows "extractSession req = session_id now"
proof -
  have "0x3B \<notin> set (session_id now)"
    using to_string_digits[of "0x3B"] by (auto simp: session_id_def ascii_def)
  with takeWhile_semicolon have "takeWhile (\<lambda>c. c \<noteq> 0x3B) (session_id now) = session_id now" by blast
  moreover have "session_value (session_key @ t) = takeWhile (\<lambda>c. c \<noteq> 0x3B) t" for t
  proof -
    have e: "session_key @ t = 0x73 # (ascii ''ession='' @ t)" by (simp add: session_key_simps(3))
    have "prefix session_key (session_key @ t)" "drop 8 (session_key @ t) = t" using session_key_simps(1) by simp_all
    then show ?thesis unfolding e session_value.simps(2) by simp
  qed
  ultimately show ?thesis by (simp add: extractSession_value assms)
qed

subsection \<open>Connections\<close>

text \<open>
  A connection as a state machine: the completion of the pending operation, or another connection's
  work on the shared service.
\<close>

datatype session_event = EvRead http_env read_outcome | EvWrite bool | EvOther AuthService

inductive session_step :: "session_event \<Rightarrow> AuthService \<times> HttpSession \<Rightarrow> AuthService \<times> HttpSession \<Rightarrow> bool" where
  step_read: "hs_phase hs = Reading \<Longrightarrow> onRead env ec (au, hs) = Some st \<Longrightarrow> session_step (EvRead env ec) (au, hs) st"
| step_write: "hs_phase hs = Writing close \<Longrightarrow> session_step (EvWrite ec) (au, hs) (au, onWrite close ec hs)"
| step_other: "session_step (EvOther au') (au, hs) (au', hs)"

inductive session_steps :: "session_event list \<Rightarrow> AuthService \<times> HttpSession \<Rightarrow> AuthService \<times> HttpSession \<Rightarrow> bool" where
  steps_none: "session_steps [] st st"
| steps_more: "session_steps evs st st' \<Longrightarrow> session_step ev st' st'' \<Longrightarrow> session_steps (evs @ [ev]) st st''"

fun requests :: "session_event list \<Rightarrow> (http_env \<times> Request) list" where
  "requests [] = []"
| "requests (EvRead env (ReadOk req) # evs) = (env, req) # requests evs"
| "requests (_ # evs) = requests evs"

lemma requests_append: "requests (evs @ evs') = requests evs @ requests evs'"
  by (induction evs rule: requests.induct) auto

text \<open>The shape of every response.\<close>

definition response_ok :: "Request \<Rightarrow> Response \<Rightarrow> bool" where
  "response_ok req res \<longleftrightarrow> rs_version res = rq_version req \<and> rs_server res = ascii ''nf-mgmtd'' \<and>
     (if rs_status res = status_internal_server_error then \<not> rs_keep_alive res \<and> rs_body res = ascii ''{\"error\":\"internal_error\"}''
      else rs_keep_alive res = rq_keep_alive req) \<and>
     (isStatic (rq_target req) \<or> rs_content_type res = json_type)"

lemma makeResponse_ok: "st \<noteq> status_internal_server_error \<Longrightarrow>
    response_ok req (makeResponse st body json_type (rq_version req) (rq_keep_alive req))"
  by (simp add: response_ok_def makeResponse_def)

lemma answer_ok:
  fixes run :: "client_run option"
  assumes "map_option (\<lambda>run. map_sum id (\<lambda>body. makeResponse status_ok body json_type (rq_version req) (rq_keep_alive req))
      (cr_result run)) run = Some (Inr res)"
  shows "response_ok req res"
proof -
  from assms obtain r where "run = Some r" by auto
  with assms show ?thesis by (cases "cr_result r") (auto intro!: makeResponse_ok)
qed

lemma dispatchProtected_ok: "dispatchProtected env req = Some (Inr res) \<Longrightarrow> response_ok req res"
  unfolding dispatchProtected_def Let_def
  by (simp only: split: if_split_asm; (erule answer_ok)?; (clarify, rule makeResponse_ok, simp)?)

lemma handle_response_ok:
  assumes "HttpRouter_handle env req au = Some (au', Inr res)"
  shows "response_ok req res"
proof -
  consider "isStatic (rq_target req)" | "is_login req" | "is_logout req" | "is_protected req"
    | "\<not> isStatic (rq_target req)" "\<not> is_login req" "\<not> is_logout req" "\<not> is_protected req" by blast
  then show ?thesis
  proof cases
    case 1
    with assms HttpRouter_handle_cases(1)[OF 1] show ?thesis
      by (auto simp: response_ok_def handleStatic_def makeResponse_def split: option.splits)
  next
    case 2
    with assms HttpRouter_handle_cases(2)[OF 2] show ?thesis
      by (auto simp: response_ok_def handleLogin_def makeResponse_def Let_def split: option.splits prod.splits if_splits)
  next
    case 3
    with assms HttpRouter_handle_cases(3)[OF 3] show ?thesis by (auto simp: response_ok_def logged_out_def makeResponse_def)
  next
    case 4
    then have "dispatchProtected env req = Some (Inr res) \<or> res = unauthorized req"
      using assms HttpRouter_handle_cases(4)[OF 4, of env au] by (auto split: if_splits)
    then show ?thesis by (auto simp: unauthorized_def intro: dispatchProtected_ok makeResponse_ok)
  next
    case 5
    with assms HttpRouter_handle_cases(5)[OF 5] show ?thesis by (auto simp: response_ok_def not_found_def makeResponse_def)
  qed
qed

lemma internal_error_ok: "\<not> isStatic (rq_target req) \<Longrightarrow> response_ok req (internal_error req)"
  by (simp add: response_ok_def internal_error_def)

lemma handle_throws: "HttpRouter_handle env req au = Some (au', Inl e) \<Longrightarrow> is_protected req"
  using HttpRouter_handle_cases[of req env au] by (cases "handleLogin env req au") auto

definition session_inv :: "session_event list \<Rightarrow> HttpSession \<Rightarrow> bool" where
  "session_inv evs hs \<longleftrightarrow> length (hs_responses hs) = length (requests evs) \<and>
     list_all2 (\<lambda>(env, req) res. response_ok req res) (requests evs) (hs_responses hs) \<and>
     (hs_phase hs = Reading \<longrightarrow> list_all2 (\<lambda>(env, req) res. \<not> he_need_eof env res) (requests evs) (hs_responses hs)) \<and>
     (\<forall>close. hs_phase hs = Writing close \<longrightarrow> hs_responses hs \<noteq> [] \<and>
       close = he_need_eof (fst (last (requests evs))) (last (hs_responses hs)) \<and>
       list_all2 (\<lambda>(env, req) res. \<not> he_need_eof env res) (butlast (requests evs)) (butlast (hs_responses hs))) \<and>
     (hs_shutdown hs \<longrightarrow> hs_phase hs = Finished)"

lemma list_all2_last_butlast:
  "length xs = length ys \<Longrightarrow> ys \<noteq> [] \<Longrightarrow> list_all2 P (butlast xs) (butlast ys) \<Longrightarrow> P (last xs) (last ys) \<Longrightarrow> list_all2 P xs ys"
  by (metis append_butlast_last_id length_0_conv list_all2_appendI list_all2_Cons list_all2_Nil)

lemma session_inv_step:
  assumes "session_inv evs hs" "session_step ev (au, hs) (au', hs')"
  shows "session_inv (evs @ [ev]) hs'"
  using assms(2)
proof (cases rule: session_step.cases)
  case (step_read env ec)
  then have ph: "hs_phase hs = Reading" and o: "onRead env ec (au, hs) = Some (au', hs')" and ev: "ev = EvRead env ec" by auto
  show ?thesis
  proof (cases ec)
    case (ReadOk req)
    with o obtain res where r: "HttpRouter_handle env req au = Some (au', res)"
      "hs' = session_write env (case_sum (\<lambda>e. internal_error req) (\<lambda>res. res) res) hs"
      by (auto simp: onRead_def split: bind_splits)
    let ?res = "case_sum (\<lambda>e. internal_error req) (\<lambda>res. res) res"
    have "response_ok req ?res"
    proof (cases res)
      case (Inl e)
      with r(1) have "\<not> isStatic (rq_target req)" using handle_throws targets_disjoint(3) by blast
      with Inl show ?thesis by (simp add: internal_error_ok)
    qed (use r(1) handle_response_ok in simp)
    then show ?thesis using assms(1) ph unfolding r(2)
      by (auto simp: session_inv_def ev ReadOk requests_append session_write_def list_all2_appendI)
  qed (use assms(1) ph o in \<open>auto simp: session_inv_def ev requests_append onRead_def session_doClose_def\<close>)
next
  case (step_write close ec)
  then have ph: "hs_phase hs = Writing close" and h: "hs' = onWrite close ec hs" and ev: "ev = EvWrite ec" by auto
  have l: "length (requests evs) = length (hs_responses hs)" using assms(1) by (simp add: session_inv_def)
  have "list_all2 (\<lambda>(env, req) res. \<not> he_need_eof env res) (requests evs) (hs_responses hs)" if "\<not> close"
    using assms(1) ph that by (intro list_all2_last_butlast[OF l]) (auto simp: session_inv_def split: prod.splits)
  then show ?thesis using assms(1) ph
    by (auto simp: session_inv_def h ev requests_append onWrite_def session_doClose_def)
next
  case step_other
  then show ?thesis using assms(1) by (auto simp: session_inv_def requests_append)
qed

lemma session_inv_steps: "session_steps evs (au0, session_run) (au, hs) \<Longrightarrow> session_inv evs hs"
proof (induction evs "(au0, session_run)" "(au, hs)" arbitrary: au hs rule: session_steps.induct)
  case steps_none
  then show ?case by (simp add: session_inv_def session_run_def)
next
  case (steps_more evs st' ev)
  obtain au1 hs1 where "st' = (au1, hs1)" by (cases st')
  with steps_more session_inv_step show ?case by blast
qed

subsection \<open>Properties\<close>

text \<open>
  C36. Statistics need a login: in any sequence of requests to a freshly started daemon, a request
  under \<open>/api/v1/\<close> that is not refused presents the name of a session that an earlier login with the
  administrator's name and password opened, that has not expired, and that no request since has
  logged out.
\<close>

theorem http_protected_needs_login:
  assumes "serve (es @ [(env, req)]) (mk_AuthService cfg) = Some (au, rs)"
    and "is_protected req" "last rs \<noteq> Inr (unauthorized req)"
  shows "\<exists>j < length es. \<exists>expiry. login_grants (mk_AuthService cfg) (es ! j) = Some (extractSession req, expiry) \<and>
    he_now1 env \<le> expiry \<and> (\<forall>i. j < i \<and> i < length es \<longrightarrow> logs_out (es ! i) \<noteq> Some (extractSession req))"
proof -
  have fresh: "au_sessions (mk_AuthService cfg) = []"
    by (auto simp: mk_AuthService_def Let_def split: startup_config.splits option.splits)
  from assms(1) obtain au1 rs1 res where h: "serve es (mk_AuthService cfg) = Some (au1, rs1)"
    "HttpRouter_handle env req au1 = Some (au, res)" "rs = rs1 @ [res]"
    unfolding serve_append by (auto split: bind_splits)
  from h(2,3) assms(3) have "snd (validateSession (he_now1 env) (extractSession req) au1)"
    using HttpRouter_handle_cases(4)[OF assms(2), of env au1] by (auto split: if_splits)
  then obtain expiry where "map_of (au_sessions au1) (extractSession req) = Some expiry" "he_now1 env \<le> expiry"
    by (auto simp: validateSession_def split: option.splits if_splits)
  with session_origin[OF h(1) fresh] show ?thesis by blast
qed

definition demo_admin :: startup_config where
  "demo_admin = ConfigAdmin (Some (ascii ''root'')) (Some (ascii ''ab'')) (Some [])"

definition demo_http :: "u64 \<Rightarrow> http_env" where
  "demo_http now = \<lparr>he_sha256 = \<lambda>_. [0xAB], he_now1 = now, he_now2 = now,
     he_login = \<lambda>b. if b = [1] then Some (ascii ''root'', ascii ''pw'') else None, he_files = \<lambda>_. None, he_baseDir = [],
     he_path = ascii ''/s'', he_io = demo_client, he_need_eof = \<lambda>res. \<not> rs_keep_alive res\<rparr>"

definition demo_login :: Request where
  "demo_login = \<lparr>rq_method = verb_post, rq_target = ascii ''/api/login'', rq_version = 11, rq_keep_alive = True,
     rq_cookie = None, rq_body = [1]\<rparr>"

definition demo_stats :: Request where
  "demo_stats = \<lparr>rq_method = verb_get, rq_target = ascii ''/api/v1/stats/session'', rq_version = 11, rq_keep_alive = True,
     rq_cookie = Some (ascii ''session='' @ session_id 5), rq_body = []\<rparr>"

lemma demo_requests: "is_login demo_login" "is_protected demo_stats" "extractSession demo_stats = session_id 5"
proof -
  show "is_login demo_login" "is_protected demo_stats"
    by (simp_all add: is_login_def is_protected_def demo_login_def demo_stats_def ascii_def)
  show "extractSession demo_stats = session_id 5" by (rule extractSession_cookie) (simp add: demo_stats_def)
qed

lemma demo_grants: "login_grants (mk_AuthService demo_admin) (demo_http 5, demo_login) = Some (session_id 5, 1805)"
proof -
  have "au_username (mk_AuthService demo_admin) = ascii ''root''" "au_salt (mk_AuthService demo_admin) = []"
    "au_passwordHash (mk_AuthService demo_admin) = ascii ''ab''"
    by (simp_all add: mk_AuthService_def demo_admin_def)
  moreover have "auth_hash (\<lambda>_. [0xAB]) (ascii ''pw'') [] = ascii ''ab''"
    by (simp add: auth_hash_def hex_byte_def hex_digit_def ascii_def)
  ultimately show ?thesis
    using demo_requests(1) by (simp add: login_grants_def demo_http_def demo_login_def SESSION_TTL_SEC_def)
qed

lemma demo_dispatch: "dispatchProtected (demo_http now) demo_stats = Some (Inr (makeResponse status_ok [8, 7] json_type 11 True))"
proof -
  have r: "ascii ''stats/session'' \<in> set stats_routes" by (simp add: stats_routes_def)
  have l: "length (stats_request (ascii ''stats/session'')) \<le> 24" using r by (rule stats_request_length)
  have c: "ci_socket demo_client = 7" "ci_connect demo_client" "ci_stream demo_client = [0, 2, 8, 7]"
    by (simp_all add: demo_client_def)
  have "fetchSession (ascii ''/s'') demo_client = read_reply demo_client (buildFrame (stats_request (ascii ''stats/session'')))"
    unfolding fetchSession_def mgmt_handle_route[OF r]
    by (rule IpcClient_send_complete[OF _ _ _ _ demo_client_steps(1)])
      (use l in \<open>simp_all add: c SUN_PATH_SIZE_def ascii_def\<close>)
  also have "\<dots> = Some \<lparr>cr_sent = buildFrame (stats_request (ascii ''stats/session'')), cr_closed = [ci_socket demo_client],
      cr_result = Inr [8, 7]\<rparr>"
    by (rule read_reply_complete[OF _ _ demo_client_steps(2), of _ "[]"]) (simp_all add: c be_bytes_16)
  finally show ?thesis by (simp add: dispatchProtected_def demo_http_def demo_stats_def)
qed

lemma demo_serve:
  obtains au res where "serve ([(demo_http 5, demo_login)] @ [(demo_http 9, demo_stats)]) (mk_AuthService demo_admin) =
    Some (au, [res, Inr (makeResponse status_ok [8, 7] json_type 11 True)])"
proof -
  obtain au1 res where h: "HttpRouter_handle (demo_http 5) demo_login (mk_AuthService demo_admin) = Some (au1, res)"
    using HttpRouter_handle_cases(2)[OF demo_requests(1)] by (cases "handleLogin (demo_http 5) demo_login (mk_AuthService demo_admin)") simp
  have "map_of (au_sessions au1) (session_id 5) = Some 1805" using handle_sessions[OF h] demo_grants by simp
  then have "validateSession (he_now1 (demo_http 9)) (extractSession demo_stats) au1 = (au1, True)"
    by (simp add: validateSession_def demo_requests(3) demo_http_def)
  then have "HttpRouter_handle (demo_http 9) demo_stats au1 = Some (au1, Inr (makeResponse status_ok [8, 7] json_type 11 True))"
    using HttpRouter_handle_cases(4)[OF demo_requests(2)] demo_dispatch by simp
  with h that show ?thesis by simp
qed

theorem http_protected_needs_login_witness:
  "\<exists>au rs. serve ([(demo_http 5, demo_login)] @ [(demo_http 9, demo_stats)]) (mk_AuthService demo_admin) = Some (au, rs) \<and>
    (\<exists>expiry. login_grants (mk_AuthService demo_admin) (demo_http 5, demo_login) = Some (session_id 5, expiry) \<and> 9 \<le> expiry)"
proof -
  obtain au res where s: "serve ([(demo_http 5, demo_login)] @ [(demo_http 9, demo_stats)]) (mk_AuthService demo_admin) =
    Some (au, [res, Inr (makeResponse status_ok [8, 7] json_type 11 True)])" by (rule demo_serve)
  have "last [res, Inr (makeResponse status_ok [8, 7] json_type 11 True)] \<noteq> Inr (unauthorized demo_stats)"
    by (simp add: makeResponse_def unauthorized_def)
  from http_protected_needs_login[OF s demo_requests(2) this] s show ?thesis
    by (simp add: demo_requests(3)) (simp add: demo_http_def)
qed

text \<open>
  C37. A login gives access: the response to a correct login carries a cookie, and a request with that
  cookie, any number of other requests later, gets the statistics it asks for, as long as the
  session has not expired, nobody logged it out, and no login replaced it in the same second.
\<close>

theorem http_login_gives_access:
  assumes "serve (es1 @ [(env, req)] @ es2 @ [(env', req')]) au = Some (au', rs)"
    and "login_grants au (env, req) = Some (sid, expiry)"
    and "\<forall>e \<in> set es2. (\<forall>u. login_grants au e \<noteq> Some (sid, u)) \<and> logs_out e \<noteq> Some sid \<and>
      (is_protected (snd e) \<and> extractSession (snd e) = sid \<longrightarrow> he_now1 (fst e) \<le> expiry)"
    and "is_protected req'" "rq_cookie req' = Some (ascii ''session='' @ sid)" "he_now1 env' \<le> expiry"
  shows "(\<exists>res. rs ! length es1 = Inr res \<and>
      rs_set_cookie res = Some (ascii ''session='' @ sid @ ascii ''; HttpOnly; Path=/; SameSite=Strict'')) \<and>
    dispatchProtected env' req' = Some (last rs)"
proof -
  from assms(1) obtain au1 rs1 rs' where h1: "serve es1 au = Some (au1, rs1)"
    "serve ([(env, req)] @ es2 @ [(env', req')]) au1 = Some (au', rs')" "rs = rs1 @ rs'" by (rule serve_appendE)
  from h1(2) obtain au2 r0 rs'' where h2: "serve [(env, req)] au1 = Some (au2, r0)"
    "serve (es2 @ [(env', req')]) au2 = Some (au', rs'')" "rs' = r0 @ rs''" by (rule serve_appendE)
  from h2(2) obtain au3 rs2 r1 where h3: "serve es2 au2 = Some (au3, rs2)"
    "serve [(env', req')] au3 = Some (au', r1)" "rs'' = rs2 @ r1" by (rule serve_appendE)
  from h2(1) obtain res where h4: "HttpRouter_handle env req au1 = Some (au2, res)" "r0 = [res]" by (rule serve_singleE)
  from h3(2) obtain res' where h5: "HttpRouter_handle env' req' au3 = Some (au', res')" "r1 = [res']" by (rule serve_singleE)
  note h = h1(1) h4(1) h3(1) h5(1)
  have rs: "rs = rs1 @ [res] @ rs2 @ [res']" using h1(3) h2(3) h3(3) h4(2) h5(2) by simp
  have g: "login_grants au1 e = login_grants au e" "login_grants au2 e = login_grants au e" for e
    using serve_credentials[OF h1(1)] serve_credentials[OF h2(1)] by (intro login_grants_cong; simp)+
  have l: "is_login req" using assms(2) by (auto simp: login_grants_def split: if_splits)
  have "map_of (au_sessions au2) sid = Some expiry" using handle_sessions[OF h(2)] assms(2) g(1) by simp
  from session_persists[OF h(3) this] assms(3) g(2) have m: "map_of (au_sessions au3) sid = Some expiry" by simp
  have "sid = session_id (he_now1 env)"
    using assms(2) by (auto simp: login_grants_def split: if_splits option.splits)
  with extractSession_cookie assms(5) have x: "extractSession req' = sid" by simp
  have "\<not> expiry < he_now1 env'" using assms(6) by simp
  then have v: "validateSession (he_now1 env') (extractSession req') au3 = (au3, True)"
    using m by (simp add: validateSession_def x)
  have d: "map_option (Pair au3) (dispatchProtected env' req') = Some (au', res')"
    using HttpRouter_handle_cases(4)[OF assms(4), of env' au3] h(4) by (simp add: v)
  have "res = Inr (snd (handleLogin env req au1))"
    using HttpRouter_handle_cases(2)[OF l, of env au1] h(2) by (cases "handleLogin env req au1") simp
  with handleLogin_cookie[of au1 env req sid expiry] assms(2) g(1)
  have "\<exists>res0. res = Inr res0 \<and> rs_set_cookie res0 = Some (ascii ''session='' @ sid @ ascii ''; HttpOnly; Path=/; SameSite=Strict'')"
    by simp
  then show ?thesis using d rs serve_length[OF h(1)] by (auto simp: nth_append)
qed

theorem http_login_gives_access_witness:
  "\<exists>au res. serve ([] @ [(demo_http 5, demo_login)] @ [] @ [(demo_http 9, demo_stats)]) (mk_AuthService demo_admin) =
      Some (au, [Inr res, Inr (makeResponse status_ok [8, 7] json_type 11 True)]) \<and>
    rs_set_cookie res = Some (ascii ''session='' @ session_id 5 @ ascii ''; HttpOnly; Path=/; SameSite=Strict'')"
proof -
  obtain au res where s: "serve ([] @ [(demo_http 5, demo_login)] @ [] @ [(demo_http 9, demo_stats)]) (mk_AuthService demo_admin) =
    Some (au, [res, Inr (makeResponse status_ok [8, 7] json_type 11 True)])"
    by (rule demo_serve) simp
  have c: "rq_cookie demo_stats = Some (ascii ''session='' @ session_id 5)" "he_now1 (demo_http 9) \<le> 1805"
    by (simp_all add: demo_stats_def demo_http_def)
  from http_login_gives_access[OF s demo_grants _ demo_requests(2) c] s show ?thesis by auto
qed

text \<open>
  C38. Reading the session cookie by searching for \<open>session=\<close> and the next semicolon agrees with
  splitting the field into its cookies and taking the one called \<open>session\<close>, provided the text
  \<open>session=\<close> occurs in no cookie except at its start.
\<close>

theorem cookie_search_equivalent:
  assumes "rq_cookie req = Some cookies" "list_all key_at_start (cookie_list cookies)"
  shows "extractSession req = session_cookie cookies"
  using assms session_value_cookie by (simp add: extractSession_value)

theorem cookie_search_equivalent_witness:
  "extractSession (demo_stats\<lparr>rq_cookie := Some (ascii ''a=1; session=xy; b=2'')\<rparr>) = ascii ''xy''"
proof -
  have "list_all key_at_start (cookie_list (ascii ''a=1; session=xy; b=2''))" by code_simp
  moreover have "session_cookie (ascii ''a=1; session=xy; b=2'') = ascii ''xy''" by code_simp
  ultimately show ?thesis
    using cookie_search_equivalent[of "demo_stats\<lparr>rq_cookie := Some (ascii ''a=1; session=xy; b=2'')\<rparr>"] by simp
qed



end
