(* ===== verification/TlsProps.thy ===== *)
theory TlsProps
  imports Tls TcpProps
begin

text \<open>
  Properties of the TLS server: its handlers never fail, a connection with a finished handshake and
  waiting packets is always registered for EPOLLOUT, replies leave a connection in order and without
  loss across partial writes, messages reach the engine, and a connection that the TCP server
  recognises as TLS arrives here intact.
\<close>

subsection \<open>Invariant\<close>

text \<open>A packet's offset stays inside its payload, whose length is a \<open>size_t\<close>.\<close>

definition payload_ok :: "Packet \<Rightarrow> bool" where
  "payload_ok p \<longleftrightarrow> pk_txOffset p \<le> length (pk_payload p) \<and> length (pk_payload p) < SIZE_MOD"

definition tls_conn_wf :: "fd \<Rightarrow> TlsConnection \<Rightarrow> bool" where
  "tls_conn_wf fd c \<longleftrightarrow> tl_fd c = fd \<and> rb_wf (tl_rxRing c) \<and> rb_cap (tl_rxRing c) = TLS_MAX_RX_BUFFER_SIZE \<and>
     list_all payload_ok (tl_txQueue c)"

definition tls_wf :: "TlsReactor \<Rightarrow> bool" where
  "tls_wf tr \<longleftrightarrow> um_wf (lr_conns tr) \<and> (\<forall>fd c. map_of (lr_conns tr) fd = Some c \<longrightarrow> tls_conn_wf fd c) \<and>
     workers_wf (lr_workers tr) \<and> port_wf (lr_port tr) \<and> list_all payload_ok (port_list (lr_port tr))"

lemma tls_wf_conn: "tls_wf tr \<Longrightarrow> map_of (lr_conns tr) fd = Some c \<Longrightarrow> tls_conn_wf fd c"
  by (simp add: tls_wf_def)

lemma tls_wf_close: "tls_wf tr \<Longrightarrow> tls_wf (tls_closeConnection fd tr)"
  by (auto simp: tls_wf_def tls_closeConnection_def split: if_splits)

lemma tls_wf_update:
  "tls_wf tr \<Longrightarrow> tls_conn_wf fd c \<Longrightarrow> tls_wf (tr\<lparr>lr_conns := AList.update fd c (lr_conns tr)\<rparr>)"
  by (auto simp: tls_wf_def split: if_splits)

lemma tls_wf_epoll: "tls_wf (tr\<lparr>lr_epoll := e\<rparr>) = tls_wf tr"
  by (simp add: tls_wf_def)

lemma tls_conn_wf_new: "tls_conn_wf fd (mk_TlsConnection fd addr TLS_MAX_RX_BUFFER_SIZE)"
  by (simp add: tls_conn_wf_def mk_TlsConnection_def TLS_MAX_RX_BUFFER_SIZE_def rb_wf_new SIZE_MOD_def)

subsection \<open>Receiving is reading a stream\<close>

lemma tls_emit_simps:
  "tls_emit fd conn f None = None"
  "tls_emit fd conn f (Some tr) = map_option (\<lambda>ws. tr\<lparr>lr_workers := ws\<rparr>)
     (to_worker TcpWorker_enqueueRx (tls_packet fd conn f) (lr_workers tr))"
  by (simp_all add: tls_emit_def map_conv_bind_option comp_def enqueueRx_same)

lemma tls_emit_fold:
  "fold (tls_emit fd conn) fs (Some tr) = map_option (\<lambda>ws. tr\<lparr>lr_workers := ws\<rparr>)
     (ofold (to_worker TcpWorker_enqueueRx) (map (tls_packet fd conn) fs) (lr_workers tr))"
proof (induction fs arbitrary: tr)
  case (Cons f fs)
  show ?case
  proof (cases "to_worker TcpWorker_enqueueRx (tls_packet fd conn f) (lr_workers tr)")
    case None
    have "fold (tls_emit fd conn) fs None = None" by (induction fs) (simp_all add: tls_emit_simps)
    with None show ?thesis by (simp add: tls_emit_simps)
  next
    case (Some ws)
    with Cons.IH[of "tr\<lparr>lr_workers := ws\<rparr>"] show ?thesis by (simp add: tls_emit_simps)
  qed
qed simp

lemma pk_fd_tls_packet [simp]: "pk_fd (tls_packet fd conn pl) = fd"
  by (simp add: tls_packet_def mk_Packet_def)

definition tls_delivered :: "fd \<Rightarrow> TlsReactor \<Rightarrow> TlsReactor \<Rightarrow> bytes list \<Rightarrow> bool" where
  "tls_delivered fd tr tr' fs \<longleftrightarrow>
     (\<exists>conn rx i ws. map_of (lr_conns tr) fd = Some conn \<and> worker_index fd (lr_workers tr) = Some i \<and>
        rx_delivered i (map (tls_packet fd conn) fs) (lr_workers tr) ws \<and>
        tr' = tr\<lparr>lr_workers := ws, lr_conns := AList.update fd (conn\<lparr>tl_rxRing := rx\<rparr>) (lr_conns tr)\<rparr>)"

lemma tls_delivered_none:
  assumes "tls_wf tr" "map_of (lr_conns tr) fd = Some conn"
  shows "tls_delivered fd tr tr []"
proof -
  have ws: "workers_wf (lr_workers tr)" using assms(1) by (simp add: tls_wf_def)
  then obtain i where i: "worker_index fd (lr_workers tr) = Some i" using worker_index_wf by blast
  from rx_delivered_none[OF ws worker_index_bound[OF i]] i assms(2) show ?thesis
    unfolding tls_delivered_def
    by (intro exI[of _ conn] exI[of _ "tl_rxRing conn"] exI[of _ i] exI[of _ "lr_workers tr"])
      (simp add: update_same)
qed

lemma tls_delivered_trans:
  assumes "tls_delivered fd tr tr' fs" "tls_delivered fd tr' tr'' gs"
  shows "tls_delivered fd tr tr'' (fs @ gs)"
proof -
  from assms(1) obtain conn rx i ws where 1: "map_of (lr_conns tr) fd = Some conn"
    "worker_index fd (lr_workers tr) = Some i"
    "rx_delivered i (map (tls_packet fd conn) fs) (lr_workers tr) ws"
    "tr' = tr\<lparr>lr_workers := ws, lr_conns := AList.update fd (conn\<lparr>tl_rxRing := rx\<rparr>) (lr_conns tr)\<rparr>"
    unfolding tls_delivered_def by blast
  have p: "tls_packet fd (conn\<lparr>tl_rxRing := rx\<rparr>) = tls_packet fd conn"
    by (simp add: tls_packet_def fun_eq_iff)
  from assms(2) 1(4) obtain rx' i' ws' where 2: "worker_index fd ws = Some i'"
    "rx_delivered i' (map (tls_packet fd (conn\<lparr>tl_rxRing := rx\<rparr>)) gs) ws ws'"
    "tr'' = tr'\<lparr>lr_workers := ws', lr_conns := AList.update fd (conn\<lparr>tl_rxRing := rx'\<rparr>) (lr_conns tr')\<rparr>"
    unfolding tls_delivered_def by auto
  have "i' = i" using 1(2) 2(1) rx_delivered_index[OF 1(3)] by simp
  with rx_delivered_trans[OF 1(3)] 2(2) p
  have "rx_delivered i (map (tls_packet fd conn) (fs @ gs)) (lr_workers tr) ws'" by simp
  with 1 2(3) show ?thesis unfolding tls_delivered_def by auto
qed

definition tls_ring :: "fd \<Rightarrow> TlsReactor \<Rightarrow> ByteRingBuffer option" where
  "tls_ring fd tr = map_option tl_rxRing (map_of (lr_conns tr) fd)"

abbreviation tls_mod :: "fd \<Rightarrow> u32 \<Rightarrow> TlsReactor \<Rightarrow> TlsReactor" where
  "tls_mod fd ev tr \<equiv> tr\<lparr>lr_epoll := epoll_mod fd ev (lr_epoll tr)\<rparr>"

text \<open>The loop stops with the connection as it is, waiting for writability, or closed.\<close>

definition tls_ends :: "fd \<Rightarrow> TlsReactor \<Rightarrow> TlsReactor \<Rightarrow> bool" where
  "tls_ends fd tr tr' \<longleftrightarrow> tr' = tr \<or> tr' = tls_closeConnection fd tr \<or>
     tr' = tls_mod fd (EPOLLIN OR EPOLLOUT OR EPOLLRDHUP) tr"

lemma tls_turn:
  assumes wf: "tls_wf tr" and ring: "tls_ring fd tr = Some r" and room: "rb_writeLen r \<noteq> 0"
    and rd: "SSL_read (rb_writeLen r) rs = (RBytes bs, rs')" "bs \<noteq> []"
  shows "\<exists>tr' r'. tls_receive_loop fd tr rs = tls_receive_loop fd tr' rs' \<and> tls_wf tr' \<and>
    tls_ring fd tr' = Some r' \<and> rb_cap r' = rb_cap r \<and>
    rb_contents r' = snd (split_frames 16 packet_blen (rb_contents r @ bs)) \<and>
    tls_delivered fd tr tr' (fst (split_frames 16 packet_blen (rb_contents r @ bs)))"
proof -
  let ?fs = "fst (split_frames 16 packet_blen (rb_contents r @ bs))"
  from ring obtain conn where conn: "map_of (lr_conns tr) fd = Some conn" "r = tl_rxRing conn"
    by (auto simp: tls_ring_def)
  have c: "tls_conn_wf fd conn" by (rule tls_wf_conn[OF wf conn(1)])
  then have "rb_wf r" by (simp add: tls_conn_wf_def conn(2))
  from tcp_absorb[OF this rd(2) read_length[OF rd(1)], of "tls_emit fd conn" "Some tr"]
  obtain rx where rx: "absorb TlsFraming_tryExtractFrame r bs (tls_emit fd conn) (Some tr) =
      Some (rx, fold (tls_emit fd conn) ?fs (Some tr), True)" "rb_wf rx" "rb_cap rx = rb_cap r"
    "rb_contents rx = snd (split_frames 16 packet_blen (rb_contents r @ bs))"
    unfolding tls_extract by blast
  have ws: "workers_wf (lr_workers tr)" using wf by (simp add: tls_wf_def)
  then obtain i where i: "worker_index fd (lr_workers tr) = Some i" using worker_index_wf by blast
  obtain ws' where ws': "ofold (to_worker TcpWorker_enqueueRx) (map (tls_packet fd conn) ?fs)
      (lr_workers tr) = Some ws'" "rx_delivered i (map (tls_packet fd conn) ?fs) (lr_workers tr) ws'"
    by (rule to_worker_delivered[OF ws i, of "map (tls_packet fd conn) ?fs"]) auto
  define tr' where "tr' = tr\<lparr>lr_workers := ws',
    lr_conns := AList.update fd (conn\<lparr>tl_rxRing := rx\<rparr>) (lr_conns tr)\<rparr>"
  have "tls_receive_loop fd tr rs = tls_receive_loop fd tr' rs'"
    using conn room rd rx(1) ws'(1)
    by (simp add: tls_receive_loop.simps[of fd tr rs] tls_emit_fold tr'_def)
  moreover have "tls_wf (tr\<lparr>lr_workers := ws'\<rparr>)"
    using wf rx_delivered_wf[OF ws ws'(2)] by (simp add: tls_wf_def)
  then have "tls_wf tr'"
    using tls_wf_update[of "tr\<lparr>lr_workers := ws'\<rparr>" fd "conn\<lparr>tl_rxRing := rx\<rparr>"] c rx(2,3)
    by (simp add: tr'_def tls_conn_wf_def conn(2))
  moreover have "tls_delivered fd tr tr' ?fs"
    unfolding tls_delivered_def tr'_def using conn(1) i ws'(2) by blast
  ultimately show ?thesis using rx(3,4)
    by (intro exI[of _ tr'] exI[of _ rx]) (simp add: tr'_def tls_ring_def)
qed

lemma tls_other:
  assumes ring: "tls_ring fd tr = Some r"
    and no: "rb_writeLen r = 0 \<or> (\<forall>bs. fst (SSL_read (rb_writeLen r) rs) = RBytes bs \<longrightarrow> bs = [])"
  shows "\<exists>tr' rs'. tls_receive_loop fd tr rs = Some (tr', rs') \<and> tls_ends fd tr tr'"
proof -
  from ring obtain conn where conn: "map_of (lr_conns tr) fd = Some conn" "r = tl_rxRing conn"
    by (auto simp: tls_ring_def)
  obtain res rs' where r: "SSL_read (rb_writeLen r) rs = (res, rs')" by fastforce
  with no conn show ?thesis
    by (cases res; cases "rb_writeLen r = 0")
      (auto simp: tls_receive_loop.simps[of fd tr rs] tls_ends_def)
qed

interpretation tls_rx: stream_receiver 16 packet_blen WANT_READ "tls_receive_loop fd" tls_wf "tls_ring fd"
  "tls_delivered fd" "tls_ends fd" for fd
proof (unfold_locales, goal_cases)
  case (1 s r)
  then show ?case
    by (auto simp: tls_ring_def tls_conn_wf_def TLS_MAX_RX_BUFFER_SIZE_def dest!: tls_wf_conn)
next
  case (2 s r rs bs rs')
  then show ?case by (rule tls_turn)
next
  case (3 s r rs)
  then show ?case using tls_other by blast
next
  case (4 s r)
  then show ?case by (auto simp: tls_ring_def tls_receive_loop.simps[of fd s])
next
  case (5 s r)
  then show ?case by (auto simp: tls_ring_def intro: tls_delivered_none)
next
  case (6 s s' fs s'' gs)
  then show ?case by (rule tls_delivered_trans)
qed

subsection \<open>Transmitting\<close>

text \<open>What a connection has still to send, and what has been sent on a descriptor.\<close>

definition unsent :: "Packet list \<Rightarrow> bytes" where
  "unsent q = concat (map (\<lambda>p. drop (pk_txOffset p) (pk_payload p)) q)"

lemma unsent_simps [simp]:
  "unsent [] = []" "unsent (p # q) = drop (pk_txOffset p) (pk_payload p) @ unsent q"
  "unsent (q @ q') = unsent q @ unsent q'"
  by (simp_all add: unsent_def)

definition tls_out :: "TlsReactor \<Rightarrow> fd \<Rightarrow> bytes option" where
  "tls_out tr fd = map_option (\<lambda>c. unsent (tl_txQueue c)) (map_of (lr_conns tr) fd)"

definition tls_sent :: "TlsReactor \<Rightarrow> fd \<Rightarrow> bytes" where
  "tls_sent tr fd = concat (map snd (filter (\<lambda>(g, bs). g = fd) (lr_sent tr)))"

text \<open>A handler that concerns the connection of \<open>fd\<close> only.\<close>

definition tls_at :: "fd \<Rightarrow> TlsReactor \<Rightarrow> TlsReactor \<Rightarrow> bool" where
  "tls_at fd tr tr' \<longleftrightarrow>
     (\<forall>g. g \<noteq> fd \<longrightarrow> map_of (lr_conns tr') g = map_of (lr_conns tr) g \<and> tls_sent tr' g = tls_sent tr g \<and>
        map_of (lr_epoll tr') g = map_of (lr_epoll tr) g) \<and>
     lr_wakeupFd tr' = lr_wakeupFd tr \<and> lr_port tr' = lr_port tr \<and> lr_handoverQueue tr' = lr_handoverQueue tr"

lemma tls_at_refl [simp]: "tls_at fd tr tr"
  by (simp add: tls_at_def)

lemma tls_at_trans: "tls_at fd s t \<Longrightarrow> tls_at fd t u \<Longrightarrow> tls_at fd s u"
  by (simp add: tls_at_def)

lemma tls_sent_simps [simp]:
  "tls_sent (tr\<lparr>lr_epoll := e\<rparr>) = tls_sent tr" "tls_sent (tr\<lparr>lr_conns := m\<rparr>) = tls_sent tr"
  "tls_sent (tr\<lparr>lr_workers := ws\<rparr>) = tls_sent tr" "tls_sent (tr\<lparr>lr_port := p\<rparr>) = tls_sent tr"
  "tls_sent (tr\<lparr>lr_closed := c\<rparr>) = tls_sent tr" "tls_sent (tr\<lparr>lr_handoverQueue := h\<rparr>) = tls_sent tr"
  by (simp_all add: tls_sent_def fun_eq_iff)

lemma tls_at_mod: "tls_at fd tr (tls_mod fd ev tr)"
  by (simp add: tls_at_def map_of_epoll_mod)

lemma tls_at_update: "tls_at fd tr (tr\<lparr>lr_conns := AList.update fd c (lr_conns tr)\<rparr>)"
  by (simp add: tls_at_def)

lemma tls_at_close: "tls_at fd tr (tls_closeConnection fd tr)"
  by (simp add: tls_at_def tls_closeConnection_def epoll_del_def)

lemma tls_at_delivered: "tls_delivered fd tr tr' fs \<Longrightarrow> tls_at fd tr tr'"
  by (auto simp: tls_at_def tls_delivered_def)

lemma tls_at_moved:
  assumes "tls_at fd tr tr'" "tls_out tr fd = Some bs"
    "case tls_out tr' fd of None \<Rightarrow> prefix (tls_sent tr' fd) (tls_sent tr fd @ bs)
     | Some o2 \<Rightarrow> tls_sent tr' fd @ o2 = tls_sent tr fd @ bs"
  shows "bytes_moved (tls_out tr) (tls_sent tr) (tls_out tr') (tls_sent tr')"
  by (rule bytes_moved_at[of fd _ "tls_out tr" _ _ bs])
    (use assms in \<open>simp_all add: tls_at_def tls_out_def\<close>)

text \<open>
  The outcome of writing packet \<open>pkt\<close>, already taken from the queue of \<open>conn\<close>: it is out and the loop
  goes on, it is back at the front of the queue with its offset advanced, or the connection is
  closed.
\<close>

definition tls_written :: "fd \<Rightarrow> TlsConnection \<Rightarrow> Packet \<Rightarrow> TlsReactor \<Rightarrow> TlsReactor \<Rightarrow> bool \<Rightarrow> bool" where
  "tls_written fd conn pkt tr tr' goes_on \<longleftrightarrow> tls_at fd tr tr' \<and>
     (let rest = drop (pk_txOffset pkt) (pk_payload pkt); e = map_of (lr_epoll tr) fd;
          e' = map_of (lr_epoll tr') fd
      in case map_of (lr_conns tr') fd of
           None \<Rightarrow> \<not> goes_on \<and> e' = None \<and> prefix (tls_sent tr' fd) (tls_sent tr fd @ rest)
         | Some c \<Rightarrow>
             tl_rxRing c = tl_rxRing conn \<and>
             (if goes_on then tl_txQueue c = tl_txQueue conn \<and> tls_sent tr' fd = tls_sent tr fd @ rest \<and> e' = e
              else \<exists>pkt'. payload_ok pkt' \<and> tl_txQueue c = pkt' # tl_txQueue conn \<and>
                tls_sent tr' fd @ drop (pk_txOffset pkt') (pk_payload pkt') = tls_sent tr fd @ rest \<and>
                (e \<noteq> None \<longrightarrow> e' = Some (EPOLLIN OR EPOLLOUT OR EPOLLRDHUP))))"

definition after_write :: "fd \<Rightarrow> TlsConnection \<Rightarrow> bytes \<Rightarrow> TlsReactor \<Rightarrow> TlsReactor" where
  "after_write fd conn bs tr = tr\<lparr>lr_sent := lr_sent tr @ [(fd, bs)],
     lr_conns := AList.update fd (conn\<lparr>tl_init := True\<rparr>) (lr_conns tr)\<rparr>"

lemma after_write_simps:
  "map_of (lr_conns (after_write fd conn bs tr)) = (map_of (lr_conns tr))(fd \<mapsto> conn\<lparr>tl_init := True\<rparr>)"
  "lr_epoll (after_write fd conn bs tr) = lr_epoll tr"
  "tls_sent (after_write fd conn bs tr) = (tls_sent tr)(fd := tls_sent tr fd @ bs)"
  "tls_at fd tr (after_write fd conn bs tr)"
  by (simp_all add: after_write_def tls_sent_def tls_at_def fun_eq_iff)

lemma tls_wf_after_write:
  assumes "tls_wf tr" "tls_conn_wf fd conn"
  shows "tls_wf (after_write fd conn bs tr)"
proof -
  have "tls_conn_wf fd (conn\<lparr>tl_init := True\<rparr>)" using assms(2) by (simp add: tls_conn_wf_def)
  from tls_wf_update[OF assms(1) this] show ?thesis by (simp add: after_write_def tls_wf_def)
qed

lemma tls_written_step:
  assumes "tls_written fd (conn\<lparr>tl_init := True\<rparr>) pkt1 (after_write fd conn bs tr) tr' b"
    "drop (pk_txOffset pkt) (pk_payload pkt) = bs @ drop (pk_txOffset pkt1) (pk_payload pkt1)"
  shows "tls_written fd conn pkt tr tr' b"
  using assms tls_at_trans[OF after_write_simps(4)]
  by (auto simp: tls_written_def after_write_simps Let_def split: option.splits)

text \<open>The branches of the write loop.\<close>

definition tls_blocked :: "fd \<Rightarrow> TlsConnection \<Rightarrow> Packet \<Rightarrow> TlsReactor \<Rightarrow> TlsReactor" where
  "tls_blocked fd conn pkt tr =
     tr\<lparr>lr_conns := AList.update fd (conn\<lparr>tl_txQueue := pkt # tl_txQueue conn\<rparr>) (lr_conns tr),
        lr_epoll := epoll_mod fd (EPOLLIN OR EPOLLOUT OR EPOLLRDHUP) (lr_epoll tr)\<rparr>"

lemma tls_write_done: "length (pk_payload pkt) \<le> pk_txOffset pkt \<Longrightarrow> tls_write_loop fd pkt ss tr = (tr, ss, True)"
  by (simp add: tls_write_loop.simps[of _ _ ss])

lemma tls_written_done:
  "map_of (lr_conns tr) fd = Some conn \<Longrightarrow> length (pk_payload pkt) \<le> pk_txOffset pkt \<Longrightarrow>
    tls_written fd conn pkt tr tr True"
  by (simp add: tls_written_def)

lemma tls_write_branches:
  assumes "pk_txOffset pkt < length (pk_payload pkt)" "map_of (lr_conns tr) fd = Some conn"
  shows "tls_write_loop fd pkt [] tr = (tls_blocked fd conn pkt tr, [], False)"
    "tls_write_loop fd pkt (SErr e # ss) tr =
      (if e = SSL_OTHER then tls_closeConnection fd tr else tls_blocked fd conn pkt tr, ss, False)"
    "tls_write_loop fd pkt (SSent n # ss) tr =
      (let p = drop (pk_txOffset pkt) (pk_payload pkt); k = min n (length p)
       in if n = 0 then (tls_closeConnection fd tr, ss, False)
          else tls_write_loop fd (updateTxOffset pkt k) ss (after_write fd conn (take k p) tr))"
  using assms by (simp_all add: tls_write_loop.simps[of _ _ "[]"] tls_write_loop.simps[of _ _ "SErr e # ss"]
      tls_write_loop.simps[of _ _ "SSent n # ss"] tls_blocked_def after_write_def Let_def)
    (cases e; simp)

lemma tls_write_blocked:
  assumes "tls_wf tr" "map_of (lr_conns tr) fd = Some conn" "payload_ok pkt"
  shows "tls_wf (tls_blocked fd conn pkt tr)" "tls_written fd conn pkt tr (tls_blocked fd conn pkt tr) False"
proof -
  have "tls_conn_wf fd (conn\<lparr>tl_txQueue := pkt # tl_txQueue conn\<rparr>)"
    using tls_wf_conn[OF assms(1,2)] assms(3) by (simp add: tls_conn_wf_def)
  from tls_wf_update[OF assms(1) this] show "tls_wf (tls_blocked fd conn pkt tr)"
    by (simp add: tls_blocked_def tls_wf_def)
  show "tls_written fd conn pkt tr (tls_blocked fd conn pkt tr) False"
    using assms(3) by (simp add: tls_written_def tls_blocked_def tls_at_def map_of_epoll_mod)
qed

lemma tls_write_closed:
  assumes "tls_wf tr"
  shows "tls_wf (tls_closeConnection fd tr)" "tls_written fd conn pkt tr (tls_closeConnection fd tr) False"
  using assms tls_wf_close tls_at_close[of fd tr]
  by (simp_all add: tls_written_def tls_closeConnection_def epoll_del_def)

lemma tls_write_loop_spec:
  assumes "tls_wf tr" "map_of (lr_conns tr) fd = Some conn" "payload_ok pkt"
  shows "case tls_write_loop fd pkt ss tr of (tr', ss', b) \<Rightarrow> tls_wf tr' \<and> tls_written fd conn pkt tr tr' b"
  using assms
proof (induction ss arbitrary: tr conn pkt)
  case Nil
  show ?case
  proof (cases "pk_txOffset pkt < length (pk_payload pkt)")
    case True
    from tls_write_branches(1)[OF True Nil(2)] tls_write_blocked[OF Nil] show ?thesis by simp
  next
    case False
    with tls_write_done[of pkt fd "[]" tr] tls_written_done[OF Nil(2)] Nil(1) show ?thesis by simp
  qed
next
  case (Cons a ss)
  show ?case
  proof (cases "pk_txOffset pkt < length (pk_payload pkt)")
    case False
    with tls_write_done[of pkt fd "a # ss" tr] tls_written_done[OF Cons.prems(2)] Cons.prems(1)
    show ?thesis by simp
  next
    case True
    note branches = tls_write_branches[OF True Cons.prems(2)]
    note ends = tls_write_blocked[OF Cons.prems] tls_write_closed(1)[OF Cons.prems(1), of fd]
      tls_write_closed(2)[OF Cons.prems(1), of fd conn pkt]
    let ?p = "drop (pk_txOffset pkt) (pk_payload pkt)"
    show ?thesis
    proof (cases a)
      case (SErr e)
      with branches(2)[of e ss] ends show ?thesis by (cases "e = SSL_OTHER") simp_all
    next
      case (SSent n)
      define k where "k = min n (length ?p)"
      show ?thesis
      proof (cases "n = 0")
        case True
        with SSent branches(3)[of n ss] ends show ?thesis by (simp add: Let_def)
      next
        case False
        have off: "pk_txOffset pkt + k \<le> length (pk_payload pkt)" using True by (simp add: k_def)
        then have upd: "updateTxOffset pkt k = pkt\<lparr>pk_txOffset := pk_txOffset pkt + k\<rparr>" (is "_ = ?pkt")
          using Cons.prems(3) by (simp add: updateTxOffset_def payload_ok_def)
        have ok: "payload_ok ?pkt" using off Cons.prems(3) by (simp add: payload_ok_def)
        have wf1: "tls_wf (after_write fd conn (take k ?p) tr)"
          by (rule tls_wf_after_write[OF Cons.prems(1) tls_wf_conn[OF Cons.prems(1,2)]])
        have eq: "tls_write_loop fd pkt (a # ss) tr = tls_write_loop fd ?pkt ss (after_write fd conn (take k ?p) tr)"
          using SSent False branches(3)[of n ss] upd by (simp add: Let_def k_def)
        have p: "?p = take k ?p @ drop (pk_txOffset ?pkt) (pk_payload ?pkt)"
          using append_take_drop_id[of k ?p] by (simp add: add.commute del: append_take_drop_id)
        have m: "map_of (lr_conns (after_write fd conn (take k ?p) tr)) fd = Some (conn\<lparr>tl_init := True\<rparr>)"
          by (simp add: after_write_simps)
        from Cons.IH[OF wf1 m ok] tls_written_step[OF _ p] show ?thesis unfolding eq
          by (auto split: prod.splits)
      qed
    qed
  qed
qed

text \<open>A flush: packets leave in order, and the registration is kept or turned to writability.\<close>

abbreviation EV_IN :: u32 where "EV_IN \<equiv> EPOLLIN OR EPOLLRDHUP"
abbreviation EV_OUT :: u32 where "EV_OUT \<equiv> EPOLLIN OR EPOLLOUT OR EPOLLRDHUP"

definition tls_flushed :: "fd \<Rightarrow> TlsReactor \<Rightarrow> TlsReactor \<Rightarrow> bool" where
  "tls_flushed fd tr tr' \<longleftrightarrow> tls_at fd tr tr' \<and>
     (case map_of (lr_conns tr') fd of
        None \<Rightarrow> map_of (lr_epoll tr') fd = None \<and> prefix (tls_sent tr' fd) (tls_sent tr fd @ the (tls_out tr fd))
      | Some c \<Rightarrow> tls_sent tr' fd @ unsent (tl_txQueue c) = tls_sent tr fd @ the (tls_out tr fd) \<and>
          (map_of (lr_epoll tr) fd \<noteq> None \<longrightarrow>
             map_of (lr_epoll tr') fd = map_of (lr_epoll tr) fd \<or> map_of (lr_epoll tr') fd = Some EV_OUT))"

lemma tls_flushed_refl: "map_of (lr_conns tr) fd = Some conn \<Longrightarrow> tls_flushed fd tr tr"
  by (simp add: tls_flushed_def tls_out_def)

lemma tls_flushed_after_write:
  assumes "map_of (lr_conns tr) fd = Some conn" "tl_txQueue conn = pkt # q"
    and "tr1 = tr\<lparr>lr_conns := AList.update fd (conn\<lparr>tl_txQueue := q\<rparr>) (lr_conns tr)\<rparr>"
    and "tls_written fd (conn\<lparr>tl_txQueue := q\<rparr>) pkt tr1 tr2 b"
  shows "b \<Longrightarrow> tls_flushed fd tr2 tr3 \<Longrightarrow> tls_flushed fd tr tr3" "\<not> b \<Longrightarrow> tls_flushed fd tr tr2"
proof -
  let ?rest = "drop (pk_txOffset pkt) (pk_payload pkt)"
  have out: "the (tls_out tr fd) = ?rest @ unsent q" using assms(1,2) by (simp add: tls_out_def)
  have at: "tls_at fd tr tr1" "tls_sent tr1 = tls_sent tr" "lr_epoll tr1 = lr_epoll tr"
    using assms(3) tls_at_update by simp_all
  have at2: "tls_at fd tr tr2" using assms(4) at(1) tls_at_trans by (auto simp: tls_written_def)
  show "tls_flushed fd tr tr2" if nb: "\<not> b"
  proof (cases "map_of (lr_conns tr2) fd")
    case None
    with assms(4) at(2) have "map_of (lr_epoll tr2) fd = None" "prefix (tls_sent tr2 fd) (tls_sent tr fd @ ?rest)"
      by (simp_all add: tls_written_def Let_def)
    from this(1) prefix_prefix[OF this(2), of "unsent q"] None at2 out show ?thesis
      by (simp add: tls_flushed_def)
  next
    case (Some c)
    with assms(4) nb at(2,3) obtain pkt' where "tl_txQueue c = pkt' # q"
      "tls_sent tr2 fd @ drop (pk_txOffset pkt') (pk_payload pkt') = tls_sent tr fd @ ?rest"
      "map_of (lr_epoll tr) fd \<noteq> None \<longrightarrow> map_of (lr_epoll tr2) fd = Some EV_OUT"
      by (auto simp: tls_written_def Let_def)
    then have "tls_sent tr2 fd @ unsent (tl_txQueue c) = tls_sent tr fd @ the (tls_out tr fd)"
      using out by (simp flip: append_assoc)
    with Some at2 \<open>map_of (lr_epoll tr) fd \<noteq> None \<longrightarrow> _\<close> show ?thesis by (simp add: tls_flushed_def)
  qed
  show "tls_flushed fd tr tr3" if b and f: "tls_flushed fd tr2 tr3"
  proof -
    from assms(4) that(1) obtain c where c: "map_of (lr_conns tr2) fd = Some c" "tl_txQueue c = q"
      "tls_sent tr2 fd = tls_sent tr fd @ ?rest" "map_of (lr_epoll tr2) fd = map_of (lr_epoll tr) fd"
      using at by (auto simp: tls_written_def Let_def split: option.splits)
    then have "the (tls_out tr2 fd) = unsent q" by (simp add: tls_out_def)
    with f c out tls_at_trans[OF at2] show ?thesis
      by (auto simp: tls_flushed_def split: option.splits)
  qed
qed

lemma tls_flush_loop_spec:
  assumes "tls_wf tr" "map_of (lr_conns tr) fd = Some conn"
  shows "tls_wf (tls_flush_loop n fd ss tr) \<and> tls_flushed fd tr (tls_flush_loop n fd ss tr)"
  using assms
proof (induction n arbitrary: tr conn ss)
  case 0
  then show ?case by (simp add: tls_flushed_refl)
next
  case (Suc n)
  show ?case
  proof (cases "tl_txQueue conn")
    case Nil
    with Suc.prems show ?thesis by (simp add: tls_flushed_refl)
  next
    case (Cons pkt q)
    define tr1 where "tr1 = tr\<lparr>lr_conns := AList.update fd (conn\<lparr>tl_txQueue := q\<rparr>) (lr_conns tr)\<rparr>"
    have ok: "payload_ok pkt" "tls_conn_wf fd (conn\<lparr>tl_txQueue := q\<rparr>)"
      using tls_wf_conn[OF Suc.prems] Cons by (simp_all add: tls_conn_wf_def)
    have wf1: "tls_wf tr1" unfolding tr1_def by (rule tls_wf_update[OF Suc.prems(1) ok(2)])
    have m1: "map_of (lr_conns tr1) fd = Some (conn\<lparr>tl_txQueue := q\<rparr>)" by (simp add: tr1_def)
    obtain tr2 ss2 b where w: "tls_write_loop fd pkt ss tr1 = (tr2, ss2, b)" by (cases "tls_write_loop fd pkt ss tr1")
    from tls_write_loop_spec[OF wf1 m1 ok(1), of ss] w
    have w2: "tls_wf tr2" "tls_written fd (conn\<lparr>tl_txQueue := q\<rparr>) pkt tr1 tr2 b" by simp_all
    note after = tls_flushed_after_write[OF Suc.prems(2) Cons tr1_def w2(2)]
    have eq: "tls_flush_loop (Suc n) fd ss tr = (if b then tls_flush_loop n fd ss2 tr2 else tr2)"
      using Suc.prems(2) Cons w by (simp add: tr1_def)
    show ?thesis
    proof (cases b)
      case True
      with w2(2) obtain c where "map_of (lr_conns tr2) fd = Some c"
        by (auto simp: tls_written_def Let_def split: option.splits)
      from Suc.IH[OF w2(1) this] after(1) True eq show ?thesis by simp
    next
      case False
      with eq w2(1) after(2) show ?thesis by simp
    qed
  qed
qed

subsection \<open>Registration\<close>

text \<open>
  \<open>tls_reg True\<close>: the descriptor is registered for reading or for both, and for both when its
  handshake is finished and packets wait; without a connection it is not registered. \<open>tls_reg False\<close>
  leaves out the condition on waiting packets.
\<close>

definition tls_reg :: "bool \<Rightarrow> TlsReactor \<Rightarrow> fd \<Rightarrow> bool" where
  "tls_reg b tr g \<longleftrightarrow>
     (case map_of (lr_conns tr) g of
        None \<Rightarrow> g \<noteq> lr_wakeupFd tr \<longrightarrow> map_of (lr_epoll tr) g = None
      | Some c \<Rightarrow> map_of (lr_epoll tr) g \<in> {Some EV_IN, Some EV_OUT} \<and>
          (b \<and> tl_init c \<and> tl_txQueue c \<noteq> [] \<longrightarrow> map_of (lr_epoll tr) g = Some EV_OUT))"

definition tls_inv :: "TlsReactor \<Rightarrow> bool" where
  "tls_inv tr \<longleftrightarrow> tls_wf tr \<and> (\<forall>g. tls_reg True tr g) \<and>
     list_all (\<lambda>item. hi_fd item \<noteq> lr_wakeupFd tr) (lq_q (lr_handoverQueue tr))"

lemma tls_reg_at: "tls_at fd tr tr' \<Longrightarrow> g \<noteq> fd \<Longrightarrow> tls_reg b tr' g = tls_reg b tr g"
  by (simp add: tls_at_def tls_reg_def split: option.split)

lemma tls_reg_simps [simp]:
  "tls_reg b (tr\<lparr>lr_port := p\<rparr>) = tls_reg b tr" "tls_reg b (tr\<lparr>lr_closed := c\<rparr>) = tls_reg b tr"
  "tls_reg b (tr\<lparr>lr_handoverQueue := h\<rparr>) = tls_reg b tr"
  by (simp_all add: tls_reg_def fun_eq_iff split: option.split)

lemma tls_inv_at:
  assumes "tls_inv tr" "tls_at fd tr tr'" "tls_wf tr'" "tls_reg True tr' fd"
  shows "tls_inv tr'"
proof -
  have "tls_reg True tr' g" for g
    using assms(1,4) tls_reg_at[OF assms(2), of g True] by (cases "g = fd") (simp_all add: tls_inv_def)
  with assms show ?thesis by (simp add: tls_inv_def tls_at_def)
qed

lemma tls_reg_close: "tls_reg b (tls_closeConnection fd tr) fd"
  by (simp add: tls_reg_def tls_closeConnection_def epoll_del_def)

lemma tls_inv_close: "tls_inv tr \<Longrightarrow> tls_inv (tls_closeConnection fd tr)"
  by (rule tls_inv_at[OF _ tls_at_close _ tls_reg_close]) (simp_all add: tls_inv_def tls_wf_close)

lemma ev_out: "EV_IN OR EPOLLOUT = EV_OUT"
  by (simp add: or.assoc or.commute or.left_commute)

lemma tls_updateInterest_spec:
  assumes "tls_reg False tr fd"
  shows "tls_wf (tls_updateInterest fd tr) = tls_wf tr" "tls_at fd tr (tls_updateInterest fd tr)"
    "tls_reg True (tls_updateInterest fd tr) fd"
    "lr_conns (tls_updateInterest fd tr) = lr_conns tr" "lr_sent (tls_updateInterest fd tr) = lr_sent tr"
    "map_of (lr_conns tr) fd = Some c \<Longrightarrow> tl_txQueue c \<noteq> [] \<Longrightarrow>
      map_of (lr_epoll (tls_updateInterest fd tr)) fd = Some EV_OUT"
  using assms
  by (auto simp: tls_updateInterest_def isHandshakeDone_def tls_reg_def ev_out tls_wf_epoll tls_at_mod
      map_of_epoll_mod Let_def split: option.splits)

subsection \<open>The handlers\<close>

text \<open>What a handler for one connection establishes.\<close>

definition tls_handled :: "fd \<Rightarrow> TlsReactor \<Rightarrow> TlsReactor \<Rightarrow> bool" where
  "tls_handled fd tr tr' \<longleftrightarrow> tls_wf tr' \<and> tls_at fd tr tr' \<and> tls_reg True tr' fd \<and>
     bytes_moved (tls_out tr) (tls_sent tr) (tls_out tr') (tls_sent tr')"

lemma tls_handled_refl: "tls_wf tr \<Longrightarrow> tls_reg True tr fd \<Longrightarrow> tls_handled fd tr tr"
  by (simp add: tls_handled_def bytes_moved_refl)

lemma tls_handled_trans: "tls_handled fd s t \<Longrightarrow> tls_handled fd t u \<Longrightarrow> tls_handled fd s u"
  by (auto simp: tls_handled_def intro: tls_at_trans bytes_moved_trans)

lemma tls_handled_inv: "tls_inv tr \<Longrightarrow> tls_handled fd tr tr' \<Longrightarrow> tls_inv tr'"
  using tls_inv_at by (auto simp: tls_handled_def)

lemma tls_handled_close:
  assumes "tls_wf tr" "map_of (lr_conns tr) fd = Some conn"
  shows "tls_handled fd tr (tls_closeConnection fd tr)"
proof -
  have "bytes_moved (tls_out tr) (tls_sent tr) (tls_out (tls_closeConnection fd tr)) (tls_sent (tls_closeConnection fd tr))"
    by (rule tls_at_moved[OF tls_at_close, of _ _ "unsent (tl_txQueue conn)"])
      (simp_all add: assms(2) tls_out_def tls_closeConnection_def)
  with assms(1) show ?thesis by (simp add: tls_handled_def tls_wf_close tls_at_close tls_reg_close)
qed

lemma tls_out_epoll [simp]: "tls_out (tr\<lparr>lr_epoll := e\<rparr>) = tls_out tr"
  by (simp add: tls_out_def fun_eq_iff)

lemma tls_handled_mod:
  assumes "tls_wf tr" "map_of (lr_conns tr) fd = Some conn" "tls_reg True tr fd"
    "ev = EV_OUT \<or> ev = EV_IN \<and> \<not> tl_init conn"
  shows "tls_handled fd tr (tls_mod fd ev tr)"
  using assms bytes_moved_refl
  by (auto simp: tls_handled_def tls_wf_epoll tls_at_mod tls_reg_def map_of_epoll_mod)

lemma tls_handled_delivered:
  assumes "tls_delivered fd tr tr' fs" "tls_wf tr'" "tls_reg True tr fd"
  shows "tls_handled fd tr tr'"
proof -
  have "tls_out tr' = tls_out tr" "tls_sent tr' = tls_sent tr"
    using assms(1) by (auto simp: tls_delivered_def tls_out_def fun_eq_iff)
  moreover have "tls_reg True tr' fd" using assms(1,3) by (auto simp: tls_delivered_def tls_reg_def)
  ultimately show ?thesis
    using assms(1,2) by (simp add: tls_handled_def tls_at_delivered bytes_moved_refl)
qed

lemma tls_receive_handled:
  assumes "tls_wf tr" "tls_reg True tr fd"
  shows "\<exists>tr'. tls_receive fd rs tr = Some tr' \<and> tls_handled fd tr tr'"
proof (cases "map_of (lr_conns tr) fd")
  case None
  with assms show ?thesis by (simp add: tls_receive_def tls_receive_loop.simps[of fd tr] tls_handled_refl)
next
  case (Some conn)
  then have "tls_ring fd tr = Some (tl_rxRing conn)" by (simp add: tls_ring_def)
  from tls_rx.loop_total[OF assms(1) this, of rs] obtain t u fs rs' where
    t: "tls_receive_loop fd tr rs = Some (u, rs')" "tls_wf t" "tls_delivered fd tr t fs" "tls_ends fd t u" by blast
  have h: "tls_handled fd tr t" by (rule tls_handled_delivered[OF t(3,2) assms(2)])
  obtain c where c: "map_of (lr_conns t) fd = Some c" using t(3) by (auto simp: tls_delivered_def)
  have "tls_handled fd t u"
    using t(4) tls_handled_close[OF t(2) c] tls_handled_mod[OF t(2) c, of EV_OUT] h
      tls_handled_refl[OF t(2)] by (auto simp: tls_ends_def tls_handled_def)
  with t(1) tls_handled_trans[OF h] show ?thesis by (simp add: tls_receive_def)
qed

lemma tls_updateInterest_handled:
  assumes "tls_wf tr" "tls_reg False tr fd"
  shows "tls_handled fd tr (tls_updateInterest fd tr)"
proof -
  note u = tls_updateInterest_spec[OF assms(2)]
  have "tls_out (tls_updateInterest fd tr) = tls_out tr" "tls_sent (tls_updateInterest fd tr) = tls_sent tr"
    by (simp_all add: tls_out_def tls_sent_def fun_eq_iff u(4,5))
  with u(1-3) assms(1) show ?thesis by (simp add: tls_handled_def bytes_moved_refl)
qed

lemma tls_reg_weaken: "tls_reg True tr fd \<Longrightarrow> tls_reg b tr fd"
  by (auto simp: tls_reg_def split: option.splits)

lemma driveHandshake_handled:
  assumes "tls_wf tr" "tls_reg True tr fd" "map_of (lr_conns tr) fd = Some conn" "\<not> tl_init conn"
  shows "\<exists>tr' b. driveHandshake fd ret rs tr = Some (tr', b) \<and> tls_handled fd tr tr'"
proof (cases "TlsHandshake_drive ret")
  case Done
  define tr1 where "tr1 = tr\<lparr>lr_conns := AList.update fd (conn\<lparr>tl_init := True\<rparr>) (lr_conns tr)\<rparr>"
  have "tls_conn_wf fd (conn\<lparr>tl_init := True\<rparr>)" using tls_wf_conn[OF assms(1,3)] by (simp add: tls_conn_wf_def)
  then have wf1: "tls_wf tr1" unfolding tr1_def by (rule tls_wf_update[OF assms(1)])
  have r1: "tls_reg False tr1 fd" using assms(2,3) by (simp add: tls_reg_def tr1_def)
  have o1: "tls_out tr1 = tls_out tr" "tls_sent tr1 = tls_sent tr" "tls_at fd tr tr1"
    using assms(3) tls_at_update by (simp_all add: tr1_def tls_out_def fun_eq_iff)
  have h1: "tls_handled fd tr (tls_updateInterest fd tr1)"
    using tls_updateInterest_handled[OF wf1 r1] o1 tls_at_trans[OF o1(3)] by (simp add: tls_handled_def)
  then have "tls_wf (tls_updateInterest fd tr1)" "tls_reg True (tls_updateInterest fd tr1) fd"
    by (simp_all add: tls_handled_def)
  from tls_receive_handled[OF this, of rs] obtain t where
    "tls_receive fd rs (tls_updateInterest fd tr1) = Some t" "tls_handled fd (tls_updateInterest fd tr1) t" by blast
  with Done assms(3) tls_handled_trans[OF h1] show ?thesis by (auto simp: driveHandshake_def tr1_def)
next
  case WantRead
  with assms tls_handled_mod[OF assms(1,3,2), of EV_IN] show ?thesis by (auto simp: driveHandshake_def)
next
  case WantWrite
  with assms tls_handled_mod[OF assms(1,3,2), of EV_OUT] show ?thesis by (auto simp: driveHandshake_def)
next
  case Fail
  with assms tls_handled_close[OF assms(1,3)] show ?thesis by (auto simp: driveHandshake_def)
qed

lemma onReadable_handled:
  assumes "tls_wf tr" "tls_reg True tr fd"
  shows "\<exists>tr'. onReadable fd ret rs tr = Some tr' \<and> tls_handled fd tr tr'"
proof (cases "map_of (lr_conns tr) fd")
  case None
  with assms show ?thesis by (simp add: onReadable_def tls_handled_refl)
next
  case (Some conn)
  show ?thesis
  proof (cases "tl_init conn")
    case True
    with Some tls_receive_handled[OF assms, of rs] show ?thesis by (simp add: onReadable_def isHandshakeDone_def)
  next
    case False
    with Some driveHandshake_handled[OF assms Some, of ret rs] show ?thesis
      by (auto simp: onReadable_def isHandshakeDone_def)
  qed
qed

text \<open>A flush of a connection that is registered for writability, if anything waits.\<close>

lemma flushTx_handled:
  assumes "tls_wf tr" "tls_reg False tr fd"
    "\<And>conn. map_of (lr_conns tr) fd = Some conn \<Longrightarrow> tl_txQueue conn \<noteq> [] \<Longrightarrow> map_of (lr_epoll tr) fd = Some EV_OUT"
  shows "tls_handled fd tr (flushTx fd n ss tr)"
proof (cases "map_of (lr_conns tr) fd")
  case None
  with assms tls_handled_refl show ?thesis by (simp add: flushTx_def tls_reg_def)
next
  case (Some conn)
  let ?t = "tls_flush_loop n fd ss tr"
  have f: "tls_wf ?t" "tls_flushed fd tr ?t" using tls_flush_loop_spec[OF assms(1) Some] by auto
  have "bytes_moved (tls_out tr) (tls_sent tr) (tls_out ?t) (tls_sent ?t)"
    by (rule tls_at_moved[of fd _ _ "unsent (tl_txQueue conn)"])
      (use f(2) Some in \<open>auto simp: tls_flushed_def tls_out_def split: option.splits\<close>)
  moreover have "tls_reg True ?t fd"
  proof (cases "tl_txQueue conn = []")
    case True
    then have "?t = tr" using Some by (cases n) simp_all
    with assms(2) Some True show ?thesis by (simp add: tls_reg_def)
  next
    case False
    with assms(3) Some f(2) show ?thesis by (auto simp: tls_flushed_def tls_reg_def split: option.splits)
  qed
  ultimately show ?thesis using f Some by (simp add: tls_handled_def tls_flushed_def flushTx_def)
qed

lemma onWritable_handled:
  assumes "tls_wf tr" "tls_reg True tr fd"
  shows "\<exists>tr'. onWritable fd ret rs ss tr = Some tr' \<and> tls_handled fd tr tr'"
proof (cases "map_of (lr_conns tr) fd")
  case None
  with assms show ?thesis by (simp add: onWritable_def tls_handled_refl)
next
  case (Some conn)
  show ?thesis
  proof (cases "tl_init conn")
    case True
    have f: "tls_handled fd tr (flushTx fd 256 ss tr)"
      by (rule flushTx_handled[OF assms(1) tls_reg_weaken[OF assms(2)]])
        (use assms(2) Some True in \<open>auto simp: tls_reg_def\<close>)
    then have "tls_handled fd (flushTx fd 256 ss tr) (tls_updateInterest fd (flushTx fd 256 ss tr))"
      by (intro tls_updateInterest_handled) (simp_all add: tls_handled_def tls_reg_weaken)
    with f Some True show ?thesis using tls_handled_trans by (auto simp: onWritable_def isHandshakeDone_def)
  next
    case False
    with Some driveHandshake_handled[OF assms Some, of ret rs] show ?thesis
      by (auto simp: onWritable_def isHandshakeDone_def)
  qed
qed

subsection \<open>The transmit queue\<close>

lemma tls_queue_packets:
  assumes "tls_wf tr" "list_all payload_ok ps"
  shows "\<exists>m d'. fold tls_queue_packet ps (tr, d) = (tr\<lparr>lr_conns := m\<rparr>, d') \<and> tls_wf (tr\<lparr>lr_conns := m\<rparr>) \<and>
    set d \<subseteq> set d' \<and>
    (\<forall>g. map_of m g = map_option (\<lambda>c. c\<lparr>tl_txQueue := tl_txQueue c @ filter (\<lambda>p. pk_fd p = g) ps\<rparr>) (map_of (lr_conns tr) g)) \<and>
    (\<forall>g. g \<notin> set d' \<longrightarrow> filter (\<lambda>p. pk_fd p = g) ps = [] \<or> map_of (lr_conns tr) g = None)"
  using assms
proof (induction ps arbitrary: tr d)
  case Nil
  then show ?case by (intro exI[of _ "lr_conns tr"] exI[of _ d]) (simp add: option.map_ident)
next
  case (Cons p ps)
  show ?case
  proof (cases "map_of (lr_conns tr) (pk_fd p)")
    case None
    then have eq: "fold tls_queue_packet (p # ps) (tr, d) = fold tls_queue_packet ps (tr, d)"
      by (simp add: tls_queue_packet_def)
    from Cons.IH[OF Cons.prems(1), of d] Cons.prems(2) obtain m d' where
      "fold tls_queue_packet ps (tr, d) = (tr\<lparr>lr_conns := m\<rparr>, d')" "tls_wf (tr\<lparr>lr_conns := m\<rparr>)" "set d \<subseteq> set d'"
      "\<And>g. map_of m g = map_option (\<lambda>c. c\<lparr>tl_txQueue := tl_txQueue c @ filter (\<lambda>p. pk_fd p = g) ps\<rparr>) (map_of (lr_conns tr) g)"
      "\<And>g. g \<notin> set d' \<Longrightarrow> filter (\<lambda>p. pk_fd p = g) ps = [] \<or> map_of (lr_conns tr) g = None" by auto
    with None eq show ?thesis by (intro exI[of _ m] exI[of _ d']) auto
  next
    case (Some conn)
    let ?c = "conn\<lparr>tl_txQueue := tl_txQueue conn @ [p]\<rparr>"
    define tr1 where "tr1 = tr\<lparr>lr_conns := AList.update (pk_fd p) ?c (lr_conns tr)\<rparr>"
    have "tls_conn_wf (pk_fd p) ?c" using tls_wf_conn[OF Cons.prems(1) Some] Cons.prems(2) by (simp add: tls_conn_wf_def)
    then have wf1: "tls_wf tr1" unfolding tr1_def by (rule tls_wf_update[OF Cons.prems(1)])
    have eq: "fold tls_queue_packet (p # ps) (tr, d) = fold tls_queue_packet ps (tr1, List.insert (pk_fd p) d)"
      using Some by (simp add: tls_queue_packet_def tr1_def)
    have m1: "map_of (lr_conns tr1) = (map_of (lr_conns tr))(pk_fd p \<mapsto> ?c)" by (simp add: tr1_def)
    from Cons.IH[OF wf1, of "List.insert (pk_fd p) d"] Cons.prems(2) obtain m d' where i:
      "fold tls_queue_packet ps (tr1, List.insert (pk_fd p) d) = (tr\<lparr>lr_conns := m\<rparr>, d')"
      "tls_wf (tr\<lparr>lr_conns := m\<rparr>)" "set (List.insert (pk_fd p) d) \<subseteq> set d'"
      "\<And>g. map_of m g = map_option (\<lambda>c. c\<lparr>tl_txQueue := tl_txQueue c @ filter (\<lambda>p. pk_fd p = g) ps\<rparr>) (map_of (lr_conns tr1) g)"
      "\<And>g. g \<notin> set d' \<Longrightarrow> filter (\<lambda>p. pk_fd p = g) ps = [] \<or> map_of (lr_conns tr1) g = None"
      by (auto simp: tr1_def)
    have "map_of m g = map_option (\<lambda>c. c\<lparr>tl_txQueue := tl_txQueue c @ filter (\<lambda>p. pk_fd p = g) (p # ps)\<rparr>) (map_of (lr_conns tr) g)" for g
      using i(4)[of g] m1 Some by (cases "g = pk_fd p") simp_all
    moreover have "filter (\<lambda>p. pk_fd p = g) (p # ps) = [] \<or> map_of (lr_conns tr) g = None" if "g \<notin> set d'" for g
      using i(3) i(5)[of g] that m1 by (cases "g = pk_fd p") auto
    ultimately show ?thesis using eq i(1-3) by (intro exI[of _ m] exI[of _ d']) auto
  qed
qed

lemma tls_flush_dirty:
  assumes "tls_wf tr" "\<And>g. tls_reg (g \<notin> set ds) tr g"
    and tr': "tr' = fold (\<lambda>fd tr. flushTx fd 256 (writes fd) (tls_updateInterest fd tr)) ds tr"
  shows "tls_wf tr' \<and> (\<forall>g. tls_reg True tr' g) \<and> lr_wakeupFd tr' = lr_wakeupFd tr \<and>
    lr_handoverQueue tr' = lr_handoverQueue tr \<and> lr_port tr' = lr_port tr \<and>
    bytes_moved (tls_out tr) (tls_sent tr) (tls_out tr') (tls_sent tr')"
  using assms(1,2) unfolding tr'
proof (induction ds arbitrary: tr)
  case Nil
  then show ?case by (simp add: bytes_moved_refl)
next
  case (Cons d ds)
  let ?u = "tls_updateInterest d tr"
  let ?t = "flushTx d 256 (writes d) ?u"
  have r: "tls_reg False tr d" using Cons.prems(2)[of d] by simp
  note u = tls_updateInterest_spec[OF r]
  have hu: "tls_handled d tr ?u" by (rule tls_updateInterest_handled[OF Cons.prems(1) r])
  have "tls_handled d ?u ?t"
    by (rule flushTx_handled) (use hu u(4,6) in \<open>simp_all add: tls_handled_def tls_reg_weaken\<close>)
  with hu have h: "tls_handled d tr ?t" by (rule tls_handled_trans)
  have "tls_reg (g \<notin> set ds) ?t g" for g
    using h Cons.prems(2)[of g] tls_reg_at[of d tr ?t g] tls_reg_weaken
    by (cases "g = d") (auto simp: tls_handled_def)
  from Cons.IH[OF _ this] h show ?case
    by (auto simp: tls_handled_def tls_at_def intro: bytes_moved_trans)
qed

text \<open>A pass over the transmit queue: sent bytes and waiting packets account for every packet.\<close>

definition tls_sends :: "Packet list \<Rightarrow> TlsReactor \<Rightarrow> TlsReactor \<Rightarrow> bool" where
  "tls_sends ps tr tr' \<longleftrightarrow>
     bytes_moved (\<lambda>g. map_option (\<lambda>out. out @ unsent (filter (\<lambda>p. pk_fd p = g) ps)) (tls_out tr g))
       (tls_sent tr) (tls_out tr') (tls_sent tr')"

lemma tls_processTxQueue_spec:
  assumes "tls_inv tr"
  shows "\<exists>tr'. tls_processTxQueue writes tr = Some tr' \<and> tls_inv tr' \<and> lr_wakeupFd tr' = lr_wakeupFd tr \<and>
    tls_sends (port_list (lr_port tr)) tr tr'"
proof -
  have wf: "tls_wf tr" using assms by (simp add: tls_inv_def)
  let ?ps = "port_list (lr_port tr)"
  from mpsc.deqAll_law[of "tp_queue (lr_port tr)"] wf obtain q where
    q: "mpsc_items (tp_queue (lr_port tr)) = Some (q, ?ps)" "mpsc_wf q" "mpsc_list q = []"
    by (auto simp: tls_wf_def port_wf_def port_list_def)
  define t0 where "t0 = tr\<lparr>lr_port := (lr_port tr)\<lparr>tp_queue := q\<rparr>\<rparr>"
  have ok: "list_all payload_ok ?ps" using wf by (simp add: tls_wf_def)
  have t0: "tls_wf t0" "tls_out t0 = tls_out tr" "tls_sent t0 = tls_sent tr" "lr_conns t0 = lr_conns tr"
    using wf q(2,3) by (simp_all add: t0_def tls_wf_def port_wf_def port_list_def tls_out_def fun_eq_iff)
  have reg: "tls_reg True t0 g" for g using assms by (simp add: tls_inv_def t0_def)
  from tls_queue_packets[OF t0(1) ok, of "[]"] obtain m d where b:
    "fold tls_queue_packet ?ps (t0, []) = (t0\<lparr>lr_conns := m\<rparr>, d)" "tls_wf (t0\<lparr>lr_conns := m\<rparr>)"
    "\<And>g. map_of m g = map_option (\<lambda>c. c\<lparr>tl_txQueue := tl_txQueue c @ filter (\<lambda>p. pk_fd p = g) ?ps\<rparr>) (map_of (lr_conns t0) g)"
    "\<And>g. g \<notin> set d \<Longrightarrow> filter (\<lambda>p. pk_fd p = g) ?ps = [] \<or> map_of (lr_conns t0) g = None" by blast
  have "tls_reg (g \<notin> set d) (t0\<lparr>lr_conns := m\<rparr>) g" for g
    using reg[of g] b(3,4)[of g] by (auto simp: tls_reg_def split: option.splits)
  note f = tls_flush_dirty[OF b(2) this refl, of writes]
  have out: "tls_out (t0\<lparr>lr_conns := m\<rparr>) = (\<lambda>g. map_option (\<lambda>out. out @ unsent (filter (\<lambda>p. pk_fd p = g) ?ps)) (tls_out tr g))"
    by (simp add: tls_out_def b(3) t0(4) option.map_comp comp_def fun_eq_iff)
  let ?t = "fold (\<lambda>fd tr. flushTx fd 256 (writes fd) (tls_updateInterest fd tr)) d (t0\<lparr>lr_conns := m\<rparr>)"
  have fin: "tls_inv ?t" "lr_wakeupFd ?t = lr_wakeupFd tr" "tls_sends ?ps tr ?t"
    using f assms out t0(3) by (simp_all add: tls_inv_def t0_def tls_sends_def)
  show ?thesis
  proof (cases "?ps = []")
    case True
    then have "tls_processTxQueue writes tr = Some t0"
      using q(1) by (simp add: tls_processTxQueue_def t0_def)
    moreover have "tls_inv t0" using t0(1) reg assms by (simp add: tls_inv_def t0_def)
    moreover have "tls_sends ?ps tr t0"
      using True t0(2,3) bytes_moved_refl[of "tls_out tr"] by (simp add: tls_sends_def option.map_ident)
    ultimately show ?thesis by (simp add: t0_def)
  next
    case False
    then have "tls_processTxQueue writes tr = Some ?t"
      using q(1) b(1) by (simp add: tls_processTxQueue_def t0_def)
    with fin show ?thesis by blast
  qed
qed

subsection \<open>Handover and the event loop\<close>

lemma lq_drained: "lq_dequeueAll q = (q\<lparr>lq_q := []\<rparr>, lq_q q)"
proof -
  have "lq_dequeue_loop xs out = ([], out @ xs)" for xs out :: "'a list"
    by (induction xs arbitrary: out) simp_all
  then show ?thesis by (cases q) (simp add: lq_dequeueAll_def)
qed

lemma tls_open_inv:
  assumes "tls_inv tr" "hi_fd item \<noteq> lr_wakeupFd tr"
  shows "tls_inv (tls_open sslNew item tr) \<and> lr_wakeupFd (tls_open sslNew item tr) = lr_wakeupFd tr"
proof (cases "sslNew (hi_fd item)")
  case False
  with assms show ?thesis by (simp add: tls_open_def tls_inv_def tls_wf_def)
next
  case True
  let ?fd = "hi_fd item" and ?t = "tls_open sslNew item tr"
  have t: "?t = tr\<lparr>lr_conns := emplace ?fd (mk_TlsConnection ?fd (hi_connInfo item) TLS_MAX_RX_BUFFER_SIZE) (lr_conns tr),
      lr_epoll := epoll_add ?fd EV_IN (lr_epoll tr)\<rparr>" using True by (simp add: tls_open_def Let_def)
  have "tls_wf ?t" using assms(1) tls_conn_wf_new unfolding t tls_inv_def tls_wf_def
    by (auto split: if_splits)
  moreover have "tls_at ?fd tr ?t" by (simp add: t tls_at_def tls_sent_def epoll_add_def)
  moreover have "tls_reg True tr ?fd" using assms(1) by (simp add: tls_inv_def)
  then have "tls_reg True ?t ?fd"
    using assms(2) by (auto simp: t tls_reg_def epoll_add_def mk_TlsConnection_def split: option.splits)
  ultimately show ?thesis using tls_inv_at[OF assms(1)] by (simp add: t)
qed

lemma processHandover_inv:
  assumes "tls_inv tr"
  shows "tls_inv (processHandover sslNew tr) \<and> lr_wakeupFd (processHandover sslNew tr) = lr_wakeupFd tr \<and>
    lr_port (processHandover sslNew tr) = lr_port tr"
proof -
  let ?q = "(lr_handoverQueue tr)\<lparr>lq_q := []\<rparr>"
  have items: "list_all (\<lambda>item. hi_fd item \<noteq> lr_wakeupFd tr) (lq_q (lr_handoverQueue tr))"
    using assms by (simp add: tls_inv_def)
  have "tls_inv t \<Longrightarrow> list_all (\<lambda>item. hi_fd item \<noteq> lr_wakeupFd t) xs \<Longrightarrow>
      tls_inv (fold (tls_open sslNew) xs t) \<and> lr_wakeupFd (fold (tls_open sslNew) xs t) = lr_wakeupFd t" for xs t
  proof (induction xs arbitrary: t)
    case (Cons x xs)
    with tls_open_inv[of t x sslNew] Cons.IH[of "tls_open sslNew x t"] show ?case by simp
  qed simp
  moreover have "lr_port (fold (tls_open sslNew) xs t) = lr_port t" for xs t
    by (induction xs arbitrary: t) (simp_all add: tls_open_def Let_def)
  moreover have "tls_inv (tr\<lparr>lr_handoverQueue := ?q\<rparr>)" using assms by (simp add: tls_inv_def tls_wf_def)
  ultimately show ?thesis using items by (simp add: processHandover_def lq_drained)
qed

text \<open>
  Handed-over descriptors are not the reactor's own, and a queued packet's length is a \<open>size_t\<close>.
\<close>

fun tls_op_ok :: "fd \<Rightarrow> tls_op \<Rightarrow> bool" where
  "tls_op_ok w (TlsEvent io fd ev) = True"
| "tls_op_ok w (TlsHandover nonBlocking fd connInfo) = (fd \<noteq> w)"
| "tls_op_ok w (TlsTx pkt) = pred_option payload_ok pkt"

lemma tls_inv_event:
  assumes "tls_inv tr"
  shows "\<exists>tr'. tls_handleEvent io fd ev tr = Some tr' \<and> tls_inv tr' \<and> lr_wakeupFd tr' = lr_wakeupFd tr"
proof -
  let ?w = "tr\<lparr>lr_port := (lr_port tr)\<lparr>tp_wakeups := 0\<rparr>\<rparr>"
  have w: "tls_inv ?w" "lr_wakeupFd ?w = lr_wakeupFd tr"
    using assms by (simp_all add: tls_inv_def tls_wf_def port_wf_def port_list_def)
  have wake: "\<exists>t. processWakeup io ?w = Some t \<and> tls_inv t \<and> lr_wakeupFd t = lr_wakeupFd tr"
    using processHandover_inv[OF w(1), of "ti_new io"]
      tls_processTxQueue_spec[of "processHandover (ti_new io) ?w" "ti_writes io"] w(2)
    by (auto simp: processWakeup_def)
  have in_: "\<exists>t. onReadable fd ret rs s = Some t \<and> tls_inv t \<and> lr_wakeupFd t = lr_wakeupFd s" if "tls_inv s" for s ret rs
    using onReadable_handled[of s fd ret rs] that tls_handled_inv[OF that, of fd]
    by (auto simp: tls_inv_def tls_handled_def tls_at_def)
  have out: "\<exists>t. onWritable fd ret rs ss s = Some t \<and> tls_inv t \<and> lr_wakeupFd t = lr_wakeupFd s" if "tls_inv s" for s ret rs ss
    using onWritable_handled[of s fd ret rs ss] that tls_handled_inv[OF that, of fd]
    by (auto simp: tls_inv_def tls_handled_def tls_at_def)
  obtain t where t: "onReadable fd (ti_acceptIn io) (ti_readsIn io) tr = Some t" "tls_inv t" "lr_wakeupFd t = lr_wakeupFd tr"
    using in_[OF assms] by blast
  show ?thesis
    using wake tls_inv_close[OF assms, of fd] t out[OF t(2), of "ti_acceptOut io" "ti_readsOut io" "ti_writes io fd"]
      out[OF assms, of "ti_acceptOut io" "ti_readsOut io" "ti_writes io fd"] assms
    by (auto simp: tls_handleEvent_def tls_closeConnection_def)
qed

lemma tls_inv_step:
  assumes "tls_inv tr" "tls_op_ok (lr_wakeupFd tr) x"
  shows "\<exists>tr'. tls_step x tr = Some tr' \<and> tls_inv tr' \<and> lr_wakeupFd tr' = lr_wakeupFd tr"
proof (cases x)
  case (TlsEvent io fd ev)
  with tls_inv_event[OF assms(1)] show ?thesis by simp
next
  case (TlsHandover nb fd ci)
  with assms show ?thesis
    by (auto simp: tls_handover_def tls_inv_def tls_wf_def lq_enqueue_def port_wf_def port_list_def)
next
  case (TlsTx pkt)
  have "port_wf (lr_port tr)" using assms(1) by (simp add: tls_inv_def tls_wf_def)
  from enqueueTx_wf[OF this, of pkt] obtain port where p: "TlsReactor_enqueueTx (lr_port tr) pkt = Some port"
    "port_wf port" "set (port_list port) \<subseteq> set (port_list (lr_port tr)) \<union> set_option pkt"
    by (auto simp: TlsReactor_enqueueTx_def TcpReactor_enqueueTx_def)
  have "list_all payload_ok (port_list port)"
    using p(3) assms TlsTx by (auto simp: tls_inv_def tls_wf_def list_all_iff)
  with p(1,2) assms(1) TlsTx show ?thesis by (auto simp: tls_inv_def tls_wf_def)
qed

lemma tls_inv_run:
  assumes "tls_inv tr" "list_all (tls_op_ok (lr_wakeupFd tr)) ops"
  shows "\<exists>tr'. tls_run ops tr = Some tr' \<and> tls_inv tr'"
proof -
  have "\<exists>t. ofold tls_step ops tr = Some t \<and> (tls_inv t \<and> lr_wakeupFd t = lr_wakeupFd tr)"
  proof (rule ofold_inv, goal_cases)
    case (2 x s)
    then have "tls_op_ok (lr_wakeupFd s) x" using assms(2) by (simp add: list_all_iff)
    with tls_inv_step[of s x] 2(2) show ?case by simp
  qed (simp add: assms(1))
  then show ?thesis by (auto simp: tls_run_def)
qed

lemma tls_inv_start:
  assumes "mk_TlsReactor ws = Some tr0" "workers_wf ws"
  shows "tls_inv (tr0\<lparr>lr_wakeupFd := w, lr_epoll := epoll_add w EPOLLIN (lr_epoll tr0)\<rparr>)"
proof -
  obtain q :: "Packet MpscQueue" where q: "mpsc_new 65536 = Some q" "mpsc_wf q" "mpsc_list q = []"
    by (rule mpsc_new_wf[of 65536]) (simp_all add: pow2_def)
  with assms show ?thesis
    by (auto simp: mk_TlsReactor_def tls_inv_def tls_wf_def port_wf_def port_list_def tls_reg_def
        epoll_add_def emplace_def lq_new_def)
qed

subsection \<open>Properties\<close>

text \<open>
  C25. The event loop of the TLS server never fails, whatever events, handed-over connections and
  queued packets come and whatever OpenSSL answers: every handler returns, rings stay inside their
  buffers, offsets inside their payloads. And no reply is stuck: whenever a connection's handshake
  is finished and packets wait in its queue, epoll watches it for writability.
\<close>

theorem tls_server_invariant:
  assumes "mk_TlsReactor ws = Some tr0" "workers_wf ws"
    and "tr = tr0\<lparr>lr_wakeupFd := w, lr_epoll := epoll_add w EPOLLIN (lr_epoll tr0)\<rparr>"
    and "list_all (tls_op_ok w) ops"
  shows "\<exists>tr'. tls_run ops tr = Some tr' \<and> tls_wf tr' \<and>
    (\<forall>fd conn. map_of (lr_conns tr') fd = Some conn \<and> tl_init conn \<and> tl_txQueue conn \<noteq> [] \<longrightarrow>
      map_of (lr_epoll tr') fd = Some (EPOLLIN OR EPOLLOUT OR EPOLLRDHUP))"
proof -
  have "tls_inv tr" unfolding assms(3) by (rule tls_inv_start[OF assms(1,2)])
  moreover have "lr_wakeupFd tr = w" by (simp add: assms(3))
  ultimately obtain tr' where t: "tls_run ops tr = Some tr'" "tls_inv tr'"
    using tls_inv_run[of tr ops] assms(4) by auto
  have "map_of (lr_epoll tr') fd = Some EV_OUT"
    if "map_of (lr_conns tr') fd = Some conn" "tl_init conn" "tl_txQueue conn \<noteq> []" for fd conn
    using t(2) that spec[of "tls_reg True tr'" fd] by (auto simp: tls_inv_def tls_reg_def)
  with t show ?thesis by (auto simp: tls_inv_def)
qed

definition demo_tls_io :: tls_io where
  "demo_tls_io = \<lparr>ti_new = \<lambda>_. True, ti_acceptIn = None, ti_readsIn = [RBytes [1, 2]], ti_acceptOut = None,
     ti_readsOut = [], ti_writes = \<lambda>_. [SSent 2]\<rparr>"

lemma demo_tls_start:
  obtains tr0 where "mk_TlsReactor [demo_worker] = Some tr0" "workers_wf [demo_worker]"
    "lr_conns tr0 = []" "lr_workers tr0 = [demo_worker]" "lr_epoll tr0 = []" "lr_handoverQueue tr0 = lq_new 4096"
proof -
  obtain q :: "Packet MpscQueue" where "mpsc_new 65536 = Some q" "mpsc_wf q"
    by (rule mpsc_new_wf[of 65536]) (simp_all add: pow2_def)
  with that demo_worker_wf(1) show ?thesis by (simp add: mk_TlsReactor_def workers_wf_def)
qed

theorem tls_server_invariant_witness:
  "\<exists>tr0 tr'. mk_TlsReactor [demo_worker] = Some tr0 \<and>
    tls_run [TlsHandover True 5 (demo_peer, demo_peer), TlsTx (Some demo_reply), TlsEvent demo_tls_io 4 EPOLLIN,
      TlsEvent demo_tls_io 5 EPOLLIN] (tr0\<lparr>lr_wakeupFd := 4, lr_epoll := epoll_add 4 EPOLLIN (lr_epoll tr0)\<rparr>) =
      Some tr' \<and> tls_wf tr'"
proof -
  obtain tr0 where d: "mk_TlsReactor [demo_worker] = Some tr0" "workers_wf [demo_worker]" by (rule demo_tls_start)
  have "payload_ok demo_reply" by (simp add: payload_ok_def demo_reply_def mk_Packet_def SIZE_MOD_def)
  with d(1) tls_server_invariant[OF d refl, of 4 "[TlsHandover True 5 (demo_peer, demo_peer), TlsTx (Some demo_reply),
      TlsEvent demo_tls_io 4 EPOLLIN, TlsEvent demo_tls_io 5 EPOLLIN]"] show ?thesis by auto
qed

text \<open>
  C26. Replies leave a TLS connection whole and in order, across partial writes and blocked writes:
  after a pass over the transmit queue, the bytes that \<open>SSL_write\<close> has taken followed by those that
  still wait in the connection's queue are what they were before, followed by the payloads of the
  pass; on a connection that was closed meanwhile the peer has received a prefix.
\<close>

theorem tls_tx_exact:
  assumes "tls_inv tr" "map_of (lr_conns tr) fd = Some conn"
  defines "queued \<equiv> unsent (tl_txQueue conn @ filter (\<lambda>p. pk_fd p = fd) (port_list (lr_port tr)))"
  shows "\<exists>tr'. tls_processTxQueue writes tr = Some tr' \<and> tls_inv tr' \<and>
    (case map_of (lr_conns tr') fd of
       None \<Rightarrow> prefix (tls_sent tr' fd) (tls_sent tr fd @ queued)
     | Some conn' \<Rightarrow> tls_sent tr' fd @ unsent (tl_txQueue conn') = tls_sent tr fd @ queued)"
proof -
  from tls_processTxQueue_spec[OF assms(1), of writes] obtain tr' where t:
    "tls_processTxQueue writes tr = Some tr'" "tls_inv tr'" "tls_sends (port_list (lr_port tr)) tr tr'" by blast
  from t(3)[unfolded tls_sends_def bytes_moved_def, rule_format, of fd] assms(2) t(1,2) show ?thesis
    by (auto simp: queued_def tls_out_def split: option.splits)
qed

lemma demo_tls_conn:
  obtains tr conn where "tls_inv tr" "map_of (lr_conns tr) 5 = Some conn" "tl_txQueue conn = []"
    "rb_readable (tl_rxRing conn) = 0" "lr_workers tr = [demo_worker]" "port_list (lr_port tr) = [demo_reply]"
    "tls_sent tr 5 = []"
proof -
  obtain tr0 where d: "mk_TlsReactor [demo_worker] = Some tr0" "workers_wf [demo_worker]"
    "lr_conns tr0 = []" "lr_workers tr0 = [demo_worker]" "lr_epoll tr0 = []" by (rule demo_tls_start)
  obtain port where p: "port_wf port" "port_list port = [demo_reply]"
    using enqueueTx_cases[OF demo_port_wf(1), of demo_reply] demo_port_wf(2,3) by (metis append_Nil)
  define tr1 where "tr1 = tr0\<lparr>lr_wakeupFd := 4, lr_epoll := epoll_add 4 EPOLLIN (lr_epoll tr0)\<rparr>"
  define item :: TlsHandoverItem where "item = \<lparr>hi_fd = 5, hi_connInfo = (demo_peer, demo_peer)\<rparr>"
  have "tls_inv tr1" unfolding tr1_def by (rule tls_inv_start[OF d(1,2)])
  moreover have "hi_fd item \<noteq> lr_wakeupFd tr1" by (simp add: tr1_def item_def)
  ultimately have inv: "tls_inv (tls_open (\<lambda>_. True) item tr1)" using tls_open_inv by blast
  define tr where "tr = (tls_open (\<lambda>_. True) item tr1)\<lparr>lr_port := port, lr_sent := []\<rparr>"
  have ok: "payload_ok demo_reply" by (simp add: payload_ok_def demo_reply_def mk_Packet_def SIZE_MOD_def)
  have "tls_reg True tr = tls_reg True (tls_open (\<lambda>_. True) item tr1)"
    by (simp add: tr_def tls_reg_def fun_eq_iff split: option.split)
  then have "tls_inv tr" using inv p ok by (simp add: tls_inv_def tls_wf_def) (simp add: tr_def)
  moreover have "map_of (lr_conns tr) 5 = Some (mk_TlsConnection 5 (demo_peer, demo_peer) TLS_MAX_RX_BUFFER_SIZE)"
    using d(3) by (simp add: tr_def tr1_def tls_open_def item_def)
  moreover have "lr_workers tr = [demo_worker]" using d(4) by (simp add: tr_def tr1_def tls_open_def item_def)
  ultimately show ?thesis using that p(2)
    by (simp add: mk_TlsConnection_def rb_readable_def rb_new_def tls_sent_def tr_def)
qed

theorem tls_tx_exact_witness:
  "\<exists>tr tr'. port_list (lr_port tr) = [demo_reply] \<and> tls_processTxQueue (\<lambda>_. [SSent 2]) tr = Some tr' \<and>
    (case map_of (lr_conns tr') 5 of None \<Rightarrow> prefix (tls_sent tr' 5) [1, 2, 3]
     | Some conn' \<Rightarrow> tls_sent tr' 5 @ unsent (tl_txQueue conn') = [1, 2, 3])"
proof -
  obtain tr conn where d: "tls_inv tr" "map_of (lr_conns tr) 5 = Some conn" "tl_txQueue conn = []"
    "port_list (lr_port tr) = [demo_reply]" "tls_sent tr 5 = []" by (rule demo_tls_conn)
  have q: "[] @ unsent ([] @ filter (\<lambda>p. pk_fd p = 5) [demo_reply]) = [1, 2, 3]"
    by (simp add: demo_reply_def mk_Packet_def)
  from tls_tx_exact[OF d(1,2), of "\<lambda>_. [SSent 2]", unfolded d(3,4,5) q] d(4) show ?thesis by blast
qed

text \<open>
  C27. Messages reach the engine however OpenSSL cuts the decrypted stream: when the bytes of a list of
  messages are read on an idle TLS connection in pieces of any sizes, the connection stays open and
  the next pass of the descriptor's worker runs the router over exactly these messages, in order,
  each tagged as a TLS packet of the connection's peer.
\<close>

theorem tls_messages_reach_engine:
  assumes "tls_wf tr" "map_of (lr_conns tr) fd = Some conn" "rb_readable (tl_rxRing conn) = 0"
    and "worker_index fd (lr_workers tr) = Some i" "length msgs \<le> worker_room (lr_workers tr ! i)"
    and "\<forall>f \<in> set msgs. (16 \<le> length f \<and> length f = 16 + packet_blen f) \<and> length f \<le> 65536"
    and "[] \<notin> set pieces" "concat pieces = concat msgs"
  shows "\<exists>tr' w'. tls_receive_loop fd tr (map RBytes pieces) = Some (tr', []) \<and>
    map_of (lr_conns tr') fd \<noteq> None \<and> worker_list w' = [] \<and>
    TlsWorker_processPacket (lr_workers tr' ! i) s = map_option (Pair w') (ofold RxRouter_handlePacket
      (worker_list (lr_workers tr ! i) @ map (tls_packet fd conn) msgs) s)"
proof -
  have ring: "tls_ring fd tr = Some (tl_rxRing conn)" using assms(2) by (simp add: tls_ring_def)
  have cap: "rb_cap (tl_rxRing conn) = 65536"
    using tls_wf_conn[OF assms(1,2)] by (simp add: tls_conn_wf_def TLS_MAX_RX_BUFFER_SIZE_def)
  from tls_rx.frames_delivered[OF assms(1) ring assms(3,7,8), unfolded cap, OF assms(6)] obtain tr' where t:
    "tls_receive_loop fd tr (map RBytes pieces) = Some (tr', [])" "tls_wf tr'" "tls_ring fd tr' \<noteq> None"
    "tls_delivered fd tr tr' msgs" by blast
  then have l: "worker_list (lr_workers tr' ! i) = worker_list (lr_workers tr ! i) @ map (tls_packet fd conn) msgs"
    "i < length (lr_workers tr')" "map_of (lr_conns tr') fd \<noteq> None"
    using assms(2,4,5) by (auto simp: tls_delivered_def rx_delivered_def)
  have "worker_wf (lr_workers tr' ! i)" using t(2) l(2) by (simp add: tls_wf_def workers_wf_def list_all_length)
  moreover have "TlsWorker_processPacket = TcpWorker_processPacket"
    by (simp add: TlsWorker_processPacket_def TcpWorker_processPacket_def fun_eq_iff)
  ultimately show ?thesis using TcpWorker_processPacket_eq[of "lr_workers tr' ! i" s] t(1) l by auto
qed

theorem tls_messages_reach_engine_witness:
  "\<exists>tr conn tr' w'. tls_receive_loop 5 tr [RBytes [1, 0x20, 0], RBytes ([0, 0, 0, 0, 0, 0, 0, 0, 7] @ [0, 0, 0, 0])] =
      Some (tr', []) \<and> map_of (lr_conns tr) 5 = Some conn \<and>
    TlsWorker_processPacket (lr_workers tr' ! 0) (demo_engine, []) = map_option (Pair w')
      (RxRouter_handlePacket (tls_packet 5 conn (wire_packet 1 0x20 7 0 [])) (demo_engine, []))"
proof -
  obtain tr conn where d: "tls_inv tr" "map_of (lr_conns tr) 5 = Some conn" "rb_readable (tl_rxRing conn) = 0"
    "lr_workers tr = [demo_worker]" by (rule demo_tls_conn)
  let ?m = "wire_packet 1 0x20 7 0 [] :: bytes"
  let ?ps = "[[1, 0x20, 0], [0, 0, 0, 0, 0, 0, 0, 0, 7] @ [0, 0, 0, 0]] :: bytes list"
  have i: "worker_index 5 (lr_workers tr) = Some 0" by (simp add: d(4) worker_index_def)
  have m: "?m = concat ?ps" by code_simp
  have f: "\<forall>f \<in> set [?m]. (16 \<le> length f \<and> length f = 16 + packet_blen f) \<and> length f \<le> 65536"
    using wire_packet_is_frame[of "[]" 1 "0x20" 7 0] by simp
  have "tls_wf tr" using d(1) by (simp add: tls_inv_def)
  from tls_messages_reach_engine[OF this d(2,3) i _ f, of ?ps "(demo_engine, [])"] m d(4) demo_worker_wf(2,3)
  obtain tr' w' where "tls_receive_loop 5 tr (map RBytes ?ps) = Some (tr', [])"
    "TlsWorker_processPacket (lr_workers tr' ! 0) (demo_engine, []) = map_option (Pair w')
      (ofold RxRouter_handlePacket [tls_packet 5 conn ?m] (demo_engine, []))" by auto
  with d(2) show ?thesis by (intro exI[of _ tr] exI[of _ conn] exI[of _ tr'] exI[of _ w']) simp
qed

lemma tls_open_others:
  "hi_fd item \<noteq> fd \<Longrightarrow> map_of (lr_conns (tls_open sslNew item tr)) fd = map_of (lr_conns tr) fd \<and>
    map_of (lr_epoll (tls_open sslNew item tr)) fd = map_of (lr_epoll tr) fd"
  by (simp add: tls_open_def Let_def epoll_add_def)

lemma tls_open_all_others:
  "fd \<notin> hi_fd ` set items \<Longrightarrow> map_of (lr_conns (fold (tls_open sslNew) items tr)) fd = map_of (lr_conns tr) fd \<and>
    map_of (lr_epoll (fold (tls_open sslNew) items tr)) fd = map_of (lr_epoll tr) fd"
  by (induction items arbitrary: tr) (auto simp: tls_open_others)

text \<open>
  C28. A connection whose first bytes are a TLS ClientHello moves from the TCP to the TLS server
  intact: the TCP reactor reads none of its bytes, forgets it without closing the socket, and when
  the TLS reactor wakes up it owns a fresh connection for the same socket, with the same local and
  remote address, waiting for input.
\<close>

theorem tls_handover_intact:
  assumes "map_of (tr_conns tcp) fd = Some conn" "um_wf (tr_conns tcp)" "tr_tlsServer tcp" "isTlsClientHello (Some hello)"
    and "length (lq_q (lr_handoverQueue tls)) < lq_capacity (lr_handoverQueue tls)"
    and "tls_inv tls" "fd \<noteq> lr_wakeupFd tls" "map_of (lr_conns tls) fd = None"
    and "fd \<notin> hi_fd ` set (lq_q (lr_handoverQueue tls))" "sslNew fd"
  shows "\<exists>tcp' tls'. tcp_receive fd (Some hello) rs tcp = Some (tcp', rs) \<and>
    map_of (tr_conns tcp') fd = None \<and> tr_closed tcp' = tr_closed tcp \<and>
    tr_handover tcp' = tr_handover tcp @ [(fd, tr_serverAddr tcp, tc_peer conn)] \<and>
    tls' = processHandover sslNew (tls_handover True fd (tr_serverAddr tcp, tc_peer conn) tls) \<and>
    map_of (lr_conns tls') fd =
      Some (mk_TlsConnection fd (tr_serverAddr tcp, tc_peer conn) TLS_MAX_RX_BUFFER_SIZE) \<and>
    map_of (lr_epoll tls') fd = Some (EPOLLIN OR EPOLLRDHUP)"
proof -
  let ?info = "(tr_serverAddr tcp, tc_peer conn)" and ?q = "lr_handoverQueue tls"
  let ?item = "\<lparr>hi_fd = fd, hi_connInfo = ?info\<rparr>"
  define t where "t = (tls_handover True fd ?info tls)\<lparr>lr_handoverQueue := ?q\<lparr>lq_q := []\<rparr>\<rparr>"
  define u where "u = fold (tls_open sslNew) (lq_q ?q) t"
  have p: "processHandover sslNew (tls_handover True fd ?info tls) = tls_open sslNew ?item u"
    using assms(5) by (simp add: processHandover_def lq_drained tls_handover_def lq_enqueue_def t_def u_def)
  have "map_of (lr_conns t) fd = None" "map_of (lr_epoll t) fd = map_of (lr_epoll tls) fd"
    using assms(5,8) by (simp_all add: t_def tls_handover_def lq_enqueue_def)
  moreover have "map_of (lr_epoll tls) fd = None"
    using assms(6,7,8) spec[of "tls_reg True tls" fd] by (simp add: tls_inv_def tls_reg_def)
  ultimately have "map_of (lr_conns u) fd = None" "map_of (lr_epoll u) fd = None"
    using tls_open_all_others[of fd "lq_q ?q" sslNew t] assms(9) by (simp_all add: u_def)
  then show ?thesis using assms(1-4,10)
    by (simp add: p tcp_receive_def handoverToTls_def tls_open_def epoll_add_def)
qed

theorem tls_handover_intact_witness:
  "\<exists>tcp tcp' tr0 tls'. tcp_receive 5 (Some [0x16, 3, 1, 0, 200]) [] tcp = Some (tcp', []) \<and>
    map_of (tr_conns tcp') 5 = None \<and> mk_TlsReactor [demo_worker] = Some tr0 \<and>
    tls' = processHandover (\<lambda>_. True) (tls_handover True 5 (demo_peer, demo_peer)
      (tr0\<lparr>lr_wakeupFd := 4, lr_epoll := epoll_add 4 EPOLLIN (lr_epoll tr0)\<rparr>)) \<and>
    map_of (lr_conns tls') 5 \<noteq> None"
proof -
  obtain tcp0 conn0 where d: "tcp_inv tcp0" "map_of (tr_conns tcp0) 5 = Some conn0" by (rule demo_conn)
  define tcp conn where "tcp = tcp0\<lparr>tr_tlsServer := True, tr_serverAddr := demo_peer,
      tr_conns := [(5, conn0\<lparr>tc_peer := demo_peer\<rparr>)]\<rparr>" and "conn = conn0\<lparr>tc_peer := demo_peer\<rparr>"
  obtain tr0 where t: "mk_TlsReactor [demo_worker] = Some tr0" "workers_wf [demo_worker]" "lr_conns tr0 = []"
    "lr_handoverQueue tr0 = lq_new 4096" by (rule demo_tls_start)
  define tls where "tls = tr0\<lparr>lr_wakeupFd := 4, lr_epoll := epoll_add 4 EPOLLIN (lr_epoll tr0)\<rparr>"
  have "tls_inv tls" unfolding tls_def by (rule tls_inv_start[OF t(1,2)])
  with tls_handover_intact[of tcp 5 conn "[0x16, 3, 1, 0, 200]" tls "\<lambda>_. True" "[]"] t show ?thesis
    by (auto simp: tls_def tcp_def conn_def isTlsClientHello_def lq_new_def)
qed

end
