(* ===== verification/Udp.thy ===== *)
theory Udp
  imports TcpProps
begin

text \<open>
  \<open>serverd/protocol/udp\<close>: \<open>UdpReactor\<close> and \<open>UdpWorker\<close>. Datagrams that arrive and the answers to
  \<open>sendto\<close> are scripts; what goes out is recorded in \<open>ur_sent\<close> with its destination.
\<close>

subsection \<open>State\<close>

record UdpReactor =
  ur_portNo :: u16
  ur_sockFd :: fd
  ur_serverAddr :: sockaddr_in
  ur_rxBuffer :: nat
  ur_workers :: "RxWorker list"
  ur_epoll :: "(fd \<times> u32) list"
  ur_wakeupFd :: fd
  ur_port :: TxPort
  ur_closed :: "fd list"
  ur_sent :: "(sockaddr_in \<times> bytes) list"

definition UDP_RECV_CHUNK_SIZE :: nat where "UDP_RECV_CHUNK_SIZE = 4096"

definition mk_UdpReactor :: "u16 \<Rightarrow> RxWorker list \<Rightarrow> UdpReactor option" where
  "mk_UdpReactor port workers =
     do {
       q \<leftarrow> mpsc_new 65536;
       if workers = [] then None
       else Some \<lparr>ur_portNo = port, ur_sockFd = - 1, ur_serverAddr = \<lparr>sin_family = 0, sin_addr = 0, sin_port = 0\<rparr>,
         ur_rxBuffer = 0, ur_workers = workers, ur_epoll = [], ur_wakeupFd = - 1,
         ur_port = \<lparr>tp_queue = q, tp_wakeups = 0\<rparr>, ur_closed = [], ur_sent = []\<rparr>
     }"

subsection \<open>Receiving\<close>

text \<open>An answer to \<open>recvfrom\<close>: a datagram with its sender, or an error; a script at its end would block.\<close>

datatype datagram_res = Datagram bytes sockaddr_in | DErr errno

definition udp_key :: "sockaddr_in \<Rightarrow> u32" where
  "udp_key clientAddr = ntohl (sin_addr clientAddr) XOR ucast (ntohs (sin_port clientAddr))"

definition udp_packet :: "UdpReactor \<Rightarrow> bytes \<Rightarrow> sockaddr_in \<Rightarrow> Packet" where
  "udp_packet ur payload clientAddr = mk_Packet (ur_sockFd ur) UDP payload clientAddr (ur_serverAddr ur)"

definition udp_dispatch :: "bytes \<Rightarrow> sockaddr_in \<Rightarrow> UdpReactor \<Rightarrow> UdpReactor option" where
  "udp_dispatch payload clientAddr ur =
     (if ur_workers ur = [] then None
      else
        (let idx = unat (udp_key clientAddr) mod length (ur_workers ur) in
         do {
           w \<leftarrow> UdpWorker_enqueueRx (ur_workers ur ! idx) (Some (udp_packet ur payload clientAddr));
           Some (ur\<lparr>ur_workers := (ur_workers ur)[idx := w]\<rparr>)
         }))"

text \<open>A datagram longer than the buffer loses its tail.\<close>

fun receivePackets :: "datagram_res list \<Rightarrow> UdpReactor \<Rightarrow> (UdpReactor \<times> datagram_res list) option" where
  "receivePackets [] ur = Some (ur, [])"
| "receivePackets (Datagram bs clientAddr # rs) ur =
     (let payload = take (ur_rxBuffer ur) bs in
      if payload \<noteq> [] then do { ur \<leftarrow> udp_dispatch payload clientAddr ur; receivePackets rs ur }
      else Some (ur, rs))"
| "receivePackets (DErr e # rs) ur =
     (if e = EAGAIN then Some (ur, rs) else if e = EINTR then receivePackets rs ur else Some (ur, rs))"

subsection \<open>Transmitting\<close>

definition udp_flushPacket :: "send_res \<Rightarrow> Packet \<Rightarrow> UdpReactor \<Rightarrow> UdpReactor option" where
  "udp_flushPacket ret pkt ur =
     (let dstAddr = \<lparr>sin_family = AF_INET, sin_addr = htonl (dstIp (pk_connInfo pkt)),
                     sin_port = htons (dstPort (pk_connInfo pkt))\<rparr>
      in case ret of
           SSent _ \<Rightarrow> Some (ur\<lparr>ur_sent := ur_sent ur @ [(dstAddr, pk_payload pkt)]\<rparr>)
         | SErr e \<Rightarrow>
             if e = EAGAIN then
               do {
                 (q, ok) \<leftarrow> mpsc_enqueue (tp_queue (ur_port ur)) pkt;
                 Some (ur\<lparr>ur_port := \<lparr>tp_queue = q, tp_wakeups = tp_wakeups (ur_port ur) + 1\<rparr>\<rparr>)
               }
             else if e = EINTR then
               do {
                 (q, ok) \<leftarrow> mpsc_enqueue (tp_queue (ur_port ur)) pkt;
                 Some (ur\<lparr>ur_port := (ur_port ur)\<lparr>tp_queue := q\<rparr>\<rparr>)
               }
             else Some ur)"

text \<open>Every packet of the batch costs one call of \<open>sendto\<close>; without an answer it would block.\<close>

fun udp_flush_loop :: "send_res list \<Rightarrow> Packet list \<Rightarrow> UdpReactor \<Rightarrow> UdpReactor option" where
  "udp_flush_loop ss [] ur = Some ur"
| "udp_flush_loop [] (pkt # pkts) ur =
     do { ur \<leftarrow> udp_flushPacket (SErr EAGAIN) pkt ur; udp_flush_loop [] pkts ur }"
| "udp_flush_loop (ret # ss) (pkt # pkts) ur =
     do { ur \<leftarrow> udp_flushPacket ret pkt ur; udp_flush_loop ss pkts ur }"

definition udp_processTxQueue :: "send_res list \<Rightarrow> UdpReactor \<Rightarrow> UdpReactor option" where
  "udp_processTxQueue sends ur =
     do {
       (q, packets) \<leftarrow> mpsc_items (tp_queue (ur_port ur));
       udp_flush_loop sends packets (ur\<lparr>ur_port := (ur_port ur)\<lparr>tp_queue := q\<rparr>\<rparr>)
     }"

subsection \<open>The event loop\<close>

definition udp_handleEvent :: "datagram_res list \<Rightarrow> send_res list \<Rightarrow> fd \<Rightarrow> UdpReactor \<Rightarrow> UdpReactor option" where
  "udp_handleEvent recvs sends fd ur =
     (if fd = ur_wakeupFd ur then udp_processTxQueue sends (ur\<lparr>ur_port := (ur_port ur)\<lparr>tp_wakeups := 0\<rparr>\<rparr>)
      else if fd = ur_sockFd ur then map_option fst (receivePackets recvs ur)
      else Some ur)"

datatype udp_op = UdpEvent "datagram_res list" "send_res list" fd | UdpTx "Packet option"

fun udp_step :: "udp_op \<Rightarrow> UdpReactor \<Rightarrow> UdpReactor option" where
  "udp_step (UdpEvent recvs sends fd) ur = udp_handleEvent recvs sends fd ur"
| "udp_step (UdpTx pkt) ur = do { port \<leftarrow> UdpReactor_enqueueTx (ur_port ur) pkt; Some (ur\<lparr>ur_port := port\<rparr>) }"

definition udp_run :: "udp_op list \<Rightarrow> UdpReactor \<Rightarrow> UdpReactor option" where
  "udp_run ops ur = ofold udp_step ops ur"

definition udp_createSocket :: "start_io \<Rightarrow> UdpReactor \<Rightarrow> UdpReactor \<times> bool" where
  "udp_createSocket st ur =
     (let ur = ur\<lparr>ur_sockFd := st_socket st\<rparr> in if ur_sockFd ur < 0 then (ur, False) else (ur, st_nonblock st))"

text \<open>The results of \<open>setsockopt\<close> are not looked at.\<close>

definition udp_bindSocket :: "start_io \<Rightarrow> UdpReactor \<Rightarrow> UdpReactor \<times> bool" where
  "udp_bindSocket st ur =
     (ur\<lparr>ur_serverAddr := \<lparr>sin_family = AF_INET, sin_addr = 0, sin_port = htons (ur_portNo ur)\<rparr>\<rparr>, st_bind st)"

definition udp_init :: "start_io \<Rightarrow> UdpReactor \<Rightarrow> UdpReactor \<times> bool" where
  "udp_init st ur =
     (case udp_createSocket st ur of (ur, ok) \<Rightarrow> if \<not> ok then (ur, False) else udp_bindSocket st ur)"

definition udp_shutdown :: "UdpReactor \<Rightarrow> UdpReactor" where
  "udp_shutdown ur =
     (let ur = ur\<lparr>ur_epoll := []\<rparr> in
      if ur_sockFd ur \<ge> 0 then ur\<lparr>ur_closed := ur_closed ur @ [ur_sockFd ur], ur_sockFd := - 1\<rparr> else ur)"

definition udp_prepare :: "start_io \<Rightarrow> UdpReactor \<Rightarrow> UdpReactor \<times> bool" where
  "udp_prepare st ur =
     (case udp_init st ur of (ur, ok) \<Rightarrow>
        if \<not> ok then (ur, False)
        else
          (case st_epoll st of
             None \<Rightarrow> (udp_shutdown ur, False)
           | Some wakeup \<Rightarrow>
               (ur\<lparr>ur_wakeupFd := wakeup,
                   ur_epoll := epoll_add (ur_sockFd ur) EPOLLIN (epoll_add wakeup EPOLLIN (ur_epoll ur)),
                   ur_rxBuffer := UDP_RECV_CHUNK_SIZE\<rparr>, True)))"

definition udp_start :: "start_io \<Rightarrow> udp_op list \<Rightarrow> UdpReactor \<Rightarrow> UdpReactor option" where
  "udp_start st ops ur =
     (case udp_prepare st ur of (ur, ok) \<Rightarrow>
        if ok then map_option udp_shutdown (udp_run ops ur) else Some ur)"

subsection \<open>UdpWorker\<close>

definition UdpWorker_processPacket ::
  "RxWorker \<Rightarrow> Engine \<times> rand \<Rightarrow> (RxWorker \<times> (Engine \<times> rand)) option" where
  "UdpWorker_processPacket w s =
     (let w = w\<lparr>wk_wakeups := 0\<rparr> in
      map_option (\<lambda>(q, s'). (w\<lparr>wk_queue := q\<rparr>, s')) (drain_loop spsc_dequeue RxRouter_handlePacket (wk_queue w) s))"

subsection \<open>Invariant\<close>

definition udp_wf :: "UdpReactor \<Rightarrow> bool" where
  "udp_wf ur \<longleftrightarrow> workers_wf (ur_workers ur) \<and> port_wf (ur_port ur)"

text \<open>The worker of a peer, and the packets of a script of datagrams that go to worker \<open>i\<close>.\<close>

definition udp_worker :: "UdpReactor \<Rightarrow> sockaddr_in \<Rightarrow> nat" where
  "udp_worker ur peer = unat (udp_key peer) mod length (ur_workers ur)"

definition udp_packets_for :: "UdpReactor \<Rightarrow> nat \<Rightarrow> (bytes \<times> sockaddr_in) list \<Rightarrow> Packet list" where
  "udp_packets_for ur i ds =
     [udp_packet ur (take (ur_rxBuffer ur) bs) peer. (bs, peer) \<leftarrow> ds, udp_worker ur peer = i]"

lemma rx_delivered_others:
  assumes "workers_wf ws" "rx_delivered i ps ws ws'" "j < length ws" "j \<noteq> i"
  shows "ws' ! j = ws ! j"
  using assms by (auto simp: rx_delivered_def)

lemma udp_dispatch_delivered:
  assumes "udp_wf ur"
  shows "\<exists>ws. udp_dispatch payload peer ur = Some (ur\<lparr>ur_workers := ws\<rparr>) \<and> workers_wf ws \<and>
    rx_delivered (udp_worker ur peer) [udp_packet ur payload peer] (ur_workers ur) ws"
proof -
  let ?ws = "ur_workers ur" and ?i = "udp_worker ur peer" and ?p = "udp_packet ur payload peer"
  have wf: "workers_wf ?ws" and i: "?i < length ?ws" "?ws \<noteq> []"
    using assms by (auto simp: udp_wf_def workers_wf_def udp_worker_def)
  then have "worker_wf (?ws ! ?i)" by (simp add: workers_wf_def list_all_length)
  from enqueueRx_wf[OF this, of ?p] obtain w where w: "TcpWorker_enqueueRx (?ws ! ?i) (Some ?p) = Some w" "worker_wf w"
    "sq_capacity (wk_queue w) = sq_capacity (wk_queue (?ws ! ?i))"
    "worker_list w = worker_list (?ws ! ?i) @ take (worker_room (?ws ! ?i)) [?p]" by blast
  then have d: "rx_delivered ?i [?p] ?ws (?ws[?i := w])" using i by (auto simp: rx_delivered_def)
  have "udp_dispatch payload peer ur = Some (ur\<lparr>ur_workers := ?ws[?i := w]\<rparr>)"
    using w(1) i(2) by (simp add: udp_dispatch_def enqueueRx_same udp_worker_def Let_def)
  with d rx_delivered_wf[OF wf d] show ?thesis by blast
qed

text \<open>What each worker holds after the datagrams \<open>ds\<close>.\<close>

definition udp_queued :: "UdpReactor \<Rightarrow> (bytes \<times> sockaddr_in) list \<Rightarrow> RxWorker list \<Rightarrow> bool" where
  "udp_queued ur ds ws \<longleftrightarrow> workers_wf ws \<and> length ws = length (ur_workers ur) \<and>
     (\<forall>i < length ws. sq_capacity (wk_queue (ws ! i)) = sq_capacity (wk_queue (ur_workers ur ! i)) \<and>
        worker_list (ws ! i) =
          worker_list (ur_workers ur ! i) @ take (worker_room (ur_workers ur ! i)) (udp_packets_for ur i ds))"

lemma udp_queued_step:
  assumes "rx_delivered (udp_worker ur peer) [udp_packet ur (take (ur_rxBuffer ur) bs) peer] (ur_workers ur) ws"
    and "udp_queued (ur\<lparr>ur_workers := ws\<rparr>) ds ws'"
  shows "udp_queued ur ((bs, peer) # ds) ws'"
  unfolding udp_queued_def
proof (intro conjI allI impI)
  from assms obtain w where w: "udp_worker ur peer < length (ur_workers ur)" "ws = (ur_workers ur)[udp_worker ur peer := w]"
    "sq_capacity (wk_queue w) = sq_capacity (wk_queue (ur_workers ur ! udp_worker ur peer))"
    "worker_list w = worker_list (ur_workers ur ! udp_worker ur peer) @
      take (worker_room (ur_workers ur ! udp_worker ur peer)) [udp_packet ur (take (ur_rxBuffer ur) bs) peer]"
    by (auto simp: rx_delivered_def)
  have same: "udp_packets_for (ur\<lparr>ur_workers := ws\<rparr>) i ds = udp_packets_for ur i ds" for i
    using w(2) by (simp add: udp_packets_for_def udp_packet_def udp_worker_def cong: if_cong)
  show "workers_wf ws'" "length ws' = length (ur_workers ur)" using assms(2) w(2) by (auto simp: udp_queued_def)
  fix i assume i: "i < length ws'"
  have q: "sq_capacity (wk_queue (ws' ! i)) = sq_capacity (wk_queue (ws ! i))"
    "worker_list (ws' ! i) = worker_list (ws ! i) @ take (worker_room (ws ! i)) (udp_packets_for ur i ds)"
    using assms(2) i by (simp_all add: udp_queued_def same)
  show "sq_capacity (wk_queue (ws' ! i)) = sq_capacity (wk_queue (ur_workers ur ! i))"
    using q(1) w(1-3) by (cases "i = udp_worker ur peer") simp_all
  show "worker_list (ws' ! i) = worker_list (ur_workers ur ! i) @
      take (worker_room (ur_workers ur ! i)) (udp_packets_for ur i ((bs, peer) # ds))"
  proof (cases "i = udp_worker ur peer")
    case False
    with q(2) w(2) show ?thesis by (simp add: udp_packets_for_def)
  next
    case True
    then have "ws ! i = w" using w(1,2) by simp
    moreover have "worker_room w = worker_room (ur_workers ur ! i) - 1"
      using w(3,4) True by (auto simp: worker_room_def)
    ultimately show ?thesis using q(2) w(4) True
      by (cases "worker_room (ur_workers ur ! i)") (simp_all add: udp_packets_for_def)
  qed
qed

lemma receivePackets_queued:
  assumes "udp_wf ur" "0 < ur_rxBuffer ur" "\<forall>(bs, peer) \<in> set ds. bs \<noteq> []"
  shows "\<exists>ws. receivePackets (map (\<lambda>(bs, peer). Datagram bs peer) ds) ur = Some (ur\<lparr>ur_workers := ws\<rparr>, []) \<and>
    udp_queued ur ds ws"
  using assms
proof (induction ds arbitrary: ur)
  case Nil
  then show ?case
    by (intro exI[of _ "ur_workers ur"]) (simp add: udp_queued_def udp_packets_for_def udp_wf_def)
next
  case (Cons d ds)
  obtain bs peer where d: "d = (bs, peer)" by force
  from udp_dispatch_delivered[OF Cons.prems(1), of "take (ur_rxBuffer ur) bs" peer] obtain ws where ws:
    "udp_dispatch (take (ur_rxBuffer ur) bs) peer ur = Some (ur\<lparr>ur_workers := ws\<rparr>)" "workers_wf ws"
    "rx_delivered (udp_worker ur peer) [udp_packet ur (take (ur_rxBuffer ur) bs) peer] (ur_workers ur) ws" by blast
  then have "udp_wf (ur\<lparr>ur_workers := ws\<rparr>)" using Cons.prems(1) by (simp add: udp_wf_def)
  from Cons.IH[OF this] Cons.prems(2,3) obtain ws' where
    "receivePackets (map (\<lambda>(bs, peer). Datagram bs peer) ds) (ur\<lparr>ur_workers := ws\<rparr>) =
      Some (ur\<lparr>ur_workers := ws'\<rparr>, [])" "udp_queued (ur\<lparr>ur_workers := ws\<rparr>) ds ws'" by auto
  with ws d udp_queued_step[OF ws(3)] Cons.prems(2,3) show ?case by auto
qed

subsection \<open>Transmitting a batch\<close>

text \<open>What becomes of a batch: the packets the socket takes, and those that are queued again.\<close>

definition udp_taken :: "send_res list \<Rightarrow> Packet list \<Rightarrow> Packet list" where
  "udp_taken ss ps = [p. (ret, p) \<leftarrow> zip ss ps, case ret of SSent n \<Rightarrow> True | SErr e \<Rightarrow> False]"

definition udp_kept :: "send_res list \<Rightarrow> Packet list \<Rightarrow> Packet list" where
  "udp_kept ss ps = [p. (ret, p) \<leftarrow> zip ss ps, ret = SErr EAGAIN \<or> ret = SErr EINTR]"

definition udp_datagram :: "Packet \<Rightarrow> sockaddr_in \<times> bytes" where
  "udp_datagram p = (createSockAddr (dstIp (pk_connInfo p)) (dstPort (pk_connInfo p)), pk_payload p)"

lemma udp_requeue:
  assumes "port_wf port" "port_room port"
  shows "\<exists>q. mpsc_enqueue (tp_queue port) p = Some (q, True) \<and> mpsc_wf q \<and>
    mpsc_list q = port_list port @ [p] \<and> mq_capacity q = mq_capacity (tp_queue port)"
  using mpsc_enqueue_wf[of "tp_queue port" p] assms by (auto simp: port_wf_def port_room_def port_list_def)

definition udp_moved :: "send_res list \<Rightarrow> Packet list \<Rightarrow> UdpReactor \<Rightarrow> UdpReactor \<Rightarrow> bool" where
  "udp_moved ss ps ur ur' \<longleftrightarrow>
     ur_sent ur' = ur_sent ur @ map udp_datagram (udp_taken ss ps) \<and>
     port_list (ur_port ur') = port_list (ur_port ur) @ udp_kept ss ps \<and>
     tp_wakeups (ur_port ur') = tp_wakeups (ur_port ur) + count_list ss (SErr EAGAIN) \<and>
     mq_capacity (tp_queue (ur_port ur')) = mq_capacity (tp_queue (ur_port ur)) \<and>
     ur_workers ur' = ur_workers ur"

lemma udp_flush_one:
  assumes "udp_wf ur" "port_room (ur_port ur)"
  shows "\<exists>ur'. udp_flushPacket ret p ur = Some ur' \<and> udp_wf ur' \<and> udp_moved [ret] [p] ur ur'"
proof -
  from assms obtain q where "mpsc_enqueue (tp_queue (ur_port ur)) p = Some (q, True)" "mpsc_wf q"
    "mpsc_list q = port_list (ur_port ur) @ [p]" "mq_capacity q = mq_capacity (tp_queue (ur_port ur))"
    using udp_requeue[of "ur_port ur" p] by (auto simp: udp_wf_def)
  then show ?thesis using assms(1)
    by (auto simp: udp_flushPacket_def udp_wf_def udp_moved_def udp_taken_def udp_kept_def udp_datagram_def
        createSockAddr_def port_wf_def port_list_def split: write_res.split)
qed

lemma udp_flush_loop_spec:
  assumes "udp_wf ur" "length ss = length ps"
    "length (port_list (ur_port ur)) + length ps \<le> unat (mq_capacity (tp_queue (ur_port ur)))"
  shows "\<exists>ur'. udp_flush_loop ss ps ur = Some ur' \<and> udp_wf ur' \<and> udp_moved ss ps ur ur'"
  using assms
proof (induction ss ps ur rule: udp_flush_loop.induct)
  case (3 ret ss pkt pkts ur)
  have "port_room (ur_port ur)" using 3(4) by (simp add: port_room_def)
  from udp_flush_one[OF 3(2) this, of ret pkt] obtain ur1 where u:
    "udp_flushPacket ret pkt ur = Some ur1" "udp_wf ur1" "udp_moved [ret] [pkt] ur ur1" by blast
  have "length (udp_kept [ret] [pkt]) \<le> 1" by (simp add: udp_kept_def)
  then have "length (port_list (ur_port ur1)) + length pkts \<le> unat (mq_capacity (tp_queue (ur_port ur1)))"
    using u(3) 3(4) by (auto simp: udp_moved_def)
  with 3(1)[OF u(1)] u(2) 3(3) obtain ur' where "udp_flush_loop ss pkts ur1 = Some ur'" "udp_wf ur'"
    "udp_moved ss pkts ur1 ur'" by auto
  then show ?case using u(1,3)
    by (auto simp: udp_moved_def udp_taken_def udp_kept_def)
qed (simp_all add: udp_moved_def udp_taken_def udp_kept_def)

lemma udp_processTxQueue_spec:
  assumes "udp_wf ur" "length ss = length (port_list (ur_port ur))"
  shows "\<exists>ur'. udp_processTxQueue ss ur = Some ur' \<and> udp_wf ur' \<and>
    ur_sent ur' = ur_sent ur @ map udp_datagram (udp_taken ss (port_list (ur_port ur))) \<and>
    port_list (ur_port ur') = udp_kept ss (port_list (ur_port ur)) \<and>
    tp_wakeups (ur_port ur') = tp_wakeups (ur_port ur) + count_list ss (SErr EAGAIN)"
proof -
  have wf: "mpsc_wf (tp_queue (ur_port ur))" using assms(1) by (simp add: udp_wf_def port_wf_def)
  from mpsc.deqAll_law[OF wf] obtain q where q: "mpsc_items (tp_queue (ur_port ur)) = Some (q, port_list (ur_port ur))"
    "mpsc_wf q" "mpsc_list q = []" "unat (mq_capacity q) = unat (mq_capacity (tp_queue (ur_port ur)))"
    by (auto simp: port_list_def)
  let ?ur = "ur\<lparr>ur_port := (ur_port ur)\<lparr>tp_queue := q\<rparr>\<rparr>"
  have "udp_wf ?ur" using assms(1) q(2) by (simp add: udp_wf_def port_wf_def)
  moreover have "length (port_list (ur_port ur)) \<le> unat (mq_capacity (tp_queue (ur_port ur)))"
    using mpsc_list_bound[OF wf] by (simp add: port_list_def)
  ultimately obtain ur' where "udp_flush_loop ss (port_list (ur_port ur)) ?ur = Some ur'" "udp_wf ur'"
    "udp_moved ss (port_list (ur_port ur)) ?ur ur'"
    using udp_flush_loop_spec[of ?ur ss "port_list (ur_port ur)"] assms(2) q(3,4) by (auto simp: port_list_def)
  with q(1,3) show ?thesis by (auto simp: udp_processTxQueue_def udp_moved_def port_list_def)
qed

subsection \<open>The server never fails\<close>

lemma udp_flushPacket_wf:
  assumes "udp_wf ur"
  shows "\<exists>ur'. udp_flushPacket ret p ur = Some ur' \<and> udp_wf ur'"
proof -
  from assms mpsc_enqueue_wf[of "tp_queue (ur_port ur)" p] obtain q ok where
    "mpsc_enqueue (tp_queue (ur_port ur)) p = Some (q, ok)" "mpsc_wf q" by (auto simp: udp_wf_def port_wf_def)
  with assms show ?thesis by (simp add: udp_flushPacket_def udp_wf_def port_wf_def split: write_res.split)
qed

lemma udp_flush_loop_wf: "udp_wf ur \<Longrightarrow> \<exists>ur'. udp_flush_loop ss ps ur = Some ur' \<and> udp_wf ur'"
proof (induction ss ps ur rule: udp_flush_loop.induct)
  case (2 pkt pkts ur)
  from udp_flushPacket_wf[OF 2(2)] 2(1) show ?case by fastforce
next
  case (3 ret ss pkt pkts ur)
  from udp_flushPacket_wf[OF 3(2), of ret pkt] 3(1) show ?case by fastforce
qed simp

lemma receivePackets_wf: "udp_wf ur \<Longrightarrow> \<exists>ur' rs'. receivePackets rs ur = Some (ur', rs') \<and> udp_wf ur'"
proof (induction rs ur rule: receivePackets.induct)
  case (2 bs peer rs ur)
  show ?case
  proof (cases "take (ur_rxBuffer ur) bs = []")
    case True
    with 2(2) show ?thesis by (simp add: Let_def)
  next
    case False
    from udp_dispatch_delivered[OF 2(2), of "take (ur_rxBuffer ur) bs" peer] obtain ws where
      d: "udp_dispatch (take (ur_rxBuffer ur) bs) peer ur = Some (ur\<lparr>ur_workers := ws\<rparr>)" "workers_wf ws" by blast
    then have "udp_wf (ur\<lparr>ur_workers := ws\<rparr>)" using 2(2) by (simp add: udp_wf_def)
    with 2(1)[OF refl False d(1)] d(1) False show ?thesis by (simp add: Let_def)
  qed
qed simp_all

lemma udp_step_wf: "udp_wf ur \<Longrightarrow> \<exists>ur'. udp_step op ur = Some ur' \<and> udp_wf ur'"
proof (induction op)
  case (UdpEvent recvs sends fd)
  then obtain q where "mpsc_items (tp_queue (ur_port ur)) = Some (q, port_list (ur_port ur))" "mpsc_wf q"
    using mpsc.deqAll_law[of "tp_queue (ur_port ur)"] by (auto simp: udp_wf_def port_wf_def port_list_def)
  moreover from this UdpEvent have "udp_wf (ur\<lparr>ur_port := (ur_port ur)\<lparr>tp_wakeups := 0, tp_queue := q\<rparr>\<rparr>)"
    by (simp add: udp_wf_def port_wf_def)
  ultimately show ?case
    using udp_flush_loop_wf[of "ur\<lparr>ur_port := (ur_port ur)\<lparr>tp_wakeups := 0, tp_queue := q\<rparr>\<rparr>" sends "port_list (ur_port ur)"]
      receivePackets_wf[OF UdpEvent, of recvs] UdpEvent
    by (auto simp: udp_handleEvent_def udp_processTxQueue_def)
next
  case (UdpTx pkt)
  then have "port_wf (ur_port ur)" by (simp add: udp_wf_def)
  from enqueueTx_wf[OF this, of pkt] UdpTx show ?case
    by (auto simp: udp_wf_def UdpReactor_enqueueTx_def TcpReactor_enqueueTx_def)
qed

lemma udp_run_wf: "udp_wf ur \<Longrightarrow> \<exists>ur'. udp_run ops ur = Some ur' \<and> udp_wf ur'"
  unfolding udp_run_def by (rule ofold_inv) (use udp_step_wf in blast)+

lemma udp_prepare_wf:
  assumes "mk_UdpReactor port ws = Some ur0" "workers_wf ws" "udp_prepare st ur0 = (ur, True)"
  shows "udp_wf ur \<and> ur_rxBuffer ur = 4096"
proof -
  obtain q :: "Packet MpscQueue" where "mpsc_new 65536 = Some q" "mpsc_wf q"
    by (rule mpsc_new_wf[of 65536]) (simp_all add: pow2_def)
  with assms show ?thesis
    by (auto simp: mk_UdpReactor_def udp_prepare_def udp_init_def udp_createSocket_def udp_bindSocket_def udp_wf_def
        port_wf_def UDP_RECV_CHUNK_SIZE_def Let_def split: if_splits option.splits)
qed

lemma udp_step_buffer: "udp_step op ur = Some ur' \<Longrightarrow> ur_rxBuffer ur' = ur_rxBuffer ur"
proof -
  have disp: "udp_dispatch bs peer u = Some u' \<Longrightarrow> ur_rxBuffer u' = ur_rxBuffer u" for bs peer u u'
    by (auto simp: udp_dispatch_def Let_def split: if_splits bind_splits)
  have rx: "receivePackets rs u = Some (u', rs') \<Longrightarrow> ur_rxBuffer u' = ur_rxBuffer u" for rs u u' rs'
  proof (induction rs u rule: receivePackets.induct)
    case (2 bs peer rs u)
    then show ?case by (auto simp: Let_def dest!: disp split: if_splits bind_splits)
  qed (auto split: if_splits)
  have one: "udp_flushPacket ret p u = Some u' \<Longrightarrow> ur_rxBuffer u' = ur_rxBuffer u" for ret p u u'
    by (auto simp: udp_flushPacket_def Let_def split: write_res.splits if_splits bind_splits)
  have tx: "udp_flush_loop ss ps u = Some u' \<Longrightarrow> ur_rxBuffer u' = ur_rxBuffer u" for ss ps u u'
    by (induction ss ps u rule: udp_flush_loop.induct) (auto dest!: one split: bind_splits)
  assume "udp_step op ur = Some ur'"
  then show ?thesis
    by (cases op) (auto simp: udp_handleEvent_def udp_processTxQueue_def dest!: rx tx split: if_splits bind_splits)
qed

lemma udp_run_buffer: "udp_run ops ur = Some ur' \<Longrightarrow> ur_rxBuffer ur' = ur_rxBuffer ur"
  unfolding udp_run_def
  by (induction ops arbitrary: ur) (auto dest: udp_step_buffer split: bind_splits)

lemma UdpWorker_processPacket_eq:
  assumes "worker_wf w"
  shows "\<exists>w'. UdpWorker_processPacket w s =
      map_option (Pair w') (ofold RxRouter_handlePacket (worker_list w) s) \<and> worker_list w' = []"
proof -
  have "UdpWorker_processPacket w s = TcpWorker_processPacket w s"
    by (simp add: UdpWorker_processPacket_def TcpWorker_processPacket_def)
  with TcpWorker_processPacket_eq[OF assms, of s] show ?thesis by auto
qed

subsection \<open>Properties\<close>

text \<open>
  C29. Datagrams reach the engine: in every state the UDP server can reach, when a burst of datagrams
  is waiting, the reactor takes them all, and the next pass of each worker runs the router over
  exactly the datagrams of the peers that belong to it, in the order of arrival, cut to 4096 bytes
  and as far as the worker's queue has room, each tagged with its sender.
\<close>

theorem udp_datagrams_reach_engine:
  assumes "mk_UdpReactor port ws = Some ur0" "workers_wf ws" "udp_prepare st ur0 = (ur1, True)"
    and "udp_run ops ur1 = Some ur" "\<forall>(bs, peer) \<in> set ds. bs \<noteq> []" "i < length (ur_workers ur)"
  shows "\<exists>ur' w'. receivePackets (map (\<lambda>(bs, peer). Datagram bs peer) ds) ur = Some (ur', []) \<and>
    worker_list w' = [] \<and>
    UdpWorker_processPacket (ur_workers ur' ! i) s = map_option (Pair w') (ofold RxRouter_handlePacket
      (worker_list (ur_workers ur ! i) @ take (worker_room (ur_workers ur ! i))
         [mk_Packet (ur_sockFd ur) UDP (take 4096 bs) peer (ur_serverAddr ur). (bs, peer) \<leftarrow> ds,
            unat (udp_key peer) mod length (ur_workers ur) = i]) s)"
proof -
  from udp_prepare_wf[OF assms(1-3)] udp_run_wf[of ur1 ops] udp_run_buffer[OF assms(4)] assms(4)
  have wf: "udp_wf ur" "ur_rxBuffer ur = 4096" by auto
  with receivePackets_queued[of ur ds] assms(5) obtain ws' where ws:
    "receivePackets (map (\<lambda>(bs, peer). Datagram bs peer) ds) ur = Some (ur\<lparr>ur_workers := ws'\<rparr>, [])"
    "udp_queued ur ds ws'" by auto
  then have "worker_wf (ws' ! i)" using assms(6) by (auto simp: udp_queued_def workers_wf_def list_all_length)
  from UdpWorker_processPacket_eq[OF this, of s] ws assms(6) wf(2) show ?thesis
    by (auto simp: udp_queued_def udp_packets_for_def udp_packet_def udp_worker_def cong: if_cong)
qed

lemma demo_udp:
  obtains ur0 ur1 where "mk_UdpReactor 9000 [demo_worker] = Some ur0" "udp_prepare demo_start ur0 = (ur1, True)"
    "ur_workers ur1 = [demo_worker]" "ur_sockFd ur1 = 3" "workers_wf [demo_worker]" "port_list (ur_port ur1) = []"
proof -
  obtain q :: "Packet MpscQueue" where "mpsc_new 65536 = Some q" "mpsc_wf q" "mpsc_list q = []"
    by (rule mpsc_new_wf[of 65536]) (simp_all add: pow2_def)
  with that demo_worker_wf(1) show ?thesis
    by (simp add: mk_UdpReactor_def udp_prepare_def udp_init_def udp_createSocket_def udp_bindSocket_def
        demo_start_def workers_wf_def port_list_def Let_def)
qed

theorem udp_datagrams_reach_engine_witness:
  "\<exists>ur ur' w'. receivePackets [Datagram [1, 2] demo_peer] ur = Some (ur', []) \<and>
    UdpWorker_processPacket (ur_workers ur' ! 0) (demo_engine, []) = map_option (Pair w')
      (RxRouter_handlePacket (mk_Packet 3 UDP [1, 2] demo_peer (ur_serverAddr ur)) (demo_engine, []))"
proof -
  obtain ur0 ur where d: "mk_UdpReactor 9000 [demo_worker] = Some ur0" "udp_prepare demo_start ur0 = (ur, True)"
    "ur_workers ur = [demo_worker]" "ur_sockFd ur = 3" "workers_wf [demo_worker]" by (rule demo_udp)
  have run: "udp_run [] ur = Some ur" by (simp add: udp_run_def)
  from udp_datagrams_reach_engine[OF d(1,5,2) run, of "[([1, 2], demo_peer)]" 0 "(demo_engine, [])"]
    d(3,4) demo_worker_wf(2,3)
  obtain ur' w' where "receivePackets [Datagram [1, 2] demo_peer] ur = Some (ur', [])"
    "UdpWorker_processPacket (ur_workers ur' ! 0) (demo_engine, []) = map_option (Pair w')
      (RxRouter_handlePacket (mk_Packet 3 UDP [1, 2] demo_peer (ur_serverAddr ur)) (demo_engine, []))" by auto
  then show ?thesis by (intro exI[of _ ur] exI[of _ ur'] exI[of _ w']) simp
qed

text \<open>
  C30. The UDP server never fails and loses no reply to a busy socket: whatever happened since its
  start, a pass over the transmit queue returns, sends each datagram the socket takes once, in
  order, to the packet's destination, and keeps exactly those refused with EAGAIN or EINTR, in
  order, for the next pass. It wakes itself up once for every EAGAIN.
\<close>

theorem udp_tx_exact:
  assumes "mk_UdpReactor port ws = Some ur0" "workers_wf ws" "udp_prepare st ur0 = (ur1, True)"
  shows "\<exists>ur. udp_run ops ur1 = Some ur \<and> (length sends = length (port_list (ur_port ur)) \<longrightarrow>
    (\<exists>ur'. udp_processTxQueue sends ur = Some ur' \<and>
      ur_sent ur' = ur_sent ur @ [(createSockAddr (dstIp (pk_connInfo p)) (dstPort (pk_connInfo p)), pk_payload p).
        (SSent n, p) \<leftarrow> zip sends (port_list (ur_port ur))] \<and>
      port_list (ur_port ur') = [p. (SErr e, p) \<leftarrow> zip sends (port_list (ur_port ur)), e = EAGAIN \<or> e = EINTR] \<and>
      tp_wakeups (ur_port ur') = tp_wakeups (ur_port ur) + count_list sends (SErr EAGAIN)))"
proof -
  from udp_prepare_wf[OF assms] udp_run_wf[of ur1 ops] obtain ur where ur: "udp_run ops ur1 = Some ur" "udp_wf ur" by blast
  have taken: "map udp_datagram (udp_taken ss ps) =
      [(createSockAddr (dstIp (pk_connInfo p)) (dstPort (pk_connInfo p)), pk_payload p). (SSent n, p) \<leftarrow> zip ss ps]" for ss ps
    by (induction ss ps rule: list_induct2') (simp_all add: udp_taken_def udp_datagram_def split: write_res.split)
  have kept: "udp_kept ss ps = [p. (SErr e, p) \<leftarrow> zip ss ps, e = EAGAIN \<or> e = EINTR]" for ss ps
    by (induction ss ps rule: list_induct2') (simp_all add: udp_kept_def split: write_res.split)
  from ur udp_processTxQueue_spec[OF ur(2), of sends] show ?thesis unfolding taken kept by blast
qed

theorem udp_tx_exact_witness:
  "\<exists>ur1 ur ur'. udp_run [UdpTx (Some demo_reply)] ur1 = Some ur \<and> udp_processTxQueue [SSent 3] ur = Some ur' \<and>
    length (ur_sent ur') = length (ur_sent ur) + 1"
proof -
  obtain ur0 ur1 where d: "mk_UdpReactor 9000 [demo_worker] = Some ur0" "udp_prepare demo_start ur0 = (ur1, True)"
    "workers_wf [demo_worker]" "port_list (ur_port ur1) = []" by (rule demo_udp)
  from udp_prepare_wf[OF d(1,3,2)] have "port_wf (ur_port ur1)" by (simp add: udp_wf_def)
  from this d(4) obtain port where p: "TcpReactor_enqueueTx (ur_port ur1) (Some demo_reply) = Some port"
    "length (port_list port) = 1"
  proof (cases rule: enqueueTx_cases[of "ur_port ur1" demo_reply])
    case (room port')
    with that d(4) show ?thesis by simp
  next
    case (full port')
    then have "unat (mq_capacity (tp_queue (ur_port ur1))) = 0" using d(4) by (simp add: port_room_def)
    with d(1,2) show ?thesis
      by (auto simp: mk_UdpReactor_def udp_prepare_def udp_init_def udp_createSocket_def udp_bindSocket_def
        demo_start_def mpsc_new_def Let_def split: if_splits bind_splits)
  qed
  have run: "udp_run [UdpTx (Some demo_reply)] ur1 = Some (ur1\<lparr>ur_port := port\<rparr>)"
    using p(1) by (simp add: udp_run_def UdpReactor_enqueueTx_def TcpReactor_enqueueTx_def)
  from p(2) obtain x where "port_list port = [x]" by (cases "port_list port") auto
  with udp_tx_exact[OF d(1,3,2), of "[UdpTx (Some demo_reply)]" "[SSent 3]"] run obtain ur' where
    "udp_processTxQueue [SSent 3] (ur1\<lparr>ur_port := port\<rparr>) = Some ur'" "length (ur_sent ur') = length (ur_sent ur1) + 1"
    by auto
  with run show ?thesis by (intro exI[of _ ur1] exI[of _ "ur1\<lparr>ur_port := port\<rparr>"] exI[of _ ur']) simp
qed

text \<open>
  C31. A UDP reply goes back to the sender: a datagram of any IPv4 address becomes a packet whose
  connection data, stored in a session and used by the packet builder for a reply, make the
  reactor send the reply to that very address and port.
\<close>

theorem udp_reply_reaches_sender:
  assumes "sin_family peer = AF_INET" "tx_protocol snap = UDP"
    and "tx_connInfo snap = pk_connInfo (udp_packet ur request peer)"
  shows "\<exists>p ur'. PacketBuilder_build reply snap = Some p \<and> udp_flushPacket (SSent n) p ur = Some ur' \<and>
    ur_sent ur' = ur_sent ur @ [(peer, reply)]"
proof -
  have swap: "htonl (ntohl a) = a" "htons (ntohs b) = b" for a b
    by (simp_all add: htonl_def ntohl_def htons_def ntohs_def bswap_bswap)
  from assms show ?thesis
    by (cases peer) (simp add: PacketBuilder_build_def udp_flushPacket_def udp_packet_def mk_Packet_def createSockAddr_def swap)
qed

theorem udp_reply_reaches_sender_witness:
  "\<exists>ur p ur'. PacketBuilder_build [7] \<lparr>tx_protocol = UDP, tx_tlsFd = - 1, tx_tcpFd = - 1, tx_udpFd = 3,
      tx_connInfo = pk_connInfo (udp_packet ur [1, 2] (createSockAddr 0x7F000001 5000))\<rparr> = Some p \<and>
    udp_flushPacket (SSent 1) p ur = Some ur' \<and>
    ur_sent ur' = ur_sent ur @ [(createSockAddr 0x7F000001 5000, [7])]"
proof -
  obtain ur where "mk_UdpReactor 9000 [demo_worker] = Some ur" by (rule demo_udp)
  from udp_reply_reaches_sender[of "createSockAddr 0x7F000001 5000" "\<lparr>tx_protocol = UDP, tx_tlsFd = - 1,
      tx_tcpFd = - 1, tx_udpFd = 3, tx_connInfo = pk_connInfo (udp_packet ur [1, 2] (createSockAddr 0x7F000001 5000))\<rparr>"
      ur "[1, 2]" "[7]" 1] show ?thesis
    by (intro exI[of _ ur]) (simp add: createSockAddr_def)
qed

end
