(* ===== verification/Startup.thy ===== *)
theory Startup
  imports HttpProps TlsProps Udp
begin

text \<open>
  How the two daemons come up and go down: \<open>shared/util/ThreadManager\<close>, \<open>serverd/protocol/tls/TlsContext\<close>,
  the constructors of the servers, \<open>serverd/core/Core\<close> with \<open>serverd/main\<close>, and \<open>mgmtd/core/Core\<close>. A
  thread is its name, its identity and its stop function; what runs in it is the subject of the
  other theories.
\<close>

subsection \<open>ThreadManager\<close>

datatype stop_fn =
  StopIpc | StopTls | StopUdp | StopTcp | StopShards | StopSessions | StopClient nat

record ThreadInfo =
  th_name :: bytes
  th_id :: nat
  th_joinable :: bool
  th_stop :: "stop_fn option"

text \<open>\<open>tm_nextId\<close> numbers the threads the system creates.\<close>

record ThreadManager =
  tm_threads :: "ThreadInfo list"
  tm_nextId :: nat

definition mk_ThreadManager :: ThreadManager where
  "mk_ThreadManager = \<lparr>tm_threads = [], tm_nextId = 1\<rparr>"

text \<open>The name the system shows: at most 15 characters.\<close>

definition setName :: "bytes \<Rightarrow> bytes" where
  "setName name = take 15 (takeWhile (\<lambda>c. c \<noteq> 0) name)"

definition addThread :: "bytes \<Rightarrow> stop_fn option \<Rightarrow> ThreadManager \<Rightarrow> ThreadManager" where
  "addThread name stopFunc tm =
     tm\<lparr>tm_threads := tm_threads tm @ [\<lparr>th_name = name, th_id = tm_nextId tm, th_joinable = True, th_stop = stopFunc\<rparr>],
        tm_nextId := tm_nextId tm + 1\<rparr>"

definition tm_start :: "nat \<Rightarrow> bytes \<Rightarrow> stop_fn option \<Rightarrow> ThreadManager \<Rightarrow> ThreadManager" where
  "tm_start n baseName stopFunc tm = fold (\<lambda>i. addThread (baseName @ ascii ''_'' @ to_string i) stopFunc) [0..<n] tm"

text \<open>The stop functions called and the threads joined, each in order.\<close>

definition stopAll :: "nat \<Rightarrow> ThreadManager \<Rightarrow> ThreadManager \<times> stop_fn list \<times> nat list" where
  "stopAll self tm =
     (tm\<lparr>tm_threads := []\<rparr>,
      List.map_filter th_stop (tm_threads tm),
      map th_id (filter (\<lambda>t. th_joinable t \<and> th_id t \<noteq> self) (tm_threads tm)))"

subsection \<open>TlsContext\<close>

record ssl_setup =
  so_init :: bool
  so_method :: bool
  so_ctx :: bool
  so_certificate :: bool
  so_privateKey :: bool
  so_check :: bool

text \<open>Whether \<open>m_ctx\<close> is set, how many contexts were freed, and the result.\<close>

definition TlsContext_init :: "ssl_setup \<Rightarrow> bool \<times> nat \<times> bool" where
  "TlsContext_init so =
     (if \<not> so_init so then (False, 0, False)
      else if \<not> so_method so then (False, 0, False)
      else if \<not> so_ctx so then (False, 0, False)
      else if \<not> so_certificate so then (False, 1, False)
      else if \<not> so_privateKey so then (False, 1, False)
      else if \<not> so_check so then (False, 1, False)
      else (True, 0, True))"

subsection \<open>Servers\<close>

definition mk_RxWorker :: "RxWorker option" where
  "mk_RxWorker = map_option (\<lambda>q. \<lparr>wk_queue = q, wk_wakeups = 0\<rparr>) (spsc_new 65536)"

definition mk_TlsServer :: "nat \<Rightarrow> TlsReactor option" where
  "mk_TlsServer workerCount = do { ws \<leftarrow> those (replicate workerCount mk_RxWorker); mk_TlsReactor ws }"

text \<open>\<open>fds\<close> are the values the reactor's descriptors happen to have: the constructor does not set them.\<close>

definition mk_TcpServer :: "u16 \<Rightarrow> nat \<Rightarrow> bool \<Rightarrow> fd \<times> fd \<Rightarrow> TcpReactor option" where
  "mk_TcpServer port worker tlsServer fds =
     do { ws \<leftarrow> those (replicate worker mk_RxWorker); mk_TcpReactor port ws tlsServer (fst fds) (snd fds) }"

definition mk_UdpServer :: "u16 \<Rightarrow> nat \<Rightarrow> UdpReactor option" where
  "mk_UdpServer port worker = do { ws \<leftarrow> those (replicate worker mk_RxWorker); mk_UdpReactor port ws }"

definition mk_IpcServer :: "bytes \<Rightarrow> nat \<Rightarrow> IpcReactor option" where
  "mk_IpcServer socketPath worker = do { ws \<leftarrow> those (replicate worker mk_IpcWorker); mk_IpcReactor socketPath ws }"

subsection \<open>The server core\<close>

text \<open>\<open>None\<close> in a field is a null pointer; \<open>sv_txRouters\<close> are the shards whose contexts know the router.\<close>

record ServerCore =
  sv_running :: bool
  sv_enableDb :: bool
  sv_clients :: nat
  sv_shardThreads :: nat
  sv_ipcThreads :: nat
  sv_tcpThreads :: nat
  sv_udpThreads :: nat
  sv_tlsThreads :: nat
  sv_tcpPort :: u16
  sv_udpPort :: u16
  sv_threadManager :: "ThreadManager option"
  sv_dbManager :: "DbManager option"
  sv_shardManager :: "(MarketMeta list \<times> ShardWorker list) option"
  sv_sessionManager :: "SessionManager option"
  sv_ipcServer :: "IpcReactor option"
  sv_tlsContext :: bool
  sv_rxRouter :: bool
  sv_tlsServer :: "TlsReactor option"
  sv_tcpServer :: "TcpReactor option"
  sv_udpServer :: "UdpReactor option"
  sv_txRouter :: bool
  sv_txRouters :: "nat list"
  sv_clientList :: "(nat \<times> u16 \<times> u16) list"

definition mk_ServerCore :: ServerCore where
  "mk_ServerCore = \<lparr>sv_running = True, sv_enableDb = False, sv_clients = 0, sv_shardThreads = 0, sv_ipcThreads = 0,
     sv_tcpThreads = 0, sv_udpThreads = 0, sv_tlsThreads = 0, sv_tcpPort = 0, sv_udpPort = 0, sv_threadManager = None,
     sv_dbManager = None, sv_shardManager = None, sv_sessionManager = None, sv_ipcServer = None, sv_tlsContext = False,
     sv_rxRouter = False, sv_tlsServer = None, sv_tcpServer = None, sv_udpServer = None, sv_txRouter = False,
     sv_txRouters = [], sv_clientList = []\<rparr>"

text \<open>What the world answers during the start: the database, the market files, OpenSSL.\<close>

record startup_env =
  su_odbcEnv :: bool
  su_connects :: "(bool \<times> (string \<Rightarrow> bool) \<times> nat) list"
  su_files :: "u8 \<Rightarrow> snapshot_file"
  su_ssl :: ssl_setup
  su_fds :: "fd \<times> fd"

definition setFlag :: "bool \<Rightarrow> ServerCore \<Rightarrow> ServerCore" where
  "setFlag enableDb sv = sv\<lparr>sv_enableDb := enableDb\<rparr>"

definition db_config :: DbConfig where
  "db_config = \<lparr>cf_server = ''localhost,1433'', cf_database = ''NFENGINE'', cf_user = ''admin'',
     cf_password = ''Admin123'', cf_encrypt = True, cf_trustServerCert = True, cf_poolSize = 4\<rparr>"

definition initDatabase :: "startup_env \<Rightarrow> ServerCore \<Rightarrow> ServerCore \<times> bool" where
  "initDatabase env sv =
     (let (db, ok) = DbManager_init \<lparr>db_pool = [], db_stmts = 0\<rparr> db_config (su_odbcEnv env) (su_connects env)
      in (sv\<lparr>sv_dbManager := Some db\<rparr>, ok))"

definition initThreadManager :: "ServerCore \<Rightarrow> ServerCore" where
  "initThreadManager sv = sv\<lparr>sv_threadManager := Some mk_ThreadManager\<rparr>"

definition initShardManager :: "startup_env \<Rightarrow> ServerCore \<Rightarrow> ServerCore" where
  "initShardManager env sv =
     sv\<lparr>sv_shardManager := Some (initMarkets, initWorkers (sv_shardThreads sv) initMarkets (su_files env))\<rparr>"

definition initSessionManager :: "ServerCore \<Rightarrow> ServerCore" where
  "initSessionManager sv = sv\<lparr>sv_sessionManager := Some mk_SessionManager\<rparr>"

definition initializeRuntime :: "startup_env \<Rightarrow> ServerCore \<Rightarrow> ServerCore \<times> bool" where
  "initializeRuntime env sv =
     (let sv = sv\<lparr>sv_shardThreads := 4, sv_ipcThreads := 4, sv_clients := 1, sv_tcpThreads := 3, sv_udpThreads := 3,
            sv_tlsThreads := 3, sv_tcpPort := 8000, sv_udpPort := 8001\<rparr>;
          (sv, ok) = (if sv_enableDb sv then initDatabase env sv else (sv, True))
      in if \<not> ok then (sv, False)
         else (initSessionManager (initShardManager env (initThreadManager sv)), True))"

definition initializeIpcServer :: "ServerCore \<Rightarrow> ServerCore option" where
  "initializeIpcServer sv =
     do { ipc \<leftarrow> mk_IpcServer (ascii ''/run/nf-server/nf-server.sock'') (sv_ipcThreads sv); Some (sv\<lparr>sv_ipcServer := Some ipc\<rparr>) }"

definition initializeTlsContext :: "startup_env \<Rightarrow> ServerCore \<Rightarrow> ServerCore \<times> bool" where
  "initializeTlsContext env sv =
     (let (ctx, _, ok) = TlsContext_init (su_ssl env) in (sv\<lparr>sv_tlsContext := ctx\<rparr>, ok))"

definition initializeIngress :: "startup_env \<Rightarrow> ServerCore \<Rightarrow> ServerCore option" where
  "initializeIngress env sv =
     do {
       tls \<leftarrow> mk_TlsServer (sv_tlsThreads sv);
       tcp \<leftarrow> mk_TcpServer (sv_tcpPort sv) (sv_tcpThreads sv) True (su_fds env);
       udp \<leftarrow> mk_UdpServer (sv_udpPort sv) (sv_udpThreads sv);
       Some (sv\<lparr>sv_rxRouter := True, sv_tlsServer := Some tls, sv_tcpServer := Some tcp, sv_udpServer := Some udp\<rparr>)
     }"

definition initializeEgress :: "ServerCore \<Rightarrow> ServerCore option" where
  "initializeEgress sv =
     do {
       (_, workers) \<leftarrow> sv_shardManager sv;
       Some (sv\<lparr>sv_txRouter := True, sv_txRouters := sv_txRouters sv @ [0..<length workers]\<rparr>)
     }"

definition initializeClients :: "ServerCore \<Rightarrow> ServerCore" where
  "initializeClients sv =
     sv\<lparr>sv_clientList := map (\<lambda>i. (i + 1, sv_udpPort sv, sv_tcpPort sv)) [0..<sv_clients sv]\<rparr>"

definition startThreads :: "ServerCore \<Rightarrow> ServerCore option" where
  "startThreads sv =
     do {
       tm \<leftarrow> sv_threadManager sv;
       let tm = addThread (ascii ''ipc_server'') (Some StopIpc) tm;
       let tm = addThread (ascii ''tls_reactor'') (Some StopTls) tm;
       let tm = addThread (ascii ''udp_reactor'') (Some StopUdp) tm;
       let tm = addThread (ascii ''tcp_reactor'') (Some StopTcp) tm;
       let tm = addThread (ascii ''shard_manager'') (Some StopShards) tm;
       let tm = addThread (ascii ''session_manager'') (Some StopSessions) tm;
       let tm = fold (\<lambda>i. addThread (ascii ''client_'' @ to_string (i + 1)) (Some (StopClient (i + 1)))) [0..<sv_clients sv] tm;
       Some (sv\<lparr>sv_threadManager := Some tm\<rparr>)
     }"

text \<open>\<open>signals\<close> tells for each sleep whether a signal arrived during it; a list too short never ends the wait.\<close>

definition signalHandler :: "ServerCore \<Rightarrow> ServerCore" where
  "signalHandler sv = sv\<lparr>sv_running := False\<rparr>"

fun waitForShutdown :: "bool list \<Rightarrow> ServerCore \<Rightarrow> ServerCore option" where
  "waitForShutdown [] sv = (if sv_running sv then None else Some sv)"
| "waitForShutdown (s # signals) sv =
     (if sv_running sv then waitForShutdown signals (if s then signalHandler sv else sv) else Some sv)"

definition Core_start :: "startup_env \<Rightarrow> ServerCore \<Rightarrow> (ServerCore \<times> bool) option" where
  "Core_start env sv =
     (let (sv, ok) = initializeRuntime env sv in
      if \<not> ok then Some (sv, False)
      else do {
        sv \<leftarrow> initializeIpcServer sv;
        let (sv, ok) = initializeTlsContext env sv;
        if \<not> ok then Some (sv, False)
        else do {
          sv \<leftarrow> initializeIngress env sv;
          sv \<leftarrow> initializeEgress sv;
          let sv = initializeClients sv;
          sv \<leftarrow> startThreads sv;
          Some (sv, True)
        }
      })"

definition Core_run :: "startup_env \<Rightarrow> bool list \<Rightarrow> ServerCore \<Rightarrow> ServerCore option" where
  "Core_run env signals sv =
     do {
       (sv, ok) \<leftarrow> Core_start env sv;
       if ok then waitForShutdown signals sv else Some sv
     }"

definition Core_shutdown :: "nat \<Rightarrow> ServerCore \<Rightarrow> ServerCore \<times> stop_fn list \<times> nat list" where
  "Core_shutdown self sv =
     (case sv_threadManager sv of
        None \<Rightarrow> (sv, [], [])
      | Some tm \<Rightarrow> (let (tm, stopped, joined) = stopAll self tm in (sv\<lparr>sv_threadManager := Some tm\<rparr>, stopped, joined)))"

definition parseDatabaseFlag :: "bytes list \<Rightarrow> bool" where
  "parseDatabaseFlag argv =
     fold (\<lambda>arg enable. if arg = ascii ''--database=true'' then True
                       else if arg = ascii ''--database=false'' then False else enable) (tl argv) True"

text \<open>The main thread is number 0. The flag is computed and not used.\<close>

definition serverd_main :: "bytes list \<Rightarrow> startup_env \<Rightarrow> bool list \<Rightarrow> (ServerCore \<times> stop_fn list \<times> nat list) option" where
  "serverd_main argv env signals =
     (let enableDb = parseDatabaseFlag argv in
      map_option (Core_shutdown 0) (Core_run env signals mk_ServerCore))"

subsection \<open>The management daemon's core\<close>

text \<open>The four threads run the event loop; \<open>stopAll\<close> has nothing to stop and waits for them.\<close>

definition mgmt_Core_run :: "ThreadManager \<times> stop_fn list \<times> nat list" where
  "mgmt_Core_run = stopAll 0 (tm_start 4 (ascii ''http_server'') None mk_ThreadManager)"

subsection \<open>What the start builds\<close>

text \<open>The parts as the engine of the other theories sees them.\<close>

definition engine_of :: "ServerCore \<Rightarrow> Engine option" where
  "engine_of sv =
     do {
       tls \<leftarrow> sv_tlsServer sv;
       tcp \<leftarrow> sv_tcpServer sv;
       udp \<leftarrow> sv_udpServer sv;
       sm \<leftarrow> sv_sessionManager sv;
       (markets, workers) \<leftarrow> sv_shardManager sv;
       Some \<lparr>en_egress = \<lparr>eg_sessions = sm, eg_tls = Some (lr_port tls), eg_tcp = Some (tr_port tcp), eg_udp = Some (ur_port udp)\<rparr>,
         en_shards = workers, en_markets = markets, en_db = sv_dbManager sv,
         en_txRouter = (sv_txRouter sv \<and> list_all (\<lambda>i. i \<in> set (sv_txRouters sv)) [0..<length workers]), en_promises = []\<rparr>
     }"

definition ssl_ok :: "ssl_setup \<Rightarrow> bool" where
  "ssl_ok so \<longleftrightarrow> so_init so \<and> so_method so \<and> so_ctx so \<and> so_certificate so \<and> so_privateKey so \<and> so_check so"

lemma TlsContext_init_ok: obtains n where "TlsContext_init so = (ssl_ok so, n, ssl_ok so)"
proof -
  have "TlsContext_init so = (ssl_ok so, fst (snd (TlsContext_init so)), ssl_ok so)"
    by (simp add: TlsContext_init_def ssl_ok_def)
  then show ?thesis by (rule that)
qed

lemma those_replicate: "those (replicate n (Some x)) = Some (replicate n x)"
  by (induction n) auto

lemma rx_workers:
  obtains ws where "those (replicate 3 mk_RxWorker) = Some ws" "workers_wf ws" "length ws = 3"
proof -
  obtain q :: "Packet SpscQueue" where q: "spsc_new 65536 = Some q" "spsc_wf q"
    by (rule spsc_new_wf[of 65536]) (simp_all add: pow2_def)
  let ?w = "\<lparr>wk_queue = q, wk_wakeups = 0\<rparr>"
  have w: "mk_RxWorker = Some ?w" by (simp add: mk_RxWorker_def q(1))
  have "those (replicate 3 mk_RxWorker) = Some (replicate 3 ?w)" unfolding w by (rule those_replicate)
  moreover have "workers_wf (replicate 3 ?w)" using q(2) by (simp add: workers_wf_def worker_wf_def numeral_3_eq_3)
  ultimately show ?thesis using that by simp
qed

lemma ipc_workers:
  obtains ws where "those (replicate 4 mk_IpcWorker) = Some ws" "list_all iw_wf ws" "length ws = 4"
proof -
  have w: "mk_IpcWorker = Some demo_ipc_worker"
  proof -
    obtain q :: "IpcMessage SpscQueue" where "spsc_new 65536 = Some q" by (rule spsc_new_wf[of 65536]) (simp_all add: pow2_def)
    then show ?thesis by (simp add: demo_ipc_worker_def mk_IpcWorker_def)
  qed
  have "those (replicate 4 mk_IpcWorker) = Some (replicate 4 demo_ipc_worker)" unfolding w by (rule those_replicate)
  moreover have "list_all iw_wf (replicate 4 demo_ipc_worker)" using demo_ipc_worker_wf(1) by (simp add: list_all_length)
  ultimately show ?thesis using that by simp
qed

lemma servers_built:
  obtains tls tcp udp ipc where
    "mk_TlsServer 3 = Some tls" "workers_wf (lr_workers tls)" "length (lr_workers tls) = 3" "port_wf (lr_port tls)"
    "mk_TcpServer port 3 b fds = Some tcp" "workers_wf (tr_workers tcp)" "length (tr_workers tcp) = 3" "port_wf (tr_port tcp)"
    "mk_UdpServer port' 3 = Some udp" "workers_wf (ur_workers udp)" "length (ur_workers udp) = 3" "port_wf (ur_port udp)"
    "mk_IpcServer path 4 = Some ipc" "list_all iw_wf (ir_workers ipc)" "length (ir_workers ipc) = 4"
proof -
  obtain ws where w: "those (replicate 3 mk_RxWorker) = Some ws" "workers_wf ws" "length ws = 3" by (rule rx_workers)
  obtain iws where i: "those (replicate 4 mk_IpcWorker) = Some iws" "list_all iw_wf iws" "length iws = 4" by (rule ipc_workers)
  have ne: "ws \<noteq> []" "iws \<noteq> []" using w(3) i(3) by auto
  obtain q :: "Packet MpscQueue" where q: "mpsc_new 65536 = Some q" "mpsc_wf q" by (rule mpsc_new_wf[of 65536]) (simp_all add: pow2_def)
  obtain iq :: "IpcMessage MpscQueue" where iq: "mpsc_new 65536 = Some iq" by (rule mpsc_new_wf[of 65536]) (simp_all add: pow2_def)
  have "\<exists>tls. mk_TlsServer 3 = Some tls \<and> workers_wf (lr_workers tls) \<and> length (lr_workers tls) = 3 \<and> port_wf (lr_port tls)"
    by (simp add: mk_TlsServer_def mk_TlsReactor_def w q port_wf_def)
  moreover have "\<exists>tcp. mk_TcpServer port 3 b fds = Some tcp \<and> workers_wf (tr_workers tcp) \<and> length (tr_workers tcp) = 3 \<and> port_wf (tr_port tcp)"
    by (simp add: mk_TcpServer_def mk_TcpReactor_def w q ne port_wf_def)
  moreover have "\<exists>udp. mk_UdpServer port' 3 = Some udp \<and> workers_wf (ur_workers udp) \<and> length (ur_workers udp) = 3 \<and> port_wf (ur_port udp)"
    by (simp add: mk_UdpServer_def mk_UdpReactor_def w q ne port_wf_def)
  moreover have "\<exists>ipc. mk_IpcServer path 4 = Some ipc \<and> list_all iw_wf (ir_workers ipc) \<and> length (ir_workers ipc) = 4"
    by (simp add: mk_IpcServer_def mk_IpcReactor_def i iq ne)
  ultimately show ?thesis using that by blast
qed

lemma waitForShutdown_stopped: "\<not> sv_running sv \<Longrightarrow> waitForShutdown signals sv = Some sv"
  by (cases signals) auto

lemma waitForShutdown_ends:
  "True \<in> set signals \<Longrightarrow> \<exists>sv'. waitForShutdown signals sv = Some sv' \<and> sv_threadManager sv' = sv_threadManager sv"
proof (induction signals arbitrary: sv)
  case (Cons s signals)
  show ?case
  proof (cases "sv_running sv \<and> \<not> s")
    case True
    with Cons show ?thesis by auto
  next
    case False
    then show ?thesis by (auto simp: signalHandler_def waitForShutdown_stopped)
  qed
qed simp

text \<open>The threads of a started server.\<close>

definition server_threads :: "(bytes \<times> stop_fn) list" where
  "server_threads = [(ascii ''ipc_server'', StopIpc), (ascii ''tls_reactor'', StopTls), (ascii ''udp_reactor'', StopUdp),
     (ascii ''tcp_reactor'', StopTcp), (ascii ''shard_manager'', StopShards), (ascii ''session_manager'', StopSessions),
     (ascii ''client_'' @ to_string 1, StopClient 1)]"

definition server_tm :: ThreadManager where
  "server_tm = fold (\<lambda>(name, stop). addThread name (Some stop)) server_threads mk_ThreadManager"

lemma Core_start_builds:
  assumes "ssl_ok (su_ssl env)" "mk_TlsServer 3 = Some tls" "mk_TcpServer 8000 3 True (su_fds env) = Some tcp"
    "mk_UdpServer 8001 3 = Some udp" "mk_IpcServer (ascii ''/run/nf-server/nf-server.sock'') 4 = Some ipc"
  shows "\<exists>sv. Core_start env mk_ServerCore = Some (sv, True) \<and> sv_tlsServer sv = Some tls \<and> sv_tcpServer sv = Some tcp \<and>
    sv_udpServer sv = Some udp \<and> sv_ipcServer sv = Some ipc \<and> sv_dbManager sv = None \<and>
    sv_shardManager sv = Some (initMarkets, initWorkers 4 initMarkets (su_files env)) \<and>
    sv_sessionManager sv = Some mk_SessionManager \<and> sv_txRouter sv \<and> sv_txRouters sv = [0..<4] \<and>
    sv_threadManager sv = Some server_tm"
proof -
  have l: "length (initWorkers 4 initMarkets (su_files env)) = 4" by (simp add: initWorkers_def)
  have u: "[0..<1] = [0]" "[0..<Suc 0] = [0]" by simp_all
  obtain n where t: "TlsContext_init (su_ssl env) = (True, n, True)" by (rule TlsContext_init_ok[of "su_ssl env"]) (use assms(1) in simp)
  show ?thesis
    using assms(2-5)
    by (simp add: Core_start_def initializeRuntime_def initializeIpcServer_def initializeTlsContext_def mk_ServerCore_def
        initSessionManager_def initShardManager_def initThreadManager_def initializeIngress_def initializeEgress_def
        initializeClients_def startThreads_def server_tm_def server_threads_def l u t)
qed

lemma stopAll_server_tm:
  "stopAll 0 server_tm = (server_tm\<lparr>tm_threads := []\<rparr>,
     [StopIpc, StopTls, StopUdp, StopTcp, StopShards, StopSessions, StopClient 1], [1, 2, 3, 4, 5, 6, 7])"
  by (simp add: stopAll_def server_tm_def server_threads_def addThread_def mk_ThreadManager_def List.map_filter_def)

lemma started_engine:
  assumes "sv_tlsServer sv = Some tls" "sv_tcpServer sv = Some tcp" "sv_udpServer sv = Some udp" "sv_dbManager sv = None"
    "sv_shardManager sv = Some (initMarkets, initWorkers 4 initMarkets files)" "sv_sessionManager sv = Some mk_SessionManager"
    "sv_txRouter sv" "sv_txRouters sv = [0..<4]" "port_wf (lr_port tls)" "port_wf (tr_port tcp)" "port_wf (ur_port udp)"
  shows "\<exists>en. engine_of sv = Some en \<and> engine_wf en \<and> en_db en = None \<and>
    map (\<lambda>w. mc_marketId (sw_market w)) (en_shards en) = [1, 2, 3, 4]"
proof -
  have market: "mc_marketId (mk_MarketContext i m f) = m" for i m f
    by (auto simp: mk_MarketContext_def loadSnapshot_def Let_def split: snapshot_file.splits option.splits)
  have ws: "map (\<lambda>w. mc_marketId (sw_market w)) (initWorkers 4 initMarkets files) = [1, 2, 3, 4]"
    "map sw_shardIdx (initWorkers 4 initMarkets files) = [0..<4]" "length (initWorkers 4 initMarkets files) = 4"
    by (simp_all add: initWorkers_def mk_ShardWorker_def initMarkets_def Let_def market upt_rec)
  have "sm_wf mk_SessionManager" by (simp add: sm_wf_def mk_SessionManager_def)
  then show ?thesis using assms ws
    by (simp add: engine_of_def engine_wf_def egress_wf_def initMarkets_def list_all_iff)
qed

text \<open>
  The command line selects no database: the flag is parsed, and by default set, but \<open>setFlag\<close> is never
  called.
\<close>

lemma database_flag_ignored:
  "parseDatabaseFlag [arg0] \<and> serverd_main argv env signals = serverd_main argv' env signals"
  by (simp add: parseDatabaseFlag_def serverd_main_def)

lemma mgmt_Core_run_waits:
  "map th_name (tm_threads (tm_start 4 (ascii ''http_server'') None mk_ThreadManager)) =
     map (\<lambda>i. ascii ''http_server_'' @ to_string i) [0, 1, 2, 3] \<and> snd mgmt_Core_run = ([], [1, 2, 3, 4])"
  by (simp add: mgmt_Core_run_def tm_start_def addThread_def mk_ThreadManager_def stopAll_def List.map_filter_def upt_rec ascii_def
      numeral_2_eq_2 numeral_3_eq_3)

subsection \<open>Properties\<close>


definition demo_startup :: startup_env where
  "demo_startup = \<lparr>su_odbcEnv = True, su_connects = [], su_files = \<lambda>_. SnapshotMissing,
     su_ssl = \<lparr>so_init = True, so_method = True, so_ctx = True, so_certificate = True, so_privateKey = True, so_check = True\<rparr>,
     su_fds = (0, 0)\<rparr>"


end
