(* ===== verification/Spec2Isabelle.thy ===== *)
theory Spec2Isabelle
  imports SpscSteps Simulator Startup
begin

text \<open>
  A verification library for nf-engine, the C++ sources under \<open>src/\<close>.
\<close>

end
